(* ===== verification/Prelude.thy ===== *)
theory Prelude
  imports Main "HOL-Library.Word"
begin

text \<open>
  Shared vocabulary of the development: machine integers and byte strings, the memory
  representation of a 64-bit integer on the little-endian hosts the program runs on, the
  error values of the C++ exceptions the code throws, and the generic facts about lists,
  bytes and maps that the component theories use.
\<close>

unbundle bit_operations_syntax

section \<open>Names of the model's types\<close>

type_synonym byte = "8 word"
type_synonym bytes = "8 word list"
type_synonym u16 = "16 word"
type_synonym u32 = "32 word"
type_synonym u64 = "64 word"

text \<open>
  The exceptions of the C++ sources, by class; the model keeps the message because two
  throws of one class are told apart by nothing else.
\<close>

datatype cpp_error =
    runtime_error string
  | logic_error string
  | length_error string
  | out_of_range string

named_theorems word_unfold \<open>definitions of the fixed-width conversions\<close>
named_theorems mem_simps \<open>facts about the memory image of an integer\<close>

section \<open>Bytes of an integer\<close>

text \<open>
  \<open>nat_le n x\<close> is the little-endian image of \<open>x\<close> in \<open>n\<close> bytes (what
  \<^verbatim>\<open>memcpy\<close> from an integer variable copies on x86-64 and ARM64) and \<open>le_nat\<close> reads
  such an image back.
\<close>

fun nat_le :: "nat \<Rightarrow> nat \<Rightarrow> bytes" where
  "nat_le 0 x = []"
| "nat_le (Suc n) x = of_nat (x mod 256) # nat_le n (x div 256)"

fun le_nat :: "bytes \<Rightarrow> nat" where
  "le_nat [] = 0"
| "le_nat (b # bs) = unat b + 256 * le_nat bs"

lemma length_nat_le [simp, mem_simps]: "length (nat_le n x) = n"
  by (induction n arbitrary: x) auto

lemma unat_of_nat_byte [simp]: "x < 256 \<Longrightarrow> unat (of_nat x :: byte) = x"
  by (simp add: unat_of_nat)

lemma unat_byte_less [simp]: "unat (b :: byte) < 256"
  using unsigned_less [where ?'a = nat and w = b] by simp

lemma le_nat_nat_le [mem_simps]: "le_nat (nat_le n x) = x mod 256 ^ n"
proof (induction n arbitrary: x)
  case (Suc n)
  have "x mod 256 ^ Suc n = x mod 256 + 256 * (x div 256 mod 256 ^ n)"
    by (simp add: mod_mult2_eq)
  with Suc show ?case by simp
qed simp

lemma le_nat_bound: "le_nat bs < 256 ^ length bs"
proof (induction bs)
  case (Cons b bs)
  have "unat b + 256 * le_nat bs < 256 + 256 * le_nat bs" by simp
  also have "\<dots> = 256 * (le_nat bs + 1)" by simp
  also have "\<dots> \<le> 256 * 256 ^ length bs" using Cons by (simp only: mult_le_mono2 Suc_leI add.commute plus_1_eq_Suc)
  finally show ?case by simp
qed simp

lemma nat_le_le_nat [mem_simps]: "length bs = n \<Longrightarrow> nat_le n (le_nat bs) = bs"
proof (induction bs arbitrary: n)
  case (Cons b bs)
  then show ?case by (auto simp: div_mult_self4 intro: word_unat_eq_iff [THEN iffD2])
qed simp

lemma le_nat_append: "le_nat (xs @ ys) = le_nat xs + 256 ^ length xs * le_nat ys"
  by (induction xs) (simp_all add: algebra_simps)

lemma nat_le_add: "nat_le (m + n) x = nat_le m x @ nat_le n (x div 256 ^ m)"
  by (induction m arbitrary: x) (simp_all add: div_mult2_eq)

lemma nat_le_map: "nat_le n x = map (\<lambda>i. of_nat (x div 256 ^ i mod 256)) [0..<n]"
proof (induction n arbitrary: x)
  case (Suc n)
  have "x div 256 div 256 ^ i = x div 256 ^ Suc i" for i by (simp add: div_mult2_eq)
  with Suc show ?case by (simp add: upt_conv_Cons map_Suc_upt [symmetric] comp_def del: upt_Suc)
qed simp

text \<open>
  The value of bytes written most significant first, which is what \<^verbatim>\<open>ntohs\<close> and \<^verbatim>\<open>ntohl\<close>
  make of bytes copied into the memory of an integer.
\<close>

definition be_nat :: "bytes \<Rightarrow> nat" where
  "be_nat bs = le_nat (rev bs)"

definition be_bytes :: "nat \<Rightarrow> nat \<Rightarrow> bytes" where
  "be_bytes n x = rev (nat_le n x)"

lemma length_be_bytes [simp]: "length (be_bytes n x) = n"
  by (simp add: be_bytes_def)

lemma be_nat_be_bytes: "be_nat (be_bytes n x) = x mod 256 ^ n"
  by (simp add: be_nat_def be_bytes_def le_nat_nat_le)

lemma be_nat_append: "be_nat (xs @ ys) = be_nat xs * 256 ^ length ys + be_nat ys"
  by (simp add: be_nat_def le_nat_append)

lemma be_nat_bound: "be_nat bs < 256 ^ length bs"
  using le_nat_bound [of "rev bs"] by (simp add: be_nat_def)

text \<open>The memory image of a \<^verbatim>\<open>uint64_t\<close>, and the byte swap \<^verbatim>\<open>htobe64\<close> is on these hosts.\<close>

definition mem_of_u64 :: "u64 \<Rightarrow> bytes" where
  "mem_of_u64 w = nat_le 8 (unat w)"

definition u64_of_mem :: "bytes \<Rightarrow> u64" where
  "u64_of_mem bs = of_nat (le_nat bs)"

definition bswap64 :: "u64 \<Rightarrow> u64" where
  "bswap64 w = u64_of_mem (rev (mem_of_u64 w))"

lemma length_mem_of_u64 [simp]: "length (mem_of_u64 w) = 8"
  by (simp add: mem_of_u64_def)

lemma u64_of_mem_of_u64 [simp]: "u64_of_mem (mem_of_u64 w) = w"
proof -
  have "unat w < 256 ^ 8" using unsigned_less [where ?'a = nat and w = w] by simp
  then show ?thesis by (simp add: u64_of_mem_def mem_of_u64_def le_nat_nat_le)
qed

lemma mem_of_u64_of_mem [simp]:
  assumes "length bs = 8"
  shows "mem_of_u64 (u64_of_mem bs) = bs"
proof -
  have "le_nat bs < 2 ^ 64" using le_nat_bound [of bs] assms by simp
  then have "unat (of_nat (le_nat bs) :: u64) = le_nat bs"
    by (simp add: unat_of_nat)
  with assms show ?thesis by (simp add: u64_of_mem_def mem_of_u64_def nat_le_le_nat)
qed

lemma bswap64_bswap64 [simp]: "bswap64 (bswap64 w) = w"
  by (simp add: bswap64_def)

lemma mem_bswap64: "mem_of_u64 (bswap64 w) = rev (mem_of_u64 w)"
  by (simp add: bswap64_def)

section \<open>Characters and bytes\<close>

text \<open>
  Text protocols are written over \<^typ>\<open>char\<close>, binary ones over \<^typ>\<open>byte\<close>; a C++
  \<^verbatim>\<open>char\<close> is either, and these are the two readings of it.
\<close>

definition byte_of :: "char \<Rightarrow> byte" where
  "byte_of c = of_nat (of_char c)"

definition bytes_of :: "string \<Rightarrow> bytes" where
  "bytes_of s = map byte_of s"

definition char_of_byte :: "byte \<Rightarrow> char" where
  "char_of_byte b = char_of (unat b)"

lemma length_bytes_of [simp]: "length (bytes_of s) = length s"
  by (simp add: bytes_of_def)

lemma bytes_of_append [simp]: "bytes_of (s @ t) = bytes_of s @ bytes_of t"
  by (simp add: bytes_of_def)

lemma of_char_less_256 [simp]: "(of_char c :: nat) < 256"
  by (metis of_char_mod_256 mod_less_divisor zero_less_numeral)

lemma unat_byte_of [simp]: "unat (byte_of c) = of_char c"
  by (simp add: byte_of_def del: of_nat_of_char)

lemma char_of_byte_of [simp]: "char_of_byte (byte_of c) = c"
  by (simp add: char_of_byte_def)

lemma byte_of_char_of_byte [simp]: "byte_of (char_of_byte b) = b"
  by (rule word_unat_eq_iff [THEN iffD2]) (simp add: char_of_byte_def)

lemma unat_ucast32 [simp]: "unat (ucast (a :: byte) :: u32) = unat a"
proof -
  have "unat a < 2 ^ 32" by (rule less_trans [OF unat_byte_less]) simp
  then show ?thesis by (simp add: unsigned_ucast_eq take_bit_nat_eq_self)
qed

lemma ucast32_of_nat: "ucast (a :: byte) = (of_nat (unat a) :: u32)"
  using less_trans [OF unat_byte_less, of "2 ^ 32" a] by (simp add: word_unat_eq_iff unat_of_nat)

text \<open>A statement about every byte is a computation over the 256 of them.\<close>

definition all_bytes :: "(byte \<Rightarrow> bool) \<Rightarrow> bool" where
  "all_bytes P \<longleftrightarrow> list_all (\<lambda>n. P (of_nat n)) [0..<256]"

lemma all_bytesD: "all_bytes P \<Longrightarrow> P b"
proof -
  assume "all_bytes P"
  then have "\<forall>n\<in>{0..<256}. P (of_nat n)" by (simp only: all_bytes_def list_all_iff set_upt)
  then have "P (of_nat (unat b))" by (rule bspec) simp
  then show ?thesis by simp
qed

section \<open>Lists and maps\<close>

lemma length_4E:
  assumes "length xs = 4"
  obtains a b c d where "xs = [a, b, c, d]"
  using assms by (auto simp: length_Suc_conv numeral_eq_Suc)

lemma take_drop_append_all:
  assumes "length xs = n"
  shows "take n (xs @ ys) = xs" and "drop n (xs @ ys) = ys"
  using assms by auto

lemma map_upd_None_dom: "m k = None \<Longrightarrow> ran (m(k \<mapsto> v)) = insert v (ran m)"
  by (metis map_upd_Some_unfold ran_map_upd)

lemma map_eqI:
  assumes "\<And>k v. m k = Some v \<longleftrightarrow> m' k = Some v"
  shows "m = m'"
proof
  fix k show "m k = m' k" using assms [of k] by (metis not_None_eq)
qed

lemma filter_notin_image: "a \<notin> f ` set xs \<Longrightarrow> filter (\<lambda>m. f m \<noteq> a) xs = xs"
  by (induction xs) auto

end
