(* ===== verification/Timer.thy ===== *)
theory Timer
  imports Prelude
begin

text \<open>
  The timer library (external/avant-timer): \<^verbatim>\<open>timer\<close> and \<^verbatim>\<open>timer_manager\<close>.
  A timer holds a 64-bit expiry, a repeat count and a callback; the manager keeps the live
  timers in a multimap ordered by expiry and an index from timer id to queue node.
  Callbacks are values of a type parameter, given a meaning by the argument \<open>exec\<close>, which
  threads the state \<open>'s\<close> the callbacks change; a callback that throws is not modelled.
  Timers are values: a caller that keeps the shared pointer and calls
  \<^verbatim>\<open>enforce_run\<close> on a queued timer behind the manager's back is outside the model.
\<close>

section \<open>A timer\<close>

record 'cb timer =
  m_id :: u64
  m_expired_time :: u64
  m_repeated_times :: int
  m_interval :: u64
  m_callback :: "'cb option"

definition UINT64_MAX :: u64 where
  "UINT64_MAX = - 1"

definition REPEAT_INFINITE :: int where
  "REPEAT_INFINITE = - 1"

definition saturating_expiry :: "u64 \<Rightarrow> u64 \<Rightarrow> u64" where
  "saturating_expiry base interval =
     (if interval > UINT64_MAX - base then UINT64_MAX else base + interval)"

definition timer_new :: "u64 \<Rightarrow> u64 \<Rightarrow> int \<Rightarrow> u64 \<Rightarrow> 'cb option \<Rightarrow> 'cb timer" where
  "timer_new timer_id now_time_stamp repeated_times interval callback =
     \<lparr>m_id = timer_id,
      m_expired_time = saturating_expiry now_time_stamp interval,
      m_repeated_times = repeated_times,
      m_interval = interval,
      m_callback = callback\<rparr>"

definition is_expired :: "'cb timer \<Rightarrow> u64 \<Rightarrow> bool" where
  "is_expired t now \<longleftrightarrow> now \<ge> m_expired_time t"

definition repeated_times_is_zero :: "'cb timer \<Rightarrow> bool" where
  "repeated_times_is_zero t \<longleftrightarrow> m_repeated_times t = 0"

definition run_callback :: "('cb \<Rightarrow> 'cb timer \<Rightarrow> 's \<Rightarrow> 's) \<Rightarrow> 'cb timer \<Rightarrow> 's \<Rightarrow> 's" where
  "run_callback exec t s =
     (if m_repeated_times t = REPEAT_INFINITE \<or> m_repeated_times t \<ge> 1
      then (case m_callback t of None \<Rightarrow> s | Some cb \<Rightarrow> exec cb t s)
      else s)"

definition rearm :: "'cb timer \<Rightarrow> 'cb timer" where
  "rearm t =
     (let t1 = (if m_repeated_times t \<ge> 1
                then t\<lparr>m_repeated_times := m_repeated_times t - 1\<rparr> else t)
      in if m_repeated_times t1 \<noteq> 0
         then t1\<lparr>m_expired_time := saturating_expiry (m_expired_time t1) (m_interval t1)\<rparr>
         else t1)"

definition timer_run ::
    "('cb \<Rightarrow> 'cb timer \<Rightarrow> 's \<Rightarrow> 's) \<Rightarrow> 'cb timer \<Rightarrow> 's \<Rightarrow> 'cb timer \<times> 's" where
  "timer_run exec t s = (rearm t, run_callback exec t s)"

section \<open>The expiration queue\<close>

text \<open>
  A node of the multimap: its identity (what an iterator denotes), its key and its value.
  \<open>mm_insert\<close> is \<^verbatim>\<open>multimap::emplace\<close>: the new node goes behind every node with an equal key.
\<close>

record 'cb qnode =
  nid :: nat
  nkey :: u64
  nval :: "'cb timer"

fun mm_insert :: "'cb qnode \<Rightarrow> 'cb qnode list \<Rightarrow> 'cb qnode list" where
  "mm_insert n [] = [n]"
| "mm_insert n (m # ms) = (if nkey n < nkey m then n # m # ms else m # mm_insert n ms)"

definition mm_erase :: "nat \<Rightarrow> 'cb qnode list \<Rightarrow> 'cb qnode list" where
  "mm_erase i q = filter (\<lambda>n. nid n \<noteq> i) q"

definition index_emplace :: "u64 \<Rightarrow> nat \<Rightarrow> (u64 \<rightharpoonup> nat) \<Rightarrow> (u64 \<rightharpoonup> nat)" where
  "index_emplace k i idx = (if idx k = None then idx(k \<mapsto> i) else idx)"

record 'cb timer_manager =
  m_queue :: "'cb qnode list"
  m_timer_index :: "u64 \<rightharpoonup> nat"
  next_node :: nat

definition tm_empty :: "'cb timer_manager" where
  "tm_empty = \<lparr>m_queue = [], m_timer_index = Map.empty, next_node = 0\<rparr>"

definition tm_add ::
    "'cb timer option \<Rightarrow> 'cb timer_manager \<Rightarrow> 'cb timer option \<times> 'cb timer_manager" where
  "tm_add new_timer m =
     (case new_timer of
        None \<Rightarrow> (None, m)
      | Some t \<Rightarrow>
          if m_repeated_times t \<le> 0 \<and> m_repeated_times t \<noteq> REPEAT_INFINITE then (None, m)
          else if m_interval t = 0 \<and> m_repeated_times t \<noteq> 1 then (None, m)
          else
            (let m1 = (case m_timer_index m (m_id t) of
                         None \<Rightarrow> m
                       | Some it \<Rightarrow> m\<lparr>m_queue := mm_erase it (m_queue m),
                                       m_timer_index := (m_timer_index m)(m_id t := None)\<rparr>);
                 n = \<lparr>nid = next_node m1, nkey = m_expired_time t, nval = t\<rparr>
             in (Some t,
                 m1\<lparr>m_queue := mm_insert n (m_queue m1),
                    m_timer_index := index_emplace (m_id t) (nid n) (m_timer_index m1),
                    next_node := Suc (next_node m1)\<rparr>)))"

definition mark_delete :: "u64 \<Rightarrow> 'cb timer_manager \<Rightarrow> 'cb timer_manager" where
  "mark_delete timer_id m =
     (case m_timer_index m timer_id of
        None \<Rightarrow> m
      | Some it \<Rightarrow> m\<lparr>m_queue := mm_erase it (m_queue m),
                      m_timer_index := (m_timer_index m)(timer_id := None)\<rparr>)"

definition tm_size :: "'cb timer_manager \<Rightarrow> nat" where
  "tm_size m = length (m_queue m)"

definition tm_is_empty :: "'cb timer_manager \<Rightarrow> bool" where
  "tm_is_empty m \<longleftrightarrow> m_queue m = []"

definition tm_exist :: "u64 \<Rightarrow> 'cb timer_manager \<Rightarrow> bool" where
  "tm_exist timer_id m \<longleftrightarrow> m_timer_index m timer_id \<noteq> None"

text \<open>
  One pass of \<^verbatim>\<open>check_and_handle\<close>. The loop's iterator splits the queue into the part behind
  it and the part from it on; erasing the current node leaves the iterator on the next one, and
  a re-armed timer is inserted on either side of it, by its key. The end iterator stays the end:
  with no node left, a re-armed timer lands behind the iterator.
\<close>

record ('cb, 's) pass =
  p_behind :: "'cb qnode list"
  p_ahead :: "'cb qnode list"
  p_index :: "u64 \<rightharpoonup> nat"
  p_next :: nat
  p_env :: 's

definition insert_around ::
    "'cb qnode \<Rightarrow> 'cb qnode list \<Rightarrow> 'cb qnode list \<Rightarrow> 'cb qnode list \<times> 'cb qnode list" where
  "insert_around n behind ahead =
     (case ahead of
        [] \<Rightarrow> (mm_insert n behind, [])
      | m # _ \<Rightarrow> if nkey n < nkey m then (mm_insert n behind, ahead)
                 else (behind, mm_insert n ahead))"

definition fire ::
    "('cb \<Rightarrow> 'cb timer \<Rightarrow> 's \<Rightarrow> 's) \<Rightarrow> 'cb qnode \<Rightarrow> 'cb qnode list \<Rightarrow> ('cb, 's) pass \<Rightarrow> ('cb, 's) pass" where
  "fire exec n rest p =
     (let ptr = nval n;
          idx = (p_index p)(m_id ptr := None);
          (ptr', env') = timer_run exec ptr (p_env p)
      in if m_repeated_times ptr' \<noteq> 0
         then (let nn = \<lparr>nid = p_next p, nkey = m_expired_time ptr', nval = ptr'\<rparr>;
                   (behind, ahead) = insert_around nn (p_behind p) rest
               in \<lparr>p_behind = behind, p_ahead = ahead,
                   p_index = index_emplace (m_id ptr) (nid nn) idx,
                   p_next = Suc (p_next p), p_env = env'\<rparr>)
         else \<lparr>p_behind = p_behind p, p_ahead = rest, p_index = idx,
               p_next = p_next p, p_env = env'\<rparr>)"

partial_function (option) check_loop ::
    "('cb \<Rightarrow> 'cb timer \<Rightarrow> 's \<Rightarrow> 's) \<Rightarrow> u64 \<Rightarrow> ('cb, 's) pass \<Rightarrow> ('cb, 's) pass option" where
  "check_loop exec now p =
     (case p_ahead p of
        [] \<Rightarrow> Some p
      | n # rest \<Rightarrow>
          if \<not> is_expired (nval n) now then Some p
          else check_loop exec now (fire exec n rest p))"

definition check_and_handle ::
    "('cb \<Rightarrow> 'cb timer \<Rightarrow> 's \<Rightarrow> 's) \<Rightarrow> u64 \<Rightarrow> 'cb timer_manager \<Rightarrow> 's
     \<Rightarrow> ('cb timer_manager \<times> 's) option" where
  "check_and_handle exec now m s =
     (case check_loop exec now \<lparr>p_behind = [], p_ahead = m_queue m, p_index = m_timer_index m,
                                p_next = next_node m, p_env = s\<rparr> of
        None \<Rightarrow> None
      | Some p \<Rightarrow> Some (\<lparr>m_queue = p_behind p @ p_ahead p, m_timer_index = p_index p,
                          next_node = p_next p\<rparr>, p_env p))"

section \<open>Saturation\<close>

lemma unat_UINT64_MAX: "unat UINT64_MAX = 2 ^ 64 - 1"
  by (simp add: UINT64_MAX_def unsigned_minus_1_eq_mask mask_eq_exp_minus_1)

lemma unat_saturating_expiry:
  "unat (saturating_expiry a b) = min (unat a + unat b) (2 ^ 64 - 1)"
proof -
  have a: "unat a \<le> 2 ^ 64 - 1" and b: "unat b \<le> 2 ^ 64 - 1"
    using unsigned_less [where ?'a = nat and w = a] unsigned_less [where ?'a = nat and w = b] by simp_all
  have "a \<le> UINT64_MAX" by (simp add: UINT64_MAX_def)
  then have d: "unat (UINT64_MAX - a) = 2 ^ 64 - 1 - unat a"
    by (simp add: unat_sub unat_UINT64_MAX)
  show ?thesis
  proof (cases "b > UINT64_MAX - a")
    case True
    then have "2 ^ 64 - 1 - unat a < unat b" by (simp only: word_less_nat_alt d)
    then show ?thesis using True a by (simp add: saturating_expiry_def unat_UINT64_MAX)
  next
    case False
    then have le: "unat b \<le> 2 ^ 64 - 1 - unat a" by (simp only: word_le_nat_alt d not_less)
    then have "unat (a + b) = unat a + unat b" using a by (simp add: unat_word_ariths)
    then show ?thesis using False le a by (simp add: saturating_expiry_def)
  qed
qed

lemma saturating_expiry_ge: "a \<le> saturating_expiry a b"
  using unsigned_less [where ?'a = nat and w = a]
  by (simp add: word_le_nat_alt unat_saturating_expiry)

lemma saturating_expiry_gr:
  assumes "a < UINT64_MAX" "b \<noteq> 0"
  shows "a < saturating_expiry a b"
proof -
  have "unat a < 2 ^ 64 - 1" using assms(1) by (simp add: word_less_nat_alt unat_UINT64_MAX)
  moreover have "0 < unat b" using assms(2) by (simp add: unat_gt_0)
  ultimately show ?thesis by (simp add: word_less_nat_alt unat_saturating_expiry)
qed

section \<open>The queue as an ordered multimap\<close>

lemma set_mm_insert [simp]: "set (mm_insert n q) = insert n (set q)"
  by (induction q) auto

lemma length_mm_insert [simp]: "length (mm_insert n q) = Suc (length q)"
  by (induction q) auto

lemma sorted_mm_insert [simp]:
  "sorted (map nkey (mm_insert n q)) \<longleftrightarrow> sorted (map nkey q)"
  by (induction q) (auto simp: not_less intro: order.trans)

lemma mm_insert_append_ge:
  "\<forall>m\<in>set xs. nkey m \<le> nkey n \<Longrightarrow> mm_insert n (xs @ ys) = xs @ mm_insert n ys"
  by (induction xs) auto

lemma mm_insert_append_less:
  "nkey n < nkey y \<Longrightarrow> mm_insert n (xs @ y # ys) = mm_insert n xs @ y # ys"
  by (induction xs) auto

text \<open>Around the iterator the insertion is the insertion into the whole multimap.\<close>

lemma insert_around_whole:
  assumes "sorted (map nkey (behind @ ahead))" "insert_around n behind ahead = (b, a)"
  shows "b @ a = mm_insert n (behind @ ahead)"
proof (cases ahead)
  case Nil
  then show ?thesis using assms(2) by (simp add: insert_around_def)
next
  case (Cons m ms)
  show ?thesis
  proof (cases "nkey n < nkey m")
    case True
    then show ?thesis using assms(2) Cons by (auto simp: insert_around_def mm_insert_append_less)
  next
    case False
    then have "\<forall>k\<in>set behind. nkey k \<le> nkey n"
      using assms(1) Cons by (force simp: sorted_append not_less)
    then show ?thesis using assms(2) Cons False
      by (auto simp: insert_around_def mm_insert_append_ge simp del: mm_insert.simps)
  qed
qed

section \<open>The invariant\<close>

definition armed :: "'cb timer \<Rightarrow> bool" where
  "armed t \<longleftrightarrow> (m_repeated_times t = REPEAT_INFINITE \<or> m_repeated_times t \<ge> 1)
              \<and> (m_interval t = 0 \<longrightarrow> m_repeated_times t = 1)"

definition queue_ok :: "'cb qnode list \<Rightarrow> (u64 \<rightharpoonup> nat) \<Rightarrow> nat \<Rightarrow> bool" where
  "queue_ok q idx nx \<longleftrightarrow>
     sorted (map nkey q) \<and> distinct (map nid q) \<and> distinct (map (m_id \<circ> nval) q) \<and>
     (\<forall>n\<in>set q. nid n < nx \<and> nkey n = m_expired_time (nval n) \<and> armed (nval n) \<and>
                 idx (m_id (nval n)) = Some (nid n)) \<and>
     dom idx = (m_id \<circ> nval) ` set q"

definition tm_inv :: "'cb timer_manager \<Rightarrow> bool" where
  "tm_inv m \<longleftrightarrow> queue_ok (m_queue m) (m_timer_index m) (next_node m)"

text \<open>The manager seen as a finite map from timer id to timer.\<close>

definition q_abs :: "'cb qnode list \<Rightarrow> u64 \<rightharpoonup> 'cb timer" where
  "q_abs q = map_of (map (\<lambda>n. (m_id (nval n), nval n)) q)"

definition tm_abs :: "'cb timer_manager \<Rightarrow> u64 \<rightharpoonup> 'cb timer" where
  "tm_abs m = q_abs (m_queue m)"

lemma distinct_mm_insert [simp]:
  "distinct (map f (mm_insert n q)) \<longleftrightarrow> f n \<notin> f ` set q \<and> distinct (map f q)"
  by (induction q) auto

lemma queue_ok_empty [simp]: "queue_ok [] Map.empty nx"
  by (simp add: queue_ok_def)

lemma queue_ok_insert:
  assumes "queue_ok q idx nx" "idx (m_id t) = None" "armed t"
  shows "queue_ok (mm_insert \<lparr>nid = nx, nkey = m_expired_time t, nval = t\<rparr> q)
                  (index_emplace (m_id t) nx idx) (Suc nx)"
proof -
  have "m_id t \<notin> (m_id \<circ> nval) ` set q"
    using assms(1,2) unfolding queue_ok_def by blast
  moreover have "nx \<notin> nid ` set q"
    using assms(1) unfolding queue_ok_def by blast
  ultimately show ?thesis using assms
    unfolding queue_ok_def index_emplace_def
    by (auto simp: image_iff)
qed

lemma queue_ok_erase:
  assumes "queue_ok q idx nx" "idx k = Some i"
  shows "queue_ok (mm_erase i q) (idx(k := None)) nx"
    and "\<exists>n\<in>set q. nid n = i \<and> m_id (nval n) = k"
proof -
  obtain n where n: "n \<in> set q" "m_id (nval n) = k"
    using assms unfolding queue_ok_def by (metis (no_types, lifting) comp_apply domI imageE)
  then have i: "nid n = i" using assms unfolding queue_ok_def by fastforce
  then show "\<exists>n\<in>set q. nid n = i \<and> m_id (nval n) = k" using n by blast
  have same: "\<And>m. m \<in> set q \<Longrightarrow> (nid m = i) = (m_id (nval m) = k)"
    using assms n i unfolding queue_ok_def by (metis (no_types, lifting) inj_on_contraD distinct_map option.inject)
  show "queue_ok (mm_erase i q) (idx(k := None)) nx"
    using assms(1) same unfolding queue_ok_def mm_erase_def
    by (auto simp: distinct_map_filter sorted_filter)
qed

lemma queue_ok_mono: "queue_ok q idx nx \<Longrightarrow> nx \<le> nx' \<Longrightarrow> queue_ok q idx nx'"
  unfolding queue_ok_def by (meson order.strict_trans2)

lemma queue_ok_distinct: "queue_ok q idx nx \<Longrightarrow> distinct (map (m_id \<circ> nval) q)"
  by (simp add: queue_ok_def)

lemma q_abs_Some:
  "distinct (map (m_id \<circ> nval) q) \<Longrightarrow>
   q_abs q k = Some t \<longleftrightarrow> (\<exists>n\<in>set q. m_id (nval n) = k \<and> nval n = t)"
  unfolding q_abs_def by (subst map_of_eq_Some_iff) (auto simp: comp_def)

lemma q_abs_None: "q_abs q k = None \<longleftrightarrow> k \<notin> (m_id \<circ> nval) ` set q"
  unfolding q_abs_def by (auto simp: map_of_eq_None_iff image_iff)

lemma dom_q_abs: "dom (q_abs q) = (m_id \<circ> nval) ` set q"
  by (auto simp: dom_def q_abs_None simp flip: not_None_eq simp del: comp_apply)

lemma q_abs_mm_insert:
  assumes "distinct (map (m_id \<circ> nval) (mm_insert n q))"
  shows "q_abs (mm_insert n q) = (q_abs q)(m_id (nval n) \<mapsto> nval n)"
proof (rule map_eqI)
  fix k t
  have d: "distinct (map (m_id \<circ> nval) q)" and new: "\<forall>m\<in>set q. m_id (nval m) \<noteq> m_id (nval n)"
    using assms by (auto simp: image_iff)
  show "q_abs (mm_insert n q) k = Some t \<longleftrightarrow> ((q_abs q)(m_id (nval n) \<mapsto> nval n)) k = Some t"
    using new unfolding q_abs_Some [OF assms] by (cases "k = m_id (nval n)") (auto simp: q_abs_Some [OF d])
qed

lemma q_abs_erase:
  assumes "queue_ok q idx nx" "idx k = Some i"
  shows "q_abs (mm_erase i q) = (q_abs q)(k := None)"
proof (rule map_eqI)
  fix j t
  have d: "distinct (map (m_id \<circ> nval) q)" using assms(1) by (rule queue_ok_distinct)
  have d': "distinct (map (m_id \<circ> nval) (mm_erase i q))"
    using queue_ok_erase(1) [OF assms] by (rule queue_ok_distinct)
  obtain n where n: "n \<in> set q" "nid n = i" "m_id (nval n) = k"
    using queue_ok_erase(2) [OF assms] by blast
  have same: "m \<in> set q \<Longrightarrow> (nid m = i) = (m_id (nval m) = k)" for m
    using assms n unfolding queue_ok_def
    by (metis (no_types, lifting) inj_on_contraD distinct_map option.inject)
  show "q_abs (mm_erase i q) j = Some t \<longleftrightarrow> ((q_abs q)(k := None)) j = Some t"
    using same unfolding q_abs_Some [OF d'] fun_upd_apply
    by (auto simp: q_abs_Some [OF d] mm_erase_def)
qed

section \<open>The manager implements a map of timers\<close>

lemma tm_add_refused:
  "\<not> armed t \<Longrightarrow> tm_add (Some t) m = (None, m)" "tm_add None m = (None, m)"
  by (auto simp: tm_add_def armed_def)

lemma mark_delete_abs:
  assumes "tm_inv m"
  shows "tm_inv (mark_delete k m)" "tm_abs (mark_delete k m) = (tm_abs m)(k := None)"
proof -
  have dm: "dom (m_timer_index m) = dom (tm_abs m)"
    using assms by (auto simp: tm_inv_def queue_ok_def tm_abs_def dom_q_abs)
  show "tm_inv (mark_delete k m)"
    using assms queue_ok_erase(1) by (fastforce simp: tm_inv_def mark_delete_def split: option.splits)
  show "tm_abs (mark_delete k m) = (tm_abs m)(k := None)"
  proof (cases "m_timer_index m k")
    case None
    then have "tm_abs m k = None" using dm by (metis domIff)
    then show ?thesis using None by (simp add: mark_delete_def fun_upd_idem)
  next
    case (Some i)
    then show ?thesis using assms q_abs_erase by (simp add: mark_delete_def tm_abs_def tm_inv_def)
  qed
qed

lemma tm_add_accepted:
  assumes "armed t" "tm_inv m"
  obtains m' where "tm_add (Some t) m = (Some t, m')" "tm_inv m'"
    "tm_abs m' = (tm_abs m)(m_id t \<mapsto> t)" "length (m_queue m') = card (dom (tm_abs m'))"
proof -
  define m1 where "m1 = mark_delete (m_id t) m"
  have inv1: "queue_ok (m_queue m1) (m_timer_index m1) (next_node m1)"
    using mark_delete_abs(1) [OF assms(2)] by (simp add: tm_inv_def m1_def)
  have none: "m_timer_index m1 (m_id t) = None"
    by (simp add: m1_def mark_delete_def split: option.splits)
  have abs1: "(tm_abs m1)(m_id t \<mapsto> t) = (tm_abs m)(m_id t \<mapsto> t)"
    using mark_delete_abs(2) [OF assms(2)] by (simp add: m1_def)
  define n where "n = \<lparr>nid = next_node m1, nkey = m_expired_time t, nval = t\<rparr>"
  define m' where "m' = m1\<lparr>m_queue := mm_insert n (m_queue m1),
                    m_timer_index := index_emplace (m_id t) (nid n) (m_timer_index m1),
                    next_node := Suc (next_node m1)\<rparr>"
  have ok: "tm_inv m'"
    using queue_ok_insert [OF inv1 none assms(1)] by (simp add: tm_inv_def m'_def n_def)
  then have d: "distinct (map (m_id \<circ> nval) (m_queue m'))"
    by (simp add: tm_inv_def queue_ok_def)
  have "tm_abs m' = (tm_abs m1)(m_id t \<mapsto> t)"
    using q_abs_mm_insert [of n "m_queue m1"] d by (simp add: tm_abs_def m'_def n_def)
  moreover have "length (m_queue m') = card (dom (tm_abs m'))"
    using d distinct_card [OF d] by (simp add: tm_abs_def dom_q_abs)
  moreover have "tm_add (Some t) m = (Some t, m')"
    using assms(1) by (auto simp: tm_add_def armed_def m'_def n_def m1_def mark_delete_def Let_def split: option.splits)
  ultimately show thesis using that ok abs1 by simp
qed

lemma tm_exist_abs: "tm_inv m \<Longrightarrow> tm_exist k m \<longleftrightarrow> k \<in> dom (tm_abs m)"
  by (auto simp: tm_inv_def queue_ok_def tm_abs_def dom_q_abs tm_exist_def)

lemma tm_size_abs: "tm_inv m \<Longrightarrow> tm_size m = card (dom (tm_abs m))"
  using distinct_card [of "map (m_id \<circ> nval) (m_queue m)"]
  by (simp add: tm_inv_def queue_ok_def tm_abs_def dom_q_abs tm_size_def)

lemma tm_is_empty_abs: "tm_inv m \<Longrightarrow> tm_is_empty m \<longleftrightarrow> tm_abs m = Map.empty"
  by (cases "m_queue m") (auto simp: tm_is_empty_def tm_abs_def q_abs_def)

section \<open>One pass over the queue\<close>

definition pass_ok :: "('cb, 's) pass \<Rightarrow> bool" where
  "pass_ok p \<longleftrightarrow> queue_ok (p_behind p @ p_ahead p) (p_index p) (p_next p)"

definition alive :: "'cb timer \<Rightarrow> 'cb timer option" where
  "alive t = (if m_repeated_times t = 0 then None else Some t)"

text \<open>
  The bound on the number of firings that remain: each due timer ahead of the iterator counts
  the ticks between its expiry and now.
\<close>

definition lateness :: "u64 \<Rightarrow> 'cb timer \<Rightarrow> nat" where
  "lateness now t = Suc (unat now) - unat (m_expired_time t)"

definition pending :: "u64 \<Rightarrow> 'cb qnode list \<Rightarrow> nat" where
  "pending now q = sum_list (map (\<lambda>n. lateness now (nval n)) q)"

lemma pending_mm_insert: "pending now (mm_insert n q) = lateness now (nval n) + pending now q"
  by (induction q) (auto simp: pending_def)

lemma pending_insert_around:
  "insert_around n b a = (b', a') \<Longrightarrow> pending now a' \<le> pending now a + lateness now (nval n)"
  by (auto simp: insert_around_def pending_mm_insert simp del: mm_insert.simps split: list.splits if_splits)

lemma rearm_simps [simp]:
  "m_id (rearm t) = m_id t" "m_interval (rearm t) = m_interval t" "m_callback (rearm t) = m_callback t"
  by (simp_all add: rearm_def Let_def)

lemma armed_rearm: "armed t \<Longrightarrow> m_repeated_times (rearm t) \<noteq> 0 \<Longrightarrow> armed (rearm t)"
  by (auto simp: armed_def rearm_def Let_def REPEAT_INFINITE_def split: if_splits)

lemma rearm_later:
  assumes "armed t" "m_repeated_times (rearm t) \<noteq> 0" "m_expired_time t < UINT64_MAX"
  shows "m_expired_time t < m_expired_time (rearm t)"
proof -
  have "m_interval t \<noteq> 0"
    using assms(1,2) by (auto simp: armed_def rearm_def Let_def REPEAT_INFINITE_def)
  then show ?thesis
    using assms(2,3) saturating_expiry_gr by (auto simp: rearm_def Let_def)
qed

lemma queue_ok_remove:
  assumes "queue_ok (xs @ n # ys) idx nx"
  shows "queue_ok (xs @ ys) (idx(m_id (nval n) := None)) nx"
    and "q_abs (xs @ ys) = (q_abs (xs @ n # ys))(m_id (nval n) := None)"
proof -
  have i: "idx (m_id (nval n)) = Some (nid n)"
    using assms by (auto simp: queue_ok_def)
  have "nid n \<notin> nid ` set xs" "nid n \<notin> nid ` set ys"
    using assms by (simp_all add: queue_ok_def)
  then have "mm_erase (nid n) (xs @ n # ys) = xs @ ys"
    by (simp add: mm_erase_def filter_notin_image)
  then show "queue_ok (xs @ ys) (idx(m_id (nval n) := None)) nx"
      "q_abs (xs @ ys) = (q_abs (xs @ n # ys))(m_id (nval n) := None)"
    using queue_ok_erase(1) [OF assms i] q_abs_erase [OF assms i] by simp_all
qed

lemma insert_around_ahead:
  "insert_around n b a = (b', a') \<Longrightarrow> set a \<subseteq> set a' \<and> set a' \<subseteq> insert n (set a)"
  by (auto simp: insert_around_def split: list.splits if_splits)

text \<open>
  Firing the node under the iterator keeps the invariant, replaces the timer by its re-armed
  self (or drops it), runs the callback, and loses no other node ahead of the iterator.
\<close>

lemma fire_facts:
  assumes "pass_ok p" "p_ahead p = n # rest"
  shows fire_ok: "pass_ok (fire exec n rest p)"
    and fire_abs: "q_abs (p_behind (fire exec n rest p) @ p_ahead (fire exec n rest p)) =
          (q_abs (p_behind p @ p_ahead p))(m_id (nval n) := alive (rearm (nval n)))"
    and fire_env: "p_env (fire exec n rest p) = run_callback exec (nval n) (p_env p)"
    and fire_rest: "set rest \<subseteq> set (p_ahead (fire exec n rest p))"
    and fire_pending: "pending now (p_ahead (fire exec n rest p)) \<le>
          pending now rest + (case alive (rearm (nval n)) of None \<Rightarrow> 0 | Some t \<Rightarrow> lateness now t)"
proof -
  define t where "t = nval n"
  define nn where "nn = \<lparr>nid = p_next p, nkey = m_expired_time (rearm t), nval = rearm t\<rparr>"
  obtain b a where ba: "insert_around nn (p_behind p) rest = (b, a)" by fastforce
  have q: "queue_ok (p_behind p @ n # rest) (p_index p) (p_next p)"
    using assms by (simp add: pass_ok_def)
  note rm = queue_ok_remove [OF q]
  have armed: "armed t" using q by (simp add: queue_ok_def t_def)
  have whole: "b @ a = mm_insert nn (p_behind p @ rest)"
    using insert_around_whole [OF _ ba] rm(1) by (simp add: queue_ok_def)
  note unf = fire_def timer_run_def Let_def
  have fz: "m_repeated_times (rearm t) = 0 \<Longrightarrow>
      fire exec n rest p = \<lparr>p_behind = p_behind p, p_ahead = rest, p_index = (p_index p)(m_id t := None),
                            p_next = p_next p, p_env = run_callback exec t (p_env p)\<rparr>"
    by (simp add: unf t_def)
  have fn: "m_repeated_times (rearm t) \<noteq> 0 \<Longrightarrow>
      fire exec n rest p = \<lparr>p_behind = b, p_ahead = a,
        p_index = index_emplace (m_id t) (p_next p) ((p_index p)(m_id t := None)),
        p_next = Suc (p_next p), p_env = run_callback exec t (p_env p)\<rparr>"
    using ba by (simp add: unf t_def nn_def)
  have ok: "queue_ok (b @ a) (index_emplace (m_id t) (p_next p) ((p_index p)(m_id t := None))) (Suc (p_next p))"
    if "m_repeated_times (rearm t) \<noteq> 0"
    using queue_ok_insert [OF rm(1), of "rearm t"] armed_rearm [OF armed that]
    by (simp add: whole nn_def t_def)
  show "pass_ok (fire exec n rest p)"
    using fz fn ok rm(1) by (cases "m_repeated_times (rearm t) = 0") (simp_all add: pass_ok_def t_def)
  show "q_abs (p_behind (fire exec n rest p) @ p_ahead (fire exec n rest p)) =
          (q_abs (p_behind p @ p_ahead p))(m_id (nval n) := alive (rearm (nval n)))"
  proof (cases "m_repeated_times (rearm t) = 0")
    case True
    then show ?thesis using fz rm(2) assms(2) by (simp add: alive_def t_def)
  next
    case False
    have "distinct (map (m_id \<circ> nval) (mm_insert nn (p_behind p @ rest)))"
      using queue_ok_distinct [OF ok [OF False]] by (simp add: whole)
    from q_abs_mm_insert [OF this] show ?thesis
      using False fn rm(2) assms(2) by (simp add: alive_def t_def whole nn_def)
  qed
  show "p_env (fire exec n rest p) = run_callback exec (nval n) (p_env p)"
    using fz fn by (cases "m_repeated_times (rearm t) = 0") (simp_all add: t_def)
  show "set rest \<subseteq> set (p_ahead (fire exec n rest p))"
    using fz fn insert_around_ahead [OF ba] by (cases "m_repeated_times (rearm t) = 0") simp_all
  have "pending now a \<le> pending now rest + lateness now (rearm t)"
    using pending_insert_around [OF ba] by (simp add: nn_def)
  then show "pending now (p_ahead (fire exec n rest p)) \<le>
          pending now rest + (case alive (rearm (nval n)) of None \<Rightarrow> 0 | Some t \<Rightarrow> lateness now t)"
    using fz fn by (cases "m_repeated_times (rearm t) = 0") (auto simp: t_def alive_def)
qed

lemma ahead_not_expired:
  assumes "pass_ok p" "p_ahead p = n # rest" "\<not> is_expired (nval n) now" "m \<in> set (p_ahead p)"
  shows "\<not> is_expired (nval m) now"
proof -
  have "nkey n \<le> nkey m" "nkey n = m_expired_time (nval n)" "nkey m = m_expired_time (nval m)"
    using assms(1,2,4) by (auto simp: pass_ok_def queue_ok_def sorted_append)
  then show ?thesis using assms(3) by (simp add: is_expired_def not_le)
qed

text \<open>
  Total correctness of the loop, for an invariant \<open>I\<close> that firing keeps: before the last
  instant of the clock a pass ends, with nothing due ahead of the iterator.
\<close>

lemma check_loop_total:
  assumes "now < UINT64_MAX" "I p" "pass_ok p"
    and step: "\<And>p n rest. I p \<Longrightarrow> pass_ok p \<Longrightarrow> p_ahead p = n # rest \<Longrightarrow> is_expired (nval n) now
                \<Longrightarrow> I (fire exec n rest p)"
  shows "\<exists>p'. check_loop exec now p = Some p' \<and> I p' \<and> pass_ok p' \<and>
              (\<forall>n\<in>set (p_ahead p'). \<not> is_expired (nval n) now)"
  using assms(2,3)
proof (induction "pending now (p_ahead p)" arbitrary: p rule: less_induct)
  case less
  show ?case
  proof (cases "p_ahead p")
    case Nil
    then show ?thesis using less.prems by (subst check_loop.simps) simp
  next
    case (Cons n rest)
    show ?thesis
    proof (cases "is_expired (nval n) now")
      case False
      then have "check_loop exec now p = Some p" using Cons by (subst check_loop.simps) simp
      then show ?thesis using less.prems ahead_not_expired Cons False by blast
    next
      case True
      have le: "m_expired_time (nval n) \<le> now" using True by (simp add: is_expired_def)
      then have lt: "m_expired_time (nval n) < UINT64_MAX" using assms(1) by order
      have armed: "armed (nval n)" using less.prems(2) Cons by (simp add: pass_ok_def queue_ok_def)
      have "(case alive (rearm (nval n)) of None \<Rightarrow> 0 | Some t \<Rightarrow> lateness now t) < lateness now (nval n)"
        using rearm_later [OF armed _ lt] le
        by (auto simp: alive_def lateness_def word_less_nat_alt word_le_nat_alt)
      then have "pending now (p_ahead (fire exec n rest p)) < pending now (p_ahead p)"
        using fire_pending [OF less.prems(2) Cons, of now exec] Cons by (simp add: pending_def)
      from less.hyps [OF this step [OF less.prems Cons True] fire_ok [OF less.prems(2) Cons]]
      show ?thesis using Cons True by (subst check_loop.simps) simp
    qed
  qed
qed

text \<open>
  What a pass has done to the timer with id \<open>k\<close>: it was fired \<open>j\<close> times in a row, each time
  re-armed, and is still ahead of the iterator if it was due and has not been fired yet.
\<close>

definition handled ::
    "(u64 \<rightharpoonup> 'cb timer) \<Rightarrow> u64 \<Rightarrow> ('cb, 's) pass \<Rightarrow> 'cb timer list \<Rightarrow> u64 \<Rightarrow> bool" where
  "handled before now p log k \<longleftrightarrow>
     (case before k of
        None \<Rightarrow> q_abs (p_behind p @ p_ahead p) k = None \<and> k \<notin> m_id ` set log
      | Some t \<Rightarrow> \<exists>j. filter (\<lambda>u. m_id u = k) log = map (\<lambda>i. (rearm ^^ i) t) [0..<j] \<and>
                      q_abs (p_behind p @ p_ahead p) k = alive ((rearm ^^ j) t) \<and>
                      (j = 0 \<and> is_expired t now \<longrightarrow> k \<in> (m_id \<circ> nval) ` set (p_ahead p)))"

definition pass_inv ::
    "('cb \<Rightarrow> 'cb timer \<Rightarrow> 's \<Rightarrow> 's) \<Rightarrow> (u64 \<rightharpoonup> 'cb timer) \<Rightarrow> 's \<Rightarrow> u64 \<Rightarrow> ('cb, 's) pass
     \<Rightarrow> 'cb timer list \<Rightarrow> bool" where
  "pass_inv exec before s now p log \<longleftrightarrow>
     p_env p = fold (run_callback exec) log s \<and>
     sorted (map m_expired_time log) \<and>
     (\<forall>t\<in>set log. is_expired t now \<and> (\<forall>n\<in>set (p_ahead p). m_expired_time t \<le> m_expired_time (nval n))) \<and>
     (\<forall>k. handled before now p log k)"

lemma handledI:
  assumes "before k = Some t" "filter (\<lambda>u. m_id u = k) log = map (\<lambda>i. (rearm ^^ i) t) [0..<j]"
    "q_abs (p_behind p @ p_ahead p) k = alive ((rearm ^^ j) t)"
    "j = 0 \<and> is_expired t now \<longrightarrow> k \<in> (m_id \<circ> nval) ` set (p_ahead p)"
  shows "handled before now p log k"
  using assms by (auto simp: handled_def simp del: comp_apply)

lemma handled_fire:
  assumes "pass_ok p" "p_ahead p = n # rest" "handled before now p log k"
  shows "handled before now (fire exec n rest p) (log @ [nval n]) k"
proof -
  note abs = fire_abs [OF assms(1,2), of exec]
  have d: "distinct (map (m_id \<circ> nval) (p_behind p @ p_ahead p))"
    using assms(1) by (simp add: pass_ok_def queue_ok_def)
  then have self: "q_abs (p_behind p @ p_ahead p) (m_id (nval n)) = Some (nval n)"
    using assms(2) by (subst q_abs_Some) auto
  show ?thesis
  proof (cases "before k")
    case None
    then have "k \<noteq> m_id (nval n)" using assms(3) self by (auto simp: handled_def)
    then show ?thesis using None assms(3) by (simp add: handled_def abs)
  next
    case (Some t)
    then obtain j where j: "filter (\<lambda>u. m_id u = k) log = map (\<lambda>i. (rearm ^^ i) t) [0..<j]"
        "q_abs (p_behind p @ p_ahead p) k = alive ((rearm ^^ j) t)"
        "j = 0 \<and> is_expired t now \<longrightarrow> k \<in> (m_id \<circ> nval) ` set (p_ahead p)"
      using assms(3) by (auto simp: handled_def)
    show ?thesis
    proof (cases "k = m_id (nval n)")
      case True
      then have "nval n = (rearm ^^ j) t" using self j(2) by (auto simp: alive_def split: if_splits)
      then have "filter (\<lambda>u. m_id u = k) (log @ [nval n]) = map (\<lambda>i. (rearm ^^ i) t) [0..<Suc j]"
        "alive (rearm (nval n)) = alive ((rearm ^^ Suc j) t)"
        using j(1) True by simp_all
      then show ?thesis
        by (intro handledI [of before k t _ "Suc j", OF Some]) (simp_all add: abs True del: upt_Suc)
    next
      case False
      have "j = 0 \<and> is_expired t now \<longrightarrow> k \<in> (m_id \<circ> nval) ` set (p_ahead (fire exec n rest p))"
        using j(3) False assms(2) image_mono [OF fire_rest [OF assms(1,2), of exec], of "m_id \<circ> nval"]
        by auto
      moreover have "filter (\<lambda>u. m_id u = k) (log @ [nval n]) = map (\<lambda>i. (rearm ^^ i) t) [0..<j]"
        using j(1) False by simp
      ultimately show ?thesis using j(2) False
        by (intro handledI [of before k t _ j, OF Some]) (simp_all add: abs)
    qed
  qed
qed

lemma fire_ahead_later:
  assumes "pass_ok p" "p_ahead p = n # rest" "m \<in> set (p_ahead (fire exec n rest p))"
  shows "m_expired_time (nval n) \<le> m_expired_time (nval m)"
proof (cases "m \<in> set rest")
  case True
  then have "nkey n \<le> nkey m" "nkey n = m_expired_time (nval n)" "nkey m = m_expired_time (nval m)"
    using assms(1,2) by (auto simp: pass_ok_def queue_ok_def sorted_append)
  then show ?thesis by simp
next
  case False
  then have "nval m = rearm (nval n)"
    using assms(3) insert_around_ahead
    by (fastforce simp: fire_def timer_run_def Let_def split: if_splits prod.splits)
  then show ?thesis by (auto simp: rearm_def Let_def saturating_expiry_ge)
qed

lemma pass_inv_fire:
  assumes "pass_inv exec before s now p log" "pass_ok p" "p_ahead p = n # rest" "is_expired (nval n) now"
  shows "pass_inv exec before s now (fire exec n rest p) (log @ [nval n])"
proof -
  have last: "\<forall>t\<in>set log. m_expired_time t \<le> m_expired_time (nval n)"
    using assms(1,3) by (simp add: pass_inv_def)
  show ?thesis
    using assms last fire_env [OF assms(2,3), of exec] handled_fire [OF assms(2,3)]
      fire_ahead_later [OF assms(2,3), of _ exec]
    unfolding pass_inv_def by (auto simp: sorted_append intro: order.trans)
qed

section \<open>The interface: a store of timers\<close>

datatype 'cb timer_op = Op_add "'cb timer option" | Op_del u64

definition op_step ::
    "('cb timer option \<Rightarrow> 'm \<Rightarrow> 'cb timer option \<times> 'm) \<Rightarrow> (u64 \<Rightarrow> 'm \<Rightarrow> 'm) \<Rightarrow> 'cb timer_op \<Rightarrow> 'm \<Rightarrow> 'm" where
  "op_step add del opn m = (case opn of Op_add t \<Rightarrow> snd (add t m) | Op_del k \<Rightarrow> del k m)"

definition spec_step ::
    "('cb timer \<Rightarrow> bool) \<Rightarrow> 'cb timer_op \<Rightarrow> (u64 \<rightharpoonup> 'cb timer) \<Rightarrow> (u64 \<rightharpoonup> 'cb timer)" where
  "spec_step ok opn f =
     (case opn of
        Op_add None \<Rightarrow> f
      | Op_add (Some t) \<Rightarrow> if ok t then f(m_id t \<mapsto> t) else f
      | Op_del k \<Rightarrow> f(k := None))"

locale timer_store =
  fixes inv :: "'m \<Rightarrow> bool"
    and abs :: "'m \<Rightarrow> u64 \<rightharpoonup> 'cb timer"
    and add :: "'cb timer option \<Rightarrow> 'm \<Rightarrow> 'cb timer option \<times> 'm"
    and del :: "u64 \<Rightarrow> 'm \<Rightarrow> 'm"
    and ok :: "'cb timer \<Rightarrow> bool"
  assumes add_accepts: "inv m \<Longrightarrow> ok t \<Longrightarrow> inv (snd (add (Some t) m)) \<and>
                          abs (snd (add (Some t) m)) = (abs m)(m_id t \<mapsto> t)"
    and add_refuses: "\<not> ok t \<Longrightarrow> snd (add (Some t) m) = m"
    and add_null: "snd (add None m) = m"
    and del_removes: "inv m \<Longrightarrow> inv (del k m) \<and> abs (del k m) = (abs m)(k := None)"
begin

lemma step_refines:
  "inv m \<Longrightarrow> inv (op_step add del opn m) \<and> abs (op_step add del opn m) = spec_step ok opn (abs m)"
  using add_accepts add_refuses add_null del_removes
  by (auto simp: op_step_def spec_step_def split: timer_op.splits option.splits)

lemma history_refines:
  "inv m \<Longrightarrow> inv (fold (op_step add del) ops m) \<and>
             abs (fold (op_step add del) ops m) = fold (spec_step ok) ops (abs m)"
  by (induction ops arbitrary: m) (use step_refines in auto)

end

interpretation tms: timer_store tm_inv tm_abs tm_add mark_delete armed
proof
  fix m :: "'cb timer_manager" and t :: "'cb timer"
  assume "tm_inv m" "armed t"
  then show "tm_inv (snd (tm_add (Some t) m)) \<and> tm_abs (snd (tm_add (Some t) m)) = (tm_abs m)(m_id t \<mapsto> t)"
    using tm_add_accepted by (metis snd_conv)
qed (simp_all add: tm_add_refused mark_delete_abs)

lemma tm_inv_empty [simp]: "tm_inv tm_empty" "tm_abs tm_empty = Map.empty"
  by (simp_all add: tm_inv_def tm_empty_def tm_abs_def q_abs_def)

text \<open>
  C3. Any history of additions and deletions leaves the timer manager's queue and index
  consistent, and the manager then holds exactly the map of timers that the history
  describes: an addition of an acceptable timer replaces the one with its id, a refused
  or null addition changes nothing, a deletion removes the id. Its size, emptiness and
  membership answers are those of the map.
\<close>

theorem timer_manager_refines_map:
  "let m = fold (op_step tm_add mark_delete) ops tm_empty; spec = fold (spec_step armed) ops Map.empty
   in tm_inv m \<and> tm_abs m = spec \<and> tm_size m = card (dom spec) \<and>
      tm_is_empty m = (spec = Map.empty) \<and> (\<forall>k. tm_exist k m = (spec k \<noteq> None))"
proof -
  define m where "m = fold (op_step tm_add mark_delete) ops tm_empty"
  have "tm_inv m" and "tm_abs m = fold (spec_step armed) ops Map.empty"
    using tms.history_refines [OF tm_inv_empty(1), of ops] by (simp_all add: m_def)
  then show ?thesis
    using tm_size_abs [of m] tm_is_empty_abs [of m] tm_exist_abs [of m]
    by (auto simp: domIff Let_def simp flip: m_def)
qed

section \<open>What a pass does\<close>

text \<open>
  The timer with id \<open>k\<close> over a pass whose callbacks ran on the timers of \<open>log\<close>, in order:
  absent before, it stays absent; present, it was fired \<open>j\<close> times, at least once exactly if it
  was due, each time as re-armed by the time before, and is kept unless its repetitions ran out.
\<close>

definition fires_as ::
    "(u64 \<rightharpoonup> 'cb timer) \<Rightarrow> (u64 \<rightharpoonup> 'cb timer) \<Rightarrow> 'cb timer list \<Rightarrow> u64 \<Rightarrow> u64 \<Rightarrow> bool" where
  "fires_as before after log now k \<longleftrightarrow>
     (case before k of
        None \<Rightarrow> after k = None \<and> k \<notin> m_id ` set log
      | Some t \<Rightarrow> \<exists>j. (0 < j \<longleftrightarrow> m_expired_time t \<le> now) \<and>
                      filter (\<lambda>u. m_id u = k) log = map (\<lambda>i. (rearm ^^ i) t) [0..<j] \<and>
                      after k = alive ((rearm ^^ j) t))"

lemma handled_fires:
  assumes "handled before now p log k" "\<forall>n\<in>set (p_ahead p). \<not> is_expired (nval n) now"
    "\<forall>t\<in>set log. is_expired t now" "pass_ok p" "\<forall>t. before k = Some t \<longrightarrow> m_repeated_times t \<noteq> 0"
  shows "fires_as before (q_abs (p_behind p @ p_ahead p)) log now k"
proof (cases "before k")
  case None
  then show ?thesis using assms(1) by (simp add: handled_def fires_as_def)
next
  case (Some t)
  then obtain j where j: "filter (\<lambda>u. m_id u = k) log = map (\<lambda>i. (rearm ^^ i) t) [0..<j]"
      "q_abs (p_behind p @ p_ahead p) k = alive ((rearm ^^ j) t)"
      "j = 0 \<and> is_expired t now \<longrightarrow> k \<in> (m_id \<circ> nval) ` set (p_ahead p)"
    using assms(1) by (auto simp: handled_def)
  have "is_expired t now" if "0 < j"
  proof -
    have "t \<in> set (filter (\<lambda>u. m_id u = k) log)"
      unfolding j(1) using that by (auto intro!: image_eqI [of _ _ 0])
    then show ?thesis using assms(3) by simp
  qed
  moreover have "0 < j" if "is_expired t now"
  proof (rule ccontr)
    assume "\<not> 0 < j"
    then have z: "j = 0" by simp
    then obtain n where n: "n \<in> set (p_ahead p)" "k = m_id (nval n)" using j(3) \<open>is_expired t now\<close> by auto
    have "q_abs (p_behind p @ p_ahead p) k = Some (nval n)"
      using assms(4) n by (subst q_abs_Some) (auto simp: pass_ok_def queue_ok_def)
    then have "nval n = t" using j(2) z by (simp add: alive_def split: if_splits)
    then show False using assms(2) n(1) \<open>is_expired t now\<close> by blast
  qed
  ultimately show ?thesis using Some j(1,2) unfolding fires_as_def is_expired_def [symmetric] by auto
qed

lemma check_and_handle_passes:
  assumes "tm_inv m" "now < UINT64_MAX"
  shows "\<exists>m' log. check_and_handle exec now m s = Some (m', fold (run_callback exec) log s) \<and>
           tm_inv m' \<and> sorted (map m_expired_time log) \<and> (\<forall>t\<in>set log. m_expired_time t \<le> now) \<and>
           (\<forall>k. fires_as (tm_abs m) (tm_abs m') log now k)"
proof -
  define p where "p = \<lparr>p_behind = [], p_ahead = m_queue m, p_index = m_timer_index m,
                       p_next = next_node m, p_env = s\<rparr>"
  have ok: "pass_ok p" using assms(1) by (simp add: p_def pass_ok_def tm_inv_def)
  have live: "m_repeated_times t \<noteq> 0" if "tm_abs m k = Some t" for k t
    using that assms(1) q_abs_Some [of "m_queue m"]
    by (auto simp: tm_inv_def queue_ok_def tm_abs_def armed_def REPEAT_INFINITE_def)
  have start: "handled (tm_abs m) now p [] k" for k
  proof (cases "tm_abs m k")
    case None
    then show ?thesis by (simp add: handled_def p_def tm_abs_def)
  next
    case (Some t)
    then have "k \<in> (m_id \<circ> nval) ` set (m_queue m)"
      using dom_q_abs [of "m_queue m"] by (metis domI tm_abs_def)
    then show ?thesis using live [OF Some] Some
      by (intro handledI [of "tm_abs m" k t _ 0, OF Some]) (simp_all add: p_def tm_abs_def alive_def)
  qed
  then have "pass_inv exec (tm_abs m) s now p []" by (simp add: pass_inv_def p_def)
  then have "\<exists>p'. check_loop exec now p = Some p' \<and> (\<exists>log. pass_inv exec (tm_abs m) s now p' log) \<and>
      pass_ok p' \<and> (\<forall>n\<in>set (p_ahead p'). \<not> is_expired (nval n) now)"
    using ok by (intro check_loop_total [OF assms(2)]) (blast intro: pass_inv_fire)+
  then obtain p' log where p': "check_loop exec now p = Some p'"
      "pass_inv exec (tm_abs m) s now p' log" "pass_ok p'"
      "\<forall>n\<in>set (p_ahead p'). \<not> is_expired (nval n) now" by blast
  define m' where "m' = \<lparr>m_queue = p_behind p' @ p_ahead p', m_timer_index = p_index p', next_node = p_next p'\<rparr>"
  have "fires_as (tm_abs m) (tm_abs m') log now k" for k
    using handled_fires [OF _ p'(4) _ p'(3), of "tm_abs m" log k] p'(2) live
    by (auto simp: pass_inv_def m'_def tm_abs_def)
  moreover have "check_and_handle exec now m s = Some (m', fold (run_callback exec) log s)"
    using p'(1,2) by (simp add: check_and_handle_def m'_def pass_inv_def flip: p_def)
  moreover have "tm_inv m'" using p'(3) by (simp add: tm_inv_def pass_ok_def m'_def)
  ultimately show ?thesis using p'(2) by (auto simp: pass_inv_def is_expired_def intro!: exI [of _ m'] exI [of _ log])
qed

text \<open>
  C2. Before the last instant of the 64-bit clock a pass of the timer manager always ends.
  It keeps the manager consistent; the callbacks it runs are those of a sequence of due
  timers in order of expiry, none early; every timer due at the start is fired at least once,
  every other timer not at all; and each timer is afterwards in the queue in its
  re-armed state, or gone if its repetitions ran out.
\<close>

theorem check_and_handle_fires:
  assumes "tm_inv m" "now < UINT64_MAX"
  shows "\<exists>m' log. check_and_handle exec now m s = Some (m', fold (run_callback exec) log s) \<and>
           tm_inv m' \<and> sorted (map m_expired_time log) \<and> (\<forall>t\<in>set log. m_expired_time t \<le> now) \<and>
           (\<forall>k. fires_as (tm_abs m) (tm_abs m') log now k)"
  by (rule check_and_handle_passes [OF assms])

definition demo_manager :: "nat timer_manager" where
  "demo_manager = snd (tm_add (Some (timer_new 7 100 3 5 (Some 1)))
                        (snd (tm_add (Some (timer_new 9 100 1 2 (Some 2))) tm_empty)))"

lemma demo_manager_inv: "tm_inv demo_manager"
  unfolding demo_manager_def
  by (intro tms.add_accepts [THEN conjunct1] tm_inv_empty) (simp_all add: timer_new_def armed_def)

theorem check_and_handle_fires_witness:
  "tm_inv demo_manager \<and> (106 :: u64) < UINT64_MAX \<and>
   (\<exists>m' log. check_and_handle (\<lambda>cb t l. l @ [cb]) 106 demo_manager [] =
                Some (m', fold (run_callback (\<lambda>cb t l. l @ [cb])) log []) \<and>
           tm_inv m' \<and> sorted (map m_expired_time log) \<and> (\<forall>t\<in>set log. m_expired_time t \<le> 106) \<and>
           (\<forall>k. fires_as (tm_abs demo_manager) (tm_abs m') log 106 k))"
proof -
  have "(106 :: u64) < UINT64_MAX" by (simp add: UINT64_MAX_def)
  then show ?thesis
    using check_and_handle_fires [OF demo_manager_inv, of 106 "\<lambda>cb t l. l @ [cb]" "[]"] demo_manager_inv by simp
qed

section \<open>The last instant of the clock\<close>

text \<open>
  At the largest clock value a saturated periodic timer is re-armed at the same instant: with
  two of them the iterator never reaches the end.
\<close>

definition saturated :: "'cb qnode \<Rightarrow> bool" where
  "saturated n \<longleftrightarrow> nkey n = UINT64_MAX \<and> m_expired_time (nval n) = UINT64_MAX \<and>
                  m_repeated_times (nval n) = REPEAT_INFINITE"

lemma saturated_rearm:
  "saturated n \<Longrightarrow> rearm (nval n) = nval n"
  by (cases "nval n")
    (simp add: saturated_def rearm_def REPEAT_INFINITE_def saturating_expiry_def UINT64_MAX_def Let_def word_gt_0)

text \<open>The number of saturated timers that the iterator has still to visit.\<close>

definition saturated_ahead :: "('cb, 's) pass \<Rightarrow> nat" where
  "saturated_ahead p = length (filter saturated (p_ahead p))"

lemma filter_mm_insert: "length (filter P (mm_insert n q)) = length (filter P q) + (if P n then 1 else 0)"
  by (induction q) auto

lemma filter_insert_around:
  "insert_around n b a = (b', a') \<Longrightarrow> length (filter P a) \<le> length (filter P a')"
  by (auto simp: insert_around_def filter_mm_insert simp del: mm_insert.simps split: list.splits if_splits)

text \<open>
  Firing one of two such timers puts it back at the end of the queue, which the iterator has not
  reached; firing any other timer takes none of them away.
\<close>

lemma fire_saturated:
  assumes "p_ahead p = n # rest" "2 \<le> saturated_ahead p"
  shows "2 \<le> saturated_ahead (fire exec n rest p)"
proof (cases "saturated n")
  case True
  let ?c = "\<lparr>nid = p_next p, nkey = UINT64_MAX, nval = nval n\<rparr>"
  have c: "saturated ?c" "m_expired_time (nval n) = UINT64_MAX" "m_repeated_times (nval n) \<noteq> 0"
    using True by (simp_all add: saturated_def REPEAT_INFINITE_def)
  have one: "1 \<le> length (filter saturated rest)" using assms True by (simp add: saturated_ahead_def)
  then obtain m ms where m: "rest = m # ms" by (cases rest) auto
  have "\<not> UINT64_MAX < nkey m" by (simp add: UINT64_MAX_def)
  then have "p_ahead (fire exec n rest p) = mm_insert ?c rest"
    using c(2,3) m by (simp add: fire_def timer_run_def Let_def saturated_rearm [OF True] insert_around_def del: mm_insert.simps)
  then show ?thesis using one c(1) by (simp add: saturated_ahead_def filter_mm_insert del: mm_insert.simps)
next
  case False
  then have two: "2 \<le> length (filter saturated rest)" using assms by (simp add: saturated_ahead_def)
  obtain b a where ba: "insert_around \<lparr>nid = p_next p, nkey = m_expired_time (rearm (nval n)), nval = rearm (nval n)\<rparr> (p_behind p) rest = (b, a)"
    by fastforce
  have "p_ahead (fire exec n rest p) = (if m_repeated_times (rearm (nval n)) \<noteq> 0 then a else rest)"
    using ba by (simp add: fire_def timer_run_def Let_def)
  then show ?thesis using two filter_insert_around [OF ba, of saturated] by (simp add: saturated_ahead_def)
qed

lemma check_loop_saturated:
  assumes "check_loop exec now p = Some r"
  shows "now = UINT64_MAX \<longrightarrow> \<not> 2 \<le> saturated_ahead p"
  using assms
proof (rule check_loop.raw_induct [rotated])
  fix loop :: "('a \<Rightarrow> 'a timer \<Rightarrow> 'b \<Rightarrow> 'b) \<Rightarrow> u64 \<Rightarrow> ('a, 'b) pass \<Rightarrow> ('a, 'b) pass option"
    and exec now p r
  assume IH: "\<And>exec now p r. loop exec now p = Some r \<Longrightarrow> now = UINT64_MAX \<longrightarrow> \<not> 2 \<le> saturated_ahead p"
    and body: "(case p_ahead p of [] \<Rightarrow> Some p
       | n # rest \<Rightarrow> if \<not> is_expired (nval n) now then Some p else loop exec now (fire exec n rest p)) = Some r"
  show "now = UINT64_MAX \<longrightarrow> \<not> 2 \<le> saturated_ahead p"
  proof (intro impI notI)
    assume now: "now = UINT64_MAX" and two: "2 \<le> saturated_ahead p"
    then obtain n rest where n: "p_ahead p = n # rest" by (cases "p_ahead p") (auto simp: saturated_ahead_def)
    have "is_expired (nval n) now" using now by (simp add: is_expired_def UINT64_MAX_def)
    then have "loop exec now (fire exec n rest p) = Some r" using body n by simp
    from IH [OF this] now show False using fire_saturated [OF n two] by simp
  qed
qed

text \<open>
  C7. At the largest value of the 64-bit clock a pass never ends if the manager holds two unlimited
  timers whose expiry has saturated at this value, whatever other timers it holds: each of the two is
  re-armed at the instant at which it fires, behind the other.
\<close>

theorem check_and_handle_diverges:
  assumes "tm_inv m" "k \<noteq> l" "tm_abs m k = Some t" "tm_abs m l = Some u"
    "m_expired_time t = UINT64_MAX" "m_repeated_times t = REPEAT_INFINITE"
    "m_expired_time u = UINT64_MAX" "m_repeated_times u = REPEAT_INFINITE"
  shows "check_and_handle exec UINT64_MAX m s = None"
proof -
  have q: "queue_ok (m_queue m) (m_timer_index m) (next_node m)" using assms(1) by (simp add: tm_inv_def)
  have node: "\<exists>n \<in> set (m_queue m). saturated n \<and> m_id (nval n) = j"
    if "tm_abs m j = Some v" "m_expired_time v = UINT64_MAX" "m_repeated_times v = REPEAT_INFINITE" for j v
    using that q_abs_Some [OF queue_ok_distinct [OF q]] q by (auto simp: tm_abs_def saturated_def queue_ok_def)
  obtain a where a: "a \<in> set (m_queue m)" "saturated a" "m_id (nval a) = k" using node [OF assms(3,5,6)] by blast
  obtain b where b: "b \<in> set (m_queue m)" "saturated b" "m_id (nval b) = l" using node [OF assms(4,7,8)] by blast
  have "{a, b} \<subseteq> set (filter saturated (m_queue m))" "a \<noteq> b" using a b assms(2) by auto
  then have "2 \<le> length (filter saturated (m_queue m))"
    using card_mono [of "set (filter saturated (m_queue m))" "{a, b}"] card_length [of "filter saturated (m_queue m)"] by simp
  then have "check_loop exec UINT64_MAX \<lparr>p_behind = [], p_ahead = m_queue m, p_index = m_timer_index m,
                                p_next = next_node m, p_env = s\<rparr> = None"
    using check_loop_saturated by (metis not_None_eq pass.select_convs(2) saturated_ahead_def)
  then show ?thesis by (simp add: check_and_handle_def)
qed

theorem check_and_handle_diverges_witness:
  "check_and_handle (\<lambda>cb t (l :: nat list). l @ [cb]) UINT64_MAX
     (snd (tm_add (Some (timer_new 3 100 2 7 (Some 30)))
       (snd (tm_add (Some (timer_new 1 (UINT64_MAX - 3) REPEAT_INFINITE 5 (Some 10)))
         (snd (tm_add (Some (timer_new 2 UINT64_MAX REPEAT_INFINITE 1 None)) tm_empty)))))) [] = None"
proof -
  let ?a = "timer_new 1 (UINT64_MAX - 3) REPEAT_INFINITE 5 (Some 10) :: nat timer"
  let ?b = "timer_new 2 UINT64_MAX REPEAT_INFINITE 1 None :: nat timer" and ?c = "timer_new 3 100 2 7 (Some 30) :: nat timer"
  have ab: "armed ?a" "armed ?b" "armed ?c" "m_expired_time ?a = UINT64_MAX" "m_expired_time ?b = UINT64_MAX"
    by (simp_all add: armed_def timer_new_def REPEAT_INFINITE_def saturating_expiry_def UINT64_MAX_def)
  obtain m1 where m1: "tm_add (Some ?b) tm_empty = (Some ?b, m1)" "tm_inv m1" "tm_abs m1 = [2 \<mapsto> ?b]"
    by (rule tm_add_accepted [OF ab(2) tm_inv_empty(1)]) (simp add: timer_new_def)
  obtain m2 where m2: "tm_add (Some ?a) m1 = (Some ?a, m2)" "tm_inv m2" "tm_abs m2 = [2 \<mapsto> ?b, 1 \<mapsto> ?a]"
    by (rule tm_add_accepted [OF ab(1) m1(2)]) (simp add: timer_new_def m1(3))
  obtain m3 where m3: "tm_add (Some ?c) m2 = (Some ?c, m3)" "tm_inv m3" "tm_abs m3 = [2 \<mapsto> ?b, 1 \<mapsto> ?a, 3 \<mapsto> ?c]"
    by (rule tm_add_accepted [OF ab(3) m2(2)]) (simp add: timer_new_def m2(3))
  have "tm_abs m3 1 = Some ?a" "tm_abs m3 2 = Some ?b" "(1 :: u64) \<noteq> 2" by (simp_all add: m3(3))
  then show ?thesis
    using check_and_handle_diverges [OF m3(2), of 1 2 ?a ?b "\<lambda>cb t l. l @ [cb]" "[]"] ab(4,5) m1(1) m2(1) m3(1)
    by (simp add: timer_new_def [of 1] timer_new_def [of 2])
qed

end
