(* ===== verification/Tunnel_Id.thy ===== *)
theory Tunnel_Id
  imports Prelude
begin

text \<open>
  Addresses inside the process: the tunnel ids of the threads (src/global/tunnel\_id) and the
  64-bit global connection ids (\<^verbatim>\<open>server_gen_gid\<close> and the choice of a worker in
  src/server/server.cpp, \<^verbatim>\<open>other_gen_gid\<close> in src/workers/other.cpp).
\<close>

section \<open>Tunnel ids\<close>

text \<open>The enumeration \<^verbatim>\<open>ProtoTunnelID\<close> of protocol/proto\_tunnel.proto.\<close>

definition PROTO_TUNNEL_WORKER_MIN :: int where "PROTO_TUNNEL_WORKER_MIN = 0"
definition PROTO_TUNNEL_ID_OTHER :: int where "PROTO_TUNNEL_ID_OTHER = - 1"
definition PROTO_TUNNEL_ID_MAIN :: int where "PROTO_TUNNEL_ID_MAIN = - 2"

record tunnel_id =
  m_worker_cnt :: int

text \<open>\<^verbatim>\<open>init\<close>: the singleton is created once; an allocation failure is the flag \<open>oom\<close>.\<close>

definition tunnel_id_init :: "bool \<Rightarrow> int \<Rightarrow> tunnel_id option \<Rightarrow> int \<times> tunnel_id option" where
  "tunnel_id_init oom worker_cnt g =
     (case g of
        Some _ \<Rightarrow> (- 1, g)
      | None \<Rightarrow> if oom then (- 2, g) else (0, Some \<lparr>m_worker_cnt = worker_cnt\<rparr>))"

definition get_worker_tunnel_id :: "int \<Rightarrow> int" where
  "get_worker_tunnel_id worker_idx = PROTO_TUNNEL_WORKER_MIN + worker_idx"

definition get_worker_idx_by_tunnel_id :: "int \<Rightarrow> int" where
  "get_worker_idx_by_tunnel_id tid = tid - PROTO_TUNNEL_WORKER_MIN"

definition get_worker_tunnel_id_max :: "tunnel_id \<Rightarrow> int" where
  "get_worker_tunnel_id_max g = m_worker_cnt g - 1"

definition get_worker_all_tunnel_id :: "tunnel_id \<Rightarrow> int list" where
  "get_worker_all_tunnel_id g = [PROTO_TUNNEL_WORKER_MIN .. get_worker_tunnel_id_max g]"

definition hash_gid_2_worker_tunnel_id :: "u64 \<Rightarrow> int" where
  "hash_gid_2_worker_tunnel_id gid = get_worker_tunnel_id (uint (gid AND 0x1FF))"

definition is_worker_tunnel_id :: "tunnel_id \<Rightarrow> int \<Rightarrow> bool" where
  "is_worker_tunnel_id g i \<longleftrightarrow> PROTO_TUNNEL_WORKER_MIN \<le> i \<and> i \<le> get_worker_tunnel_id_max g"

definition is_tunnel_id :: "tunnel_id \<Rightarrow> int \<Rightarrow> bool" where
  "is_tunnel_id g i \<longleftrightarrow>
     (if PROTO_TUNNEL_WORKER_MIN \<le> i \<and> i \<le> get_worker_tunnel_id_max g then True
      else if PROTO_TUNNEL_ID_OTHER = i then True
      else if PROTO_TUNNEL_ID_MAIN = i then True
      else False)"

section \<open>Global ids\<close>

record gid_source =
  m_gid_seq :: u64
  m_latest_tick_time :: u64

definition gid_tick :: "u64 \<Rightarrow> gid_source \<Rightarrow> gid_source" where
  "gid_tick now_tick_time s =
     (if m_latest_tick_time s \<noteq> now_tick_time
      then s\<lparr>m_gid_seq := 0, m_latest_tick_time := now_tick_time\<rparr> else s)"

definition server_gen_gid :: "gid_source \<Rightarrow> u64 \<times> gid_source" where
  "server_gen_gid s =
     (let gen_gid_seq = push_bit 9 (m_gid_seq s AND 0x7FFFFF)
      in (push_bit 32 (m_latest_tick_time s) OR gen_gid_seq, s\<lparr>m_gid_seq := m_gid_seq s + 1\<rparr>))"

definition other_gen_gid :: "gid_source \<Rightarrow> u64 \<times> gid_source" where
  "other_gen_gid s =
     (push_bit 32 (m_latest_tick_time s) OR m_gid_seq s, s\<lparr>m_gid_seq := m_gid_seq s + 1\<rparr>)"

text \<open>
  The choice of a worker in \<^verbatim>\<open>on_listen_event\<close>: a scan over the workers' connection counts
  that keeps the index and the count of the best worker so far.
\<close>

fun choose_worker_scan :: "int list \<Rightarrow> nat \<Rightarrow> nat \<times> int \<Rightarrow> nat \<times> int" where
  "choose_worker_scan [] worker_idx best = best"
| "choose_worker_scan (v # vs) worker_idx (target, num) =
     (if target = worker_idx then choose_worker_scan vs (Suc worker_idx) (target, v)
      else if v \<le> num then choose_worker_scan vs (Suc worker_idx) (worker_idx, v)
      else choose_worker_scan vs (Suc worker_idx) (target, num))"

definition choose_worker :: "int list \<Rightarrow> u64" where
  "choose_worker nums = of_nat (fst (choose_worker_scan nums 0 (0, 0))) AND 0x1FF"

definition real_gid :: "u64 \<Rightarrow> u64 \<Rightarrow> u64" where
  "real_gid gid target_worker_idx = gid OR target_worker_idx"

section \<open>Routing by id\<close>

lemma mask9: "(0x1FF :: u64) = mask 9" and mask23: "(0x7FFFFF :: u64) = mask 23"
  by (simp_all add: mask_eq_exp_minus_1)

lemma and_mask9_id: "unat w < 512 \<Longrightarrow> w AND 0x1FF = (w :: u64)"
  by (rule word_unat_eq_iff [THEN iffD2]) (simp add: mask9 unsigned_take_bit_eq take_bit_nat_eq_self_iff flip: take_bit_eq_mask)

lemma unat_and_mask9: "unat (w AND 0x1FF :: u64) = unat w mod 512"
  by (simp add: mask9 unsigned_take_bit_eq flip: take_bit_eq_mask) (simp add: take_bit_eq_mod)

lemma real_gid_low:
  "unat i < 512 \<Longrightarrow> real_gid (fst (server_gen_gid s)) i AND 0x1FF = i"
proof -
  assume i: "unat i < 512"
  have "(fst (server_gen_gid s) OR i) AND 0x1FF = i AND 0x1FF"
    by (rule bit_word_eqI) (auto simp: server_gen_gid_def Let_def mask9 bit_simps)
  then show ?thesis using and_mask9_id [OF i] by (simp add: real_gid_def)
qed

lemma unat_gid:
  assumes "unat t < 2 ^ 32" "unat i < 512"
  shows "unat ((push_bit 32 t OR push_bit 9 (q AND 0x7FFFFF)) OR i :: u64) =
         unat t * 2 ^ 32 + (unat q mod 2 ^ 23) * 2 ^ 9 + unat i"
proof -
  have d1: "push_bit 32 t OR push_bit 9 (q AND 0x7FFFFF) = push_bit 32 t + push_bit 9 (q AND 0x7FFFFF :: u64)"
    by (rule disjunctive_add [symmetric]) (auto simp: mask23 bit_simps)
  have lo: "n < 9" if "bit i n" for n
    using that and_mask9_id [OF assms(2)] by (metis bit_and_iff bit_mask_iff mask9)
  have d3: "(push_bit 32 t OR push_bit 9 (q AND 0x7FFFFF)) OR i = (push_bit 32 t OR push_bit 9 (q AND 0x7FFFFF)) + (i :: u64)"
    using lo by (intro disjunctive_add [symmetric]) (fastforce simp: bit_simps)
  have s: "unat (push_bit 9 (q AND 0x7FFFFF) :: u64) = (unat q mod 2 ^ 23) * 2 ^ 9"
  proof -
    have "unat (take_bit 23 q) = unat q mod 2 ^ 23"
      by (simp add: unsigned_take_bit_eq) (simp add: take_bit_eq_mod)
    moreover have "unat q mod 2 ^ 23 < 2 ^ 23" by simp
    ultimately show ?thesis
      by (simp add: mask23 push_bit_eq_mult unat_word_ariths flip: take_bit_eq_mask)
  qed
  have t: "unat (push_bit 32 t) = unat t * 2 ^ 32"
    using assms(1) by (simp add: push_bit_eq_mult unat_word_ariths)
  have "unat (a + b + i) = x * 2 ^ 32 + (y mod 2 ^ 23) * 2 ^ 9 + unat i"
    if "unat a = x * 2 ^ 32" "unat b = (y mod 2 ^ 23) * 2 ^ 9" "x < 2 ^ 32" for a b :: u64 and x y
  proof -
    have "y mod 2 ^ 23 < 2 ^ 23" by simp
    then show ?thesis using that assms(2) by (simp add: unat_word_ariths)
  qed
  from this [OF t s assms(1)] show ?thesis by (simp only: d3) (simp only: d1)
qed

lemma uint_small: "i < 512 \<Longrightarrow> uint (of_nat i :: u64) = int i"
  by (simp add: unsigned_of_nat take_bit_nat_eq_self_iff)

section \<open>Uniqueness of global ids\<close>

text \<open>
  The life of the main thread's generator: the clock ticks (the event loop reads a new
  time) and connections are numbered, each with the worker it was given to.
\<close>

datatype gid_event = Clock u64 | Accept u64

fun gid_run :: "gid_event list \<Rightarrow> gid_source \<Rightarrow> u64 list" where
  "gid_run [] s = []"
| "gid_run (Clock now # es) s = gid_run es (gid_tick now s)"
| "gid_run (Accept w # es) s =
     (let (gid, s') = server_gen_gid s in real_gid gid w # gid_run es s')"

text \<open>
  A clock that does not go back and fits 32 bits, fewer than \<open>2 ^ 23\<close> connections in one
  second, worker indices of 9 bits.
\<close>

fun gid_history_ok :: "gid_event list \<Rightarrow> gid_source \<Rightarrow> bool" where
  "gid_history_ok [] s = True"
| "gid_history_ok (Clock now # es) s =
     (m_latest_tick_time s \<le> now \<and> unat now < 2 ^ 32 \<and> gid_history_ok es (gid_tick now s))"
| "gid_history_ok (Accept w # es) s =
     (unat w < 512 \<and> unat (m_gid_seq s) < 2 ^ 23 \<and> gid_history_ok es (snd (server_gen_gid s)))"

definition gid_floor :: "gid_source \<Rightarrow> nat" where
  "gid_floor s = unat (m_latest_tick_time s) * 2 ^ 32 + unat (m_gid_seq s) * 2 ^ 9"

lemma gid_run_sorted:
  assumes "gid_history_ok es s" "unat (m_latest_tick_time s) < 2 ^ 32" "unat (m_gid_seq s) \<le> 2 ^ 23"
  shows "sorted_wrt (<) (map unat (gid_run es s)) \<and> (\<forall>g\<in>set (gid_run es s). gid_floor s \<le> unat g)"
  using assms
proof (induction es s rule: gid_run.induct)
  case (2 now es s)
  have "gid_floor s \<le> gid_floor (gid_tick now s)"
  proof (cases "m_latest_tick_time s = now")
    case False
    then have "m_latest_tick_time s < now" using 2(2) by (auto simp: order.strict_iff_order)
    then have "unat (m_latest_tick_time s) + 1 \<le> unat now" by (simp add: word_less_nat_alt)
    then have "(unat (m_latest_tick_time s) + 1) * 2 ^ 32 \<le> unat now * 2 ^ 32" by (rule mult_right_mono) simp
    then show ?thesis using 2(4) False by (simp add: gid_floor_def gid_tick_def)
  qed (simp add: gid_tick_def)
  then show ?case using 2 by (force simp: gid_tick_def split: if_splits)
next
  case (3 w es s)
  let ?s' = "snd (server_gen_gid s)"
  have seq: "unat (m_gid_seq s + 1) = unat (m_gid_seq s) + 1"
    using 3(2) by (simp add: unat_word_ariths)
  have g: "unat (real_gid (fst (server_gen_gid s)) w) = gid_floor s + unat w" "unat w < 512"
    using unat_gid [of "m_latest_tick_time s" w "m_gid_seq s"] 3(2,3)
    by (simp_all add: real_gid_def server_gen_gid_def gid_floor_def Let_def)
  have f: "gid_floor ?s' = gid_floor s + 512" "m_latest_tick_time ?s' = m_latest_tick_time s"
      "m_gid_seq ?s' = m_gid_seq s + 1"
    using seq by (simp_all add: server_gen_gid_def gid_floor_def Let_def)
  have "sorted_wrt (<) (map unat (gid_run es ?s')) \<and> (\<forall>g\<in>set (gid_run es ?s'). gid_floor ?s' \<le> unat g)"
    using 3(1) [of "server_gen_gid s" "fst (server_gen_gid s)" ?s'] 3(2,3) f seq by simp
  then show ?case using g f by (force simp: Let_def split_beta)
qed simp

text \<open>
  C4. Global connection ids are unique and strictly increasing over any history in which the
  clock does not go back and fits 32 bits and at most \<open>2 ^ 23\<close> connections are numbered within
  one clock value.
\<close>

theorem gids_unique:
  assumes "gid_history_ok es \<lparr>m_gid_seq = 0, m_latest_tick_time = t0\<rparr>" "unat t0 < 2 ^ 32"
  shows "distinct (gid_run es \<lparr>m_gid_seq = 0, m_latest_tick_time = t0\<rparr>) \<and>
         sorted (gid_run es \<lparr>m_gid_seq = 0, m_latest_tick_time = t0\<rparr>)"
proof -
  have "sorted_wrt (<) (map unat (gid_run es \<lparr>m_gid_seq = 0, m_latest_tick_time = t0\<rparr>))"
    using gid_run_sorted [OF assms(1)] assms(2) by simp
  then show ?thesis
    by (auto simp: strict_sorted_iff sorted_map distinct_map word_le_nat_alt elim!: sorted_wrt_mono_rel [rotated])
qed

theorem gids_unique_witness:
  "gid_history_ok [Accept 3, Accept 3, Clock 9, Accept 0] \<lparr>m_gid_seq = 0, m_latest_tick_time = 8\<rparr> \<and>
   distinct (gid_run [Accept 3, Accept 3, Clock 9, Accept 0] \<lparr>m_gid_seq = 0, m_latest_tick_time = 8\<rparr>)"
  using gids_unique [of "[Accept 3, Accept 3, Clock 9, Accept 0]" 8]
  by (simp add: gid_tick_def server_gen_gid_def Let_def)

section \<open>The choice of a worker\<close>

lemma choose_worker_scan_best:
  assumes "choose_worker_scan vs k (i, n) = (j, m)" "i < k"
  shows "m \<le> n \<and> (\<forall>v\<in>set vs. m \<le> v) \<and> (j = i \<and> m = n \<or> k \<le> j \<and> j < k + length vs \<and> vs ! (j - k) = m)"
  using assms
proof (induction vs k "(i, n)" arbitrary: i n rule: choose_worker_scan.induct)
  case (2 v vs k i n)
  show ?case
  proof (cases "v \<le> n")
    case True
    from 2(2) [OF _ True] 2(4,5) True show ?thesis by (force simp: nth_Cons')
  next
    case False
    from 2(3) [OF _ False] 2(4,5) False show ?thesis by (force simp: nth_Cons')
  qed
qed auto

lemma choose_worker_least:
  assumes "nums \<noteq> []"
  shows "fst (choose_worker_scan nums 0 (0, 0)) < length nums \<and>
         (\<forall>v\<in>set nums. nums ! fst (choose_worker_scan nums 0 (0, 0)) \<le> v)"
proof -
  obtain v vs where nums: "nums = v # vs" using assms by (cases nums) auto
  obtain j m where r: "choose_worker_scan vs 1 (0, v) = (j, m)" by fastforce
  from choose_worker_scan_best [OF this] have b: "m \<le> v" "\<forall>u\<in>set vs. m \<le> u"
      "j = 0 \<and> m = v \<or> 1 \<le> j \<and> j < 1 + length vs \<and> vs ! (j - 1) = m" by auto
  moreover have "choose_worker_scan nums 0 (0, 0) = (j, m)" using r by (simp add: nums)
  ultimately show ?thesis by (auto simp: nums nth_Cons')
qed

lemma least_loaded_routes:
  assumes "nums \<noteq> []" "length nums \<le> 512" "m_worker_cnt g = int (length nums)"
  shows "\<exists>i < length nums.
           choose_worker nums = of_nat i \<and> (\<forall>v\<in>set nums. nums ! i \<le> v) \<and>
           hash_gid_2_worker_tunnel_id (real_gid (fst (server_gen_gid s)) (choose_worker nums)) =
             get_worker_tunnel_id (int i) \<and>
           is_worker_tunnel_id g (get_worker_tunnel_id (int i))"
proof -
  define i where "i = fst (choose_worker_scan nums 0 (0, 0))"
  have i: "i < length nums" "\<forall>v\<in>set nums. nums ! i \<le> v"
    using choose_worker_least [OF assms(1)] by (simp_all add: i_def)
  then have u: "unat (of_nat i :: u64) = i" using assms(2) by (simp add: unat_of_nat)
  then have c: "choose_worker nums = of_nat i"
    using and_mask9_id [of "of_nat i"] i(1) assms(2) by (simp add: choose_worker_def i_def)
  have "real_gid (fst (server_gen_gid s)) (choose_worker nums) AND 0x1FF = of_nat i"
    using real_gid_low [of "of_nat i" s] u i(1) assms(2) by (simp add: c)
  then have "hash_gid_2_worker_tunnel_id (real_gid (fst (server_gen_gid s)) (choose_worker nums)) =
      get_worker_tunnel_id (int i)"
    using i(1) assms(2) by (simp add: hash_gid_2_worker_tunnel_id_def uint_small)
  then show ?thesis using i c assms(3)
    by (intro exI [of _ i])
      (auto simp: is_worker_tunnel_id_def get_worker_tunnel_id_def get_worker_tunnel_id_max_def PROTO_TUNNEL_WORKER_MIN_def)
qed

text \<open>
  C5. With at least one and at most 512 workers, a new client goes to a worker that has the
  fewest connections, and the id the client is given routes back to that worker: its hash is
  the worker's tunnel id, which is a worker tunnel id of the process.
\<close>

theorem accepted_gid_routes_to_least_loaded:
  assumes "nums \<noteq> []" "length nums \<le> 512" "m_worker_cnt g = int (length nums)"
  shows "\<exists>i < length nums.
           choose_worker nums = of_nat i \<and> (\<forall>v\<in>set nums. nums ! i \<le> v) \<and>
           hash_gid_2_worker_tunnel_id (real_gid (fst (server_gen_gid s)) (choose_worker nums)) =
             get_worker_tunnel_id (int i) \<and>
           is_worker_tunnel_id g (get_worker_tunnel_id (int i))"
  by (rule least_loaded_routes [OF assms])

theorem accepted_gid_routes_to_least_loaded_witness:
  "[4, 1, 7, 1] \<noteq> ([] :: int list) \<and> length [4, 1, 7, 1 :: int] \<le> 512 \<and>
   (\<exists>i < length [4, 1, 7, 1 :: int].
      choose_worker [4, 1, 7, 1] = of_nat i \<and> (\<forall>v\<in>set [4, 1, 7, 1]. [4, 1, 7, 1 :: int] ! i \<le> v) \<and>
      hash_gid_2_worker_tunnel_id
        (real_gid (fst (server_gen_gid \<lparr>m_gid_seq = 5, m_latest_tick_time = 1700000000\<rparr>)) (choose_worker [4, 1, 7, 1])) =
        get_worker_tunnel_id (int i) \<and>
      is_worker_tunnel_id \<lparr>m_worker_cnt = 4\<rparr> (get_worker_tunnel_id (int i)))"
  using accepted_gid_routes_to_least_loaded [of "[4, 1, 7, 1]" "\<lparr>m_worker_cnt = 4\<rparr>"
      "\<lparr>m_gid_seq = 5, m_latest_tick_time = 1700000000\<rparr>"] by simp

end
