(* ===== verification/Proto_Util.thy ===== *)
theory Proto_Util
  imports Prelude
begin

text \<open>
  The wire format of every message (src/proto/proto\_util): a big-endian 64-bit length and the
  serialized \<^verbatim>\<open>ProtoPackage\<close>. The generated protobuf classes are not part of the sources: a
  serializer (which may fail) and a parser are parameters of the definitions.
\<close>

record proto_package =
  cmd :: int
  protocol :: bytes

type_synonym 'm serializer = "'m \<Rightarrow> bytes option"
type_synonym 'm parser = "bytes \<Rightarrow> 'm option"

definition ton64 :: "u64 \<Rightarrow> u64" where
  "ton64 num = bswap64 num"

definition toh64 :: "u64 \<Rightarrow> u64" where
  "toh64 num = bswap64 num"

definition toh64_from_buffer :: "bytes \<Rightarrow> u64" where
  "toh64_from_buffer buffer = toh64 (u64_of_mem (take 8 buffer))"

definition pack_package :: "proto_package serializer \<Rightarrow> proto_package \<Rightarrow> bytes" where
  "pack_package ser package =
     (case ser package of
        None \<Rightarrow> []
      | Some data \<Rightarrow> mem_of_u64 (ton64 (of_nat (length data))) @ data)"

definition pack_package_msg ::
    "proto_package serializer \<Rightarrow> 'm serializer \<Rightarrow> 'm \<Rightarrow> int \<Rightarrow> bytes" where
  "pack_package_msg ser ser_t t c =
     (case ser_t t of
        None \<Rightarrow> []
      | Some body_str \<Rightarrow>
          (case ser \<lparr>cmd = c, protocol = body_str\<rparr> of
             None \<Rightarrow> []
           | Some data \<Rightarrow> mem_of_u64 (ton64 (of_nat (length data))) @ data))"

definition pack_package_into ::
    "'m serializer \<Rightarrow> proto_package \<Rightarrow> 'm \<Rightarrow> int \<Rightarrow> proto_package" where
  "pack_package_into ser_t package t c =
     (case ser_t t of
        None \<Rightarrow> package\<lparr>cmd := c, protocol := []\<rparr>
      | Some body_str \<Rightarrow> package\<lparr>cmd := c, protocol := body_str\<rparr>)"

definition proto_parse :: "'m parser \<Rightarrow> proto_package \<Rightarrow> 'm option" where
  "proto_parse parse_t package = parse_t (protocol package)"

section \<open>Frames\<close>

text \<open>The frame of a body: what \<^const>\<open>pack_package\<close> emits for it.\<close>

definition frame :: "bytes \<Rightarrow> bytes" where
  "frame d = mem_of_u64 (ton64 (of_nat (length d))) @ d"

lemma toh64_ton64 [simp]: "toh64 (ton64 x) = x" "ton64 (toh64 x) = x"
  by (simp_all add: toh64_def ton64_def)

lemma length_frame [simp]: "length (frame d) = 8 + length d"
  by (simp add: frame_def)

lemma drop_frame [simp]: "drop 8 (frame d) = d"
  by (simp add: frame_def)

lemma toh64_frame [simp]: "toh64_from_buffer (frame d @ rest) = of_nat (length d)"
  by (simp add: toh64_from_buffer_def frame_def)

lemma unat_of_nat_u64: "n < 2 ^ 64 \<Longrightarrow> unat (of_nat n :: u64) = n"
  by (simp add: unat_of_nat)

lemma unat_toh64_frame:
  "length d < 2 ^ 64 \<Longrightarrow> unat (toh64_from_buffer (frame d @ rest)) = length d"
  by (simp add: unat_of_nat)

lemma pack_package_frame:
  "ser p = Some d \<Longrightarrow> pack_package ser p = frame d"
  "ser p = None \<Longrightarrow> pack_package ser p = []"
  by (simp_all add: pack_package_def frame_def)

lemma pack_package_msg_frame:
  "ser_t t = Some b \<Longrightarrow> ser \<lparr>cmd = c, protocol = b\<rparr> = Some d \<Longrightarrow> pack_package_msg ser ser_t t c = frame d"
  by (simp add: pack_package_msg_def frame_def)

lemma frame_nonempty [simp]: "frame d \<noteq> []"
  by (metis length_frame add_is_0 list.size(3) zero_neq_numeral)

end
