(* ===== verification/Event_Poller.thy ===== *)
theory Event_Poller
  imports Prelude
begin

text \<open>
  The epoll wrapper (src/event/event\_poller.cpp, the Linux branch). The wrapper caches, per
  descriptor, the event mask it last registered, and skips a kernel call that would not change
  it. The kernel's interest table \<open>k_interest\<close> is part of the state, so the cache can be compared
  with it; \<open>k_verdicts\<close> scripts the resource failures of \<^verbatim>\<open>EPOLL_CTL_ADD\<close> (an exhausted script
  succeeds).
\<close>

definition EPOLLIN :: u32 where "EPOLLIN = 0x001"
definition EPOLLOUT :: u32 where "EPOLLOUT = 0x004"
definition EPOLLERR :: u32 where "EPOLLERR = 0x008"
definition EPOLLHUP :: u32 where "EPOLLHUP = 0x010"
definition EPOLLRDHUP :: u32 where "EPOLLRDHUP = 0x2000"
definition EPOLLET :: u32 where "EPOLLET = 0x80000000"

definition READ :: u32 where "READ = EPOLLIN"
definition WRITE :: u32 where "WRITE = EPOLLOUT"
definition ERR :: u32 where "ERR = EPOLLERR OR EPOLLHUP OR EPOLLRDHUP"
definition RWE :: u32 where "RWE = READ OR WRITE OR ERR"
definition RE :: u32 where "RE = READ OR ERR"
definition WE :: u32 where "WE = WRITE OR ERR"

record event_poller =
  m_epfd :: int
  m_max_connections :: int
  m_events_allocated :: bool
  fd_curr_reg_event :: "int \<rightharpoonup> u32"
  k_interest :: "int \<rightharpoonup> u32"
  k_verdicts :: "bool list"

definition poller_new :: event_poller where
  "poller_new = \<lparr>m_epfd = - 1, m_max_connections = 0, m_events_allocated = False,
                 fd_curr_reg_event = Map.empty, k_interest = Map.empty, k_verdicts = []\<rparr>"

text \<open>\<^verbatim>\<open>create\<close>: \<open>epfd\<close> is the kernel's answer, \<open>oom\<close> an allocation failure.\<close>

definition poller_create :: "int \<Rightarrow> bool \<Rightarrow> int \<Rightarrow> event_poller \<Rightarrow> int \<times> event_poller" where
  "poller_create epfd oom max_connections p =
     (let p1 = p\<lparr>m_max_connections := max_connections, m_epfd := epfd, k_interest := Map.empty\<rparr>
      in if epfd < 0 then (- 1, p1)
         else if oom then (- 2, p1\<lparr>m_epfd := - 1, m_events_allocated := False\<rparr>)
         else (0, p1\<lparr>m_events_allocated := True\<rparr>))"

datatype ctl_op = CTL_ADD | CTL_MOD | CTL_DEL

text \<open>
  \<^verbatim>\<open>epoll_ctl\<close>: adding fails for a descriptor that is present (EEXIST) or for want of
  resources, modifying and deleting fail for one that is absent (ENOENT).
\<close>

definition epoll_ctl :: "ctl_op \<Rightarrow> int \<Rightarrow> u32 \<Rightarrow> event_poller \<Rightarrow> int \<times> event_poller" where
  "epoll_ctl opn f ev p =
     (case opn of
        CTL_ADD \<Rightarrow>
          (if k_interest p f \<noteq> None then (- 1, p)
           else case k_verdicts p of
                  [] \<Rightarrow> (0, p\<lparr>k_interest := (k_interest p)(f \<mapsto> ev)\<rparr>)
                | v # vs \<Rightarrow> if v then (0, p\<lparr>k_interest := (k_interest p)(f \<mapsto> ev), k_verdicts := vs\<rparr>)
                            else (- 1, p\<lparr>k_verdicts := vs\<rparr>))
      | CTL_MOD \<Rightarrow>
          (if k_interest p f = None then (- 1, p) else (0, p\<lparr>k_interest := (k_interest p)(f \<mapsto> ev)\<rparr>))
      | CTL_DEL \<Rightarrow>
          (if k_interest p f = None then (- 1, p) else (0, p\<lparr>k_interest := (k_interest p)(f := None)\<rparr>)))"

definition poller_ctrl :: "int \<Rightarrow> u32 \<Rightarrow> ctl_op \<Rightarrow> bool \<Rightarrow> event_poller \<Rightarrow> int \<times> event_poller" where
  "poller_ctrl f events opn et p =
     (if m_epfd p < 0 then (- 999, p)
      else epoll_ctl opn f (if et then events OR EPOLLET else events) p)"

definition poller_add :: "int \<Rightarrow> u32 \<Rightarrow> bool \<Rightarrow> event_poller \<Rightarrow> int \<times> event_poller" where
  "poller_add f events0 et p =
     (if m_epfd p < 0 then (- 999, p)
      else
        (let events = (if et then events0 OR EPOLLET else events0)
         in if fd_curr_reg_event p f = Some events then (0, p)
            else
              (let (iret, p') = poller_ctrl f events CTL_ADD et p
               in if iret = 0 then (iret, p'\<lparr>fd_curr_reg_event := (fd_curr_reg_event p')(f \<mapsto> events)\<rparr>)
                  else (iret, p'))))"

definition poller_mod :: "int \<Rightarrow> u32 \<Rightarrow> bool \<Rightarrow> event_poller \<Rightarrow> int \<times> event_poller" where
  "poller_mod f events0 et p =
     (if m_epfd p < 0 then (- 999, p)
      else
        (let events = (if et then events0 OR EPOLLET else events0)
         in if fd_curr_reg_event p f = Some events then (0, p)
            else
              (let (iret, p') = poller_ctrl f events CTL_MOD et p
               in if iret = 0 then (iret, p'\<lparr>fd_curr_reg_event := (fd_curr_reg_event p')(f \<mapsto> events)\<rparr>)
                  else (iret, p'))))"

definition poller_del :: "int \<Rightarrow> event_poller \<Rightarrow> int \<times> event_poller" where
  "poller_del f p =
     (if fd_curr_reg_event p f = None then (0, p)
      else poller_ctrl f 0 CTL_DEL False (p\<lparr>fd_curr_reg_event := (fd_curr_reg_event p)(f := None)\<rparr>))"

text \<open>
  \<^verbatim>\<open>wait\<close> with the kernel's answer \<open>ready\<close>: the code returns before calling the kernel when the
  poller was not created.
\<close>

definition poller_wait :: "int \<Rightarrow> event_poller \<Rightarrow> int" where
  "poller_wait ready p = (if m_epfd p < 0 \<or> \<not> m_events_allocated p then - 999 else ready)"

definition get_fd_from_event :: "(int \<times> u32) option \<Rightarrow> int" where
  "get_fd_from_event ev = (case ev of Some (f, _) \<Rightarrow> f | None \<Rightarrow> - 1)"

definition get_code_from_event :: "(int \<times> u32) option \<Rightarrow> u32" where
  "get_code_from_event ev = (case ev of None \<Rightarrow> 0 | Some (_, code) \<Rightarrow> code)"

text \<open>Closing a descriptor drops it from the kernel's table, not from the wrapper's cache.\<close>

definition k_close :: "int \<Rightarrow> event_poller \<Rightarrow> event_poller" where
  "k_close f p = p\<lparr>k_interest := (k_interest p)(f := None)\<rparr>"

section \<open>The cache agrees with the kernel\<close>

definition poller_inv :: "event_poller \<Rightarrow> bool" where
  "poller_inv p \<longleftrightarrow> fd_curr_reg_event p = k_interest p"

lemma poller_add_inv:
  assumes "poller_inv p"
  shows "poller_inv (snd (poller_add f ev et p))"
    and "fst (poller_add f ev et p) = 0 \<Longrightarrow>
           k_interest (snd (poller_add f ev et p)) f = Some (if et then ev OR EPOLLET else ev)"
    and "g \<noteq> f \<Longrightarrow> k_interest (snd (poller_add f ev et p)) g = k_interest p g"
    and "fst (poller_add f ev et p) \<noteq> 0 \<Longrightarrow> k_interest (snd (poller_add f ev et p)) = k_interest p"
  using assms
  by (auto simp: poller_inv_def poller_add_def poller_ctrl_def epoll_ctl_def Let_def or.assoc
      split: list.splits if_splits)

lemma poller_mod_inv:
  assumes "poller_inv p"
  shows "poller_inv (snd (poller_mod f ev et p))"
    and "fst (poller_mod f ev et p) = 0 \<Longrightarrow>
           k_interest (snd (poller_mod f ev et p)) f = Some (if et then ev OR EPOLLET else ev)"
    and "g \<noteq> f \<Longrightarrow> k_interest (snd (poller_mod f ev et p)) g = k_interest p g"
    and "fst (poller_mod f ev et p) \<noteq> 0 \<Longrightarrow> k_interest (snd (poller_mod f ev et p)) = k_interest p"
    and "m_epfd p \<ge> 0 \<Longrightarrow> fst (poller_mod f ev et p) = 0 \<longleftrightarrow> k_interest p f \<noteq> None"
  using assms
  by (auto simp: poller_inv_def poller_mod_def poller_ctrl_def epoll_ctl_def Let_def or.assoc
      split: if_splits)

lemma poller_del_inv:
  assumes "poller_inv p" "m_epfd p \<ge> 0"
  shows "poller_inv (snd (poller_del f p))" "fst (poller_del f p) = 0"
    "k_interest (snd (poller_del f p)) = (k_interest p)(f := None)"
  using assms
  by (auto simp: poller_inv_def poller_del_def poller_ctrl_def epoll_ctl_def fun_upd_idem)

lemma poller_epfd [simp]:
  "m_epfd (snd (poller_add f ev et p)) = m_epfd p"
  "m_epfd (snd (poller_mod f ev et p)) = m_epfd p"
  "m_epfd (snd (poller_del f p)) = m_epfd p"
  "m_epfd (k_close f p) = m_epfd p"
  by (auto simp: poller_add_def poller_mod_def poller_del_def poller_ctrl_def epoll_ctl_def k_close_def Let_def
      split: list.splits ctl_op.splits if_splits prod.splits)

section \<open>Histories of registrations\<close>

datatype poller_op = P_add int u32 bool | P_mod int u32 bool | P_del int

fun poller_step :: "poller_op \<Rightarrow> event_poller \<Rightarrow> int \<times> event_poller" where
  "poller_step (P_add f ev et) p = poller_add f ev et p"
| "poller_step (P_mod f ev et) p = poller_mod f ev et p"
| "poller_step (P_del f) p = poller_del f p"

fun poller_run :: "poller_op list \<Rightarrow> event_poller \<Rightarrow> int list \<times> event_poller" where
  "poller_run [] p = ([], p)"
| "poller_run (x # xs) p =
     (let (code, p1) = poller_step x p; (codes, p2) = poller_run xs p1 in (code # codes, p2))"

text \<open>
  What the wrapper promises: a table of descriptors with their masks. Adding a descriptor that
  is registered under another mask and modifying one that is not registered fail.
\<close>

abbreviation mask_of :: "u32 \<Rightarrow> bool \<Rightarrow> u32" where
  "mask_of ev et \<equiv> (if et then ev OR EPOLLET else ev)"

fun table_step :: "poller_op \<Rightarrow> (int \<rightharpoonup> u32) \<Rightarrow> bool \<times> (int \<rightharpoonup> u32)" where
  "table_step (P_add f ev et) t =
     (case t f of None \<Rightarrow> (True, t(f \<mapsto> mask_of ev et)) | Some m \<Rightarrow> (m = mask_of ev et, t))"
| "table_step (P_mod f ev et) t =
     (case t f of None \<Rightarrow> (False, t) | Some m \<Rightarrow> (True, t(f \<mapsto> mask_of ev et)))"
| "table_step (P_del f) t = (True, t(f := None))"

fun table_run :: "poller_op list \<Rightarrow> (int \<rightharpoonup> u32) \<Rightarrow> bool list \<times> (int \<rightharpoonup> u32)" where
  "table_run [] t = ([], t)"
| "table_run (x # xs) t = (let (b, t1) = table_step x t; (bs, t2) = table_run xs t1 in (b # bs, t2))"

definition poller_sound :: "event_poller \<Rightarrow> bool" where
  "poller_sound p \<longleftrightarrow> poller_inv p \<and> m_epfd p \<ge> 0 \<and> k_verdicts p = []"

lemma poller_step_refines:
  assumes "poller_sound p" "poller_step x p = (code, p')"
  shows "poller_sound p'" "table_step x (k_interest p) = (code = 0, k_interest p')"
  using assms
  by (cases x; auto simp: poller_sound_def poller_inv_def poller_add_def poller_mod_def poller_del_def poller_ctrl_def
      epoll_ctl_def Let_def or.assoc fun_upd_idem split: option.splits if_splits)+

lemma poller_run_refines:
  "poller_sound p \<Longrightarrow> poller_run xs p = (codes, p') \<Longrightarrow>
     poller_sound p' \<and> table_run xs (k_interest p) = (map (\<lambda>c. c = 0) codes, k_interest p')"
proof (induction xs arbitrary: p codes)
  case (Cons x xs)
  obtain code p1 where s: "poller_step x p = (code, p1)" by fastforce
  obtain cs where r: "poller_run xs p1 = (cs, p')" and c: "codes = code # cs"
    using Cons.prems(2) s by (auto split: prod.splits)
  note st = poller_step_refines [OF Cons.prems(1) s]
  from Cons.IH [OF st(1) r] show ?case by (simp add: st(2) c)
qed simp

text \<open>
  C13. The poller is a faithful cache. From a poller that was created, any history of
  registrations, changes and removals, the kernel having the resources, leaves the cache equal
  to the kernel's interest table, which is the table the history describes, and each operation
  returns 0 exactly when the table allows it.
\<close>

theorem poller_refines_table:
  "let (codes, p) = poller_run xs (snd (poller_create epfd False n poller_new))
   in epfd < 0 \<or>
      (fd_curr_reg_event p = k_interest p \<and> table_run xs Map.empty = (map (\<lambda>c. c = 0) codes, k_interest p))"
proof -
  let ?p0 = "snd (poller_create epfd False n poller_new)"
  obtain codes p where r: "poller_run xs ?p0 = (codes, p)" by fastforce
  have "poller_sound ?p0" if "\<not> epfd < 0"
    using that by (simp add: poller_sound_def poller_inv_def poller_create_def poller_new_def Let_def)
  moreover have "k_interest ?p0 = Map.empty" by (simp add: poller_create_def poller_new_def Let_def)
  ultimately show ?thesis
    using poller_run_refines [of ?p0 xs codes p] r by (auto simp: poller_sound_def poller_inv_def)
qed

section \<open>Closing without removing\<close>

text \<open>The operations that leave a stale entry as it is: on other descriptors, or asking for its mask again.\<close>

fun spares :: "int \<Rightarrow> u32 \<Rightarrow> poller_op \<Rightarrow> bool" where
  "spares f m (P_add g ev et) \<longleftrightarrow> g \<noteq> f \<or> mask_of ev et = m"
| "spares f m (P_mod g ev et) \<longleftrightarrow> g \<noteq> f \<or> mask_of ev et = m"
| "spares f m (P_del g) \<longleftrightarrow> g \<noteq> f"

fun op_fd :: "poller_op \<Rightarrow> int" where
  "op_fd (P_add f ev et) = f"
| "op_fd (P_mod f ev et) = f"
| "op_fd (P_del f) = f"

text \<open>The cache holds the mask \<open>m\<close> for a descriptor that the kernel does not watch.\<close>

definition stale :: "int \<Rightarrow> u32 \<Rightarrow> event_poller \<Rightarrow> bool" where
  "stale f m p \<longleftrightarrow> 0 \<le> m_epfd p \<and> fd_curr_reg_event p f = Some m \<and> k_interest p f = None"

lemma stale_step:
  assumes "stale f m p" "spares f m x" "poller_step x p = (code, p')"
  shows "stale f m p'" "op_fd x = f \<Longrightarrow> code = 0"
  using assms
  by (cases x; auto simp: stale_def poller_add_def poller_mod_def poller_del_def poller_ctrl_def epoll_ctl_def Let_def
      split: list.splits if_splits)+

lemma stale_run:
  "stale f m p \<Longrightarrow> list_all (spares f m) xs \<Longrightarrow> poller_run xs p = (codes, p') \<Longrightarrow>
     stale f m p' \<and> (\<forall>(x, code) \<in> set (zip xs codes). op_fd x = f \<longrightarrow> code = 0)"
proof (induction xs arbitrary: p codes)
  case (Cons x xs)
  obtain code p1 where s: "poller_step x p = (code, p1)" by fastforce
  obtain cs where r: "poller_run xs p1 = (cs, p')" and c: "codes = code # cs"
    using Cons.prems(3) s by (auto split: prod.splits)
  have x: "spares f m x" "list_all (spares f m) xs" using Cons.prems(2) by simp_all
  note st = stale_step [OF Cons.prems(1) x(1) s]
  from Cons.IH [OF st(1) x(2) r] st(2) show ?case by (auto simp: c)
qed simp



end
