(* ===== verification/Vec_Str_Buffer.thy ===== *)
theory Vec_Str_Buffer
  imports Prelude
begin

text \<open>
  The byte queue behind every connection (src/utility/vec\_str\_buffer): bytes are appended at
  the back and consumed at the front. The locale \<open>byte_fifo\<close> is the contract its clients rely
  on. \<^verbatim>\<open>std::string\<close> may choose any capacity that holds the contents; the model takes the
  least one.
\<close>

record vec_str_buffer =
  m_data :: bytes
  m_capacity :: nat

definition vsb_empty :: vec_str_buffer where
  "vsb_empty = \<lparr>m_data = [], m_capacity = 0\<rparr>"

definition get_read_ptr :: "vec_str_buffer \<Rightarrow> bytes" where
  "get_read_ptr b = m_data b"

definition vsb_reserve :: "nat \<Rightarrow> vec_str_buffer \<Rightarrow> vec_str_buffer" where
  "vsb_reserve n b = (if n \<le> m_capacity b then b else b\<lparr>m_capacity := n\<rparr>)"

definition move_read_ptr_n :: "nat \<Rightarrow> vec_str_buffer \<Rightarrow> vec_str_buffer" where
  "move_read_ptr_n n b =
     (let n' = (if n > length (m_data b) then length (m_data b) else n)
      in b\<lparr>m_data := drop n' (m_data b)\<rparr>)"

text \<open>The null pointer is \<^term>\<open>None\<close>; otherwise the \<open>n\<close> bytes at the pointer are given.\<close>

definition vsb_append_ptr :: "bytes option \<Rightarrow> vec_str_buffer \<Rightarrow> vec_str_buffer" where
  "vsb_append_ptr bs b =
     (case bs of
        None \<Rightarrow> b
      | Some d \<Rightarrow> b\<lparr>m_data := m_data b @ d,
                    m_capacity := max (m_capacity b) (length (m_data b) + length d)\<rparr>)"

abbreviation vsb_append :: "bytes \<Rightarrow> vec_str_buffer \<Rightarrow> vec_str_buffer" where
  "vsb_append d \<equiv> vsb_append_ptr (Some d)"

definition vsb_clear :: "vec_str_buffer \<Rightarrow> vec_str_buffer" where
  "vsb_clear b = b\<lparr>m_data := []\<rparr>"

definition vsb_is_empty :: "vec_str_buffer \<Rightarrow> bool" where
  "vsb_is_empty b \<longleftrightarrow> m_data b = []"

definition vsb_size :: "vec_str_buffer \<Rightarrow> nat" where
  "vsb_size b = length (m_data b)"

definition vsb_inv :: "vec_str_buffer \<Rightarrow> bool" where
  "vsb_inv b \<longleftrightarrow> length (m_data b) \<le> m_capacity b"

section \<open>Contents\<close>

lemma vsb_data [simp]:
  "m_data (move_read_ptr_n n b) = drop n (m_data b)"
  "m_data (vsb_append d b) = m_data b @ d"
  "m_data (vsb_append_ptr None b) = m_data b"
  "m_data (vsb_reserve n b) = m_data b"
  "m_data (vsb_clear b) = []"
  "m_data vsb_empty = []"
  "get_read_ptr b = m_data b"
  "vsb_size b = length (m_data b)"
  "vsb_is_empty b = (m_data b = [])"
  by (simp_all add: move_read_ptr_n_def vsb_append_ptr_def vsb_reserve_def vsb_clear_def vsb_empty_def
      get_read_ptr_def vsb_size_def vsb_is_empty_def)

lemma vsb_inv_ops [simp]:
  "vsb_inv b \<Longrightarrow> vsb_inv (move_read_ptr_n n b)"
  "vsb_inv b \<Longrightarrow> vsb_inv (vsb_append_ptr bs b)"
  "vsb_inv b \<Longrightarrow> vsb_inv (vsb_reserve n b)"
  "vsb_inv b \<Longrightarrow> vsb_inv (vsb_clear b)"
  "vsb_inv vsb_empty"
  by (auto simp: vsb_inv_def move_read_ptr_n_def vsb_append_ptr_def vsb_reserve_def vsb_clear_def
      vsb_empty_def Let_def split: option.splits)

section \<open>The interface: a queue of bytes\<close>

datatype fifo_op = Put bytes | Take nat

definition fifo_step ::
    "('b \<Rightarrow> bytes) \<Rightarrow> (bytes \<Rightarrow> 'b \<Rightarrow> 'b) \<Rightarrow> (nat \<Rightarrow> 'b \<Rightarrow> 'b) \<Rightarrow> fifo_op \<Rightarrow> 'b \<times> bytes \<Rightarrow> 'b \<times> bytes" where
  "fifo_step content put consume opn st =
     (case opn of
        Put bs \<Rightarrow> (put bs (fst st), snd st)
      | Take n \<Rightarrow> (consume n (fst st), snd st @ take n (content (fst st))))"

fun fifo_input :: "fifo_op list \<Rightarrow> bytes" where
  "fifo_input [] = []"
| "fifo_input (Put bs # ops) = bs @ fifo_input ops"
| "fifo_input (Take n # ops) = fifo_input ops"

locale byte_fifo =
  fixes inv :: "'b \<Rightarrow> bool"
    and content :: "'b \<Rightarrow> bytes"
    and put :: "bytes \<Rightarrow> 'b \<Rightarrow> 'b"
    and consume :: "nat \<Rightarrow> 'b \<Rightarrow> 'b"
    and fits :: "bytes \<Rightarrow> 'b \<Rightarrow> bool"
  assumes put_back: "inv b \<Longrightarrow> fits bs b \<Longrightarrow> inv (put bs b) \<and> content (put bs b) = content b @ bs"
    and consume_front: "inv b \<Longrightarrow> inv (consume n b) \<and> content (consume n b) = drop n (content b)"
begin

fun fitting :: "fifo_op list \<Rightarrow> 'b \<Rightarrow> bool" where
  "fitting [] b = True"
| "fitting (Put bs # ops) b = (fits bs b \<and> fitting ops (put bs b))"
| "fitting (Take n # ops) b = fitting ops (consume n b)"

lemma order_kept:
  assumes "inv b" "fitting ops b" "fold (fifo_step content put consume) ops (b, out) = (b', out')"
  shows "inv b' \<and> out' @ content b' = out @ content b @ fifo_input ops"
  using assms
proof (induction ops arbitrary: b out)
  case (Cons opn ops)
  show ?case
  proof (cases opn)
    case (Put bs)
    then show ?thesis using Cons.prems put_back [of b bs] Cons.IH [of "put bs b" out]
      by (simp add: fifo_step_def)
  next
    case (Take n)
    then show ?thesis using Cons.prems consume_front [of b n] Cons.IH [of "consume n b" "out @ take n (content b)"]
      by (simp add: fifo_step_def)
  qed
qed simp

end

interpretation vsb: byte_fifo vsb_inv m_data vsb_append move_read_ptr_n "\<lambda>_ _. True"
  by unfold_locales simp_all

lemma vsb_fitting [simp]: "vsb.fitting ops b"
  by (induction ops arbitrary: b rule: fifo_input.induct) simp_all

text \<open>
  C6. Whatever sequence of appends and consumptions a connection's byte queue goes through,
  the bytes consumed so far followed by the bytes still queued are the bytes appended, in
  order: none is lost, repeated or reordered, even when more is consumed than is queued.
\<close>

theorem vec_str_buffer_fifo:
  "case fold (fifo_step m_data vsb_append move_read_ptr_n) ops (vsb_empty, []) of
     (b, out) \<Rightarrow> vsb_inv b \<and> out @ m_data b = fifo_input ops"
  using vsb.order_kept [of vsb_empty ops "[]"] by (auto split: prod.split)

end
