(* ===== verification/Socket.thy ===== *)
theory Socket
  imports Prelude
begin

text \<open>
  The socket wrapper (src/socket/socket.cpp) over an explicit environment. What the kernel or
  the TLS library will answer to the next calls is part of the state: \<open>k_rx\<close> is the script of
  the calls that receive, \<open>k_tx\<close> of the calls that send, \<open>k_hs\<close> of \<^verbatim>\<open>SSL_accept\<close>; \<open>k_wire\<close>
  collects the bytes the kernel has taken and \<open>k_closed\<close> the descriptors given back to it. An
  exhausted script means that nothing is there (yet): the call would block. The close
  callback, which every caller sets to a function without effect, is left out.
\<close>

definition COMM_ERRNO_EINTR :: int where "COMM_ERRNO_EINTR = 4"
definition COMM_ERRNO_EAGAIN :: int where "COMM_ERRNO_EAGAIN = 11"
definition COMM_ERRNO_EWOULDBLOCK :: int where "COMM_ERRNO_EWOULDBLOCK = 11"

text \<open>
  A failing call: \<open>want\<close> is set when the TLS library reports \<^verbatim>\<open>SSL_ERROR_WANT_READ\<close> or
  \<^verbatim>\<open>SSL_ERROR_WANT_WRITE\<close>; \<open>errno\<close> is the value of \<^verbatim>\<open>errno\<close>.
\<close>

datatype rx_event = Rx_data bytes | Rx_eof | Rx_err (rx_want: bool) (rx_errno: int)
datatype tx_event = Tx_accept nat | Tx_zero | Tx_err (tx_want: bool) (tx_errno: int)
datatype hs_event = Hs_done | Hs_zero | Hs_want_read | Hs_want_write | Hs_fail

record socket =
  m_ip :: string
  m_port :: int
  m_sockfd :: int
  m_ssl_instance :: bool
  m_ssl_accepted :: bool
  k_rx :: "rx_event list"
  k_tx :: "tx_event list"
  k_hs :: "hs_event list"
  k_wire :: bytes
  k_closed :: "int list"

definition socket_new :: socket where
  "socket_new = \<lparr>m_ip = [], m_port = 0, m_sockfd = - 1, m_ssl_instance = False, m_ssl_accepted = False,
                 k_rx = [], k_tx = [], k_hs = [], k_wire = [], k_closed = []\<rparr>"

definition socket_new_addr :: "string \<Rightarrow> int \<Rightarrow> socket" where
  "socket_new_addr ip port = socket_new\<lparr>m_ip := ip, m_port := port\<rparr>"

text \<open>
  Move construction and assignment: the descriptor and the TLS state change hands. The result
  is the target and the emptied source.
\<close>

definition socket_move :: "socket \<Rightarrow> socket \<times> socket" where
  "socket_move other =
     (other, other\<lparr>m_ip := [], m_port := 0, m_sockfd := - 1, m_ssl_accepted := False, m_ssl_instance := False\<rparr>)"

definition socket_close :: "socket \<Rightarrow> socket" where
  "socket_close s =
     (let s1 = (if m_ssl_instance s then s\<lparr>m_ssl_instance := False\<rparr> else s);
          s2 = s1\<lparr>m_ssl_accepted := False\<rparr>;
          s3 = (if m_sockfd s2 \<ge> 0
                then s2\<lparr>k_closed := k_closed s2 @ [m_sockfd s2], m_sockfd := - 1\<rparr> else s2)
      in s3\<lparr>m_ip := [], m_port := 0\<rparr>)"

text \<open>
  \<^verbatim>\<open>recv\<close>: the result is the return value, the bytes placed in the buffer, the new value of
  \<^verbatim>\<open>oper_errno\<close> (which keeps its old value unless the code assigns it) and the socket.
\<close>

definition socket_recv :: "nat \<Rightarrow> int \<Rightarrow> socket \<Rightarrow> int \<times> bytes \<times> int \<times> socket" where
  "socket_recv len oper_errno s =
     (if m_ssl_instance s \<and> \<not> m_ssl_accepted s then (- 1, [], oper_errno, s)
      else case k_rx s of
             [] \<Rightarrow> (- 1, [], COMM_ERRNO_EAGAIN, s)
           | Rx_data bs # es \<Rightarrow>
               (if length bs \<le> len then (int (length bs), bs, oper_errno, s\<lparr>k_rx := es\<rparr>)
                else (int len, take len bs, oper_errno, s\<lparr>k_rx := Rx_data (drop len bs) # es\<rparr>))
           | Rx_eof # es \<Rightarrow> (0, [], oper_errno, s)
           | Rx_err want e # es \<Rightarrow>
               (- 1, [], if m_ssl_instance s \<and> want then COMM_ERRNO_EAGAIN else e, s\<lparr>k_rx := es\<rparr>))"

definition socket_send :: "bytes \<Rightarrow> int \<Rightarrow> socket \<Rightarrow> int \<times> int \<times> socket" where
  "socket_send buf oper_errno s =
     (if m_ssl_instance s \<and> \<not> m_ssl_accepted s then (- 1, oper_errno, s)
      else case k_tx s of
             [] \<Rightarrow> (- 1, COMM_ERRNO_EAGAIN, s)
           | Tx_accept k # es \<Rightarrow>
               (int (min k (length buf)), oper_errno, s\<lparr>k_tx := es, k_wire := k_wire s @ take k buf\<rparr>)
           | Tx_zero # es \<Rightarrow> (0, oper_errno, s\<lparr>k_tx := es\<rparr>)
           | Tx_err want e # es \<Rightarrow>
               (- 1, if m_ssl_instance s \<and> want then COMM_ERRNO_EAGAIN else e, s\<lparr>k_tx := es\<rparr>))"

text \<open>\<^verbatim>\<open>SSL_accept\<close> on the socket's TLS object, with \<^verbatim>\<open>SSL_get_error\<close> folded in.\<close>

definition ssl_accept :: "socket \<Rightarrow> hs_event \<times> socket" where
  "ssl_accept s = (case k_hs s of [] \<Rightarrow> (Hs_want_read, s) | h # hs \<Rightarrow> (h, s\<lparr>k_hs := hs\<rparr>))"

definition is_ipv6 :: "string \<Rightarrow> bool" where
  "is_ipv6 ip \<longleftrightarrow> CHR ''.'' \<notin> set ip"

definition set_ssl_instance :: "bool \<Rightarrow> socket \<Rightarrow> socket" where
  "set_ssl_instance i s = s\<lparr>m_ssl_instance := i\<rparr>"

definition set_ssl_accepted :: "bool \<Rightarrow> socket \<Rightarrow> socket" where
  "set_ssl_accepted a s = s\<lparr>m_ssl_accepted := a\<rparr>"

definition socket_set_fd :: "int \<Rightarrow> socket \<Rightarrow> socket" where
  "socket_set_fd f s = s\<lparr>m_sockfd := f\<rparr>"

section \<open>Facts about the calls\<close>

text \<open>The errno values after which a connection is kept.\<close>

definition would_block :: "int \<Rightarrow> bool" where
  "would_block e \<longleftrightarrow> e = COMM_ERRNO_EAGAIN \<or> e = COMM_ERRNO_EINTR \<or> e = COMM_ERRNO_EWOULDBLOCK"

lemma would_block_EAGAIN [simp]: "would_block COMM_ERRNO_EAGAIN"
  by (simp add: would_block_def)

text \<open>Each successful call consumes a step of its script: the measure of the loops.\<close>

fun rx_weight :: "rx_event list \<Rightarrow> nat" where
  "rx_weight [] = 0"
| "rx_weight (Rx_data bs # es) = Suc (length bs) + rx_weight es"
| "rx_weight (e # es) = Suc (rx_weight es)"

text \<open>The bytes that a script of receiving calls still holds.\<close>

fun rx_bytes :: "rx_event list \<Rightarrow> bytes" where
  "rx_bytes [] = []"
| "rx_bytes (Rx_data bs # es) = bs @ rx_bytes es"
| "rx_bytes (e # es) = rx_bytes es"

lemma socket_recv_bytes:
  assumes "socket_recv len e s = (n, bs, e', s')"
  shows "bs @ rx_bytes (k_rx s') = rx_bytes (k_rx s)" "n \<le> 0 \<Longrightarrow> bs = []"
  using assms by (cases "k_rx s"; cases "hd (k_rx s)"; auto simp: socket_recv_def split: if_splits)+

lemma socket_recv_decreases:
  assumes "socket_recv len e s = (n, bs, e', s')" "0 < n \<or> (n = - 1 \<and> k_rx s' \<noteq> k_rx s)" "0 < len"
  shows "rx_weight (k_rx s') < rx_weight (k_rx s)"
  using assms
  by (cases "k_rx s"; cases "hd (k_rx s)") (auto simp: socket_recv_def split: if_splits)

lemma socket_recv_facts:
  assumes "socket_recv len e s = (n, bs, e', s')"
  shows "n = int (length bs) \<or> n = - 1 \<and> bs = []" "length bs \<le> len"
    "m_sockfd s' = m_sockfd s" "m_ssl_instance s' = m_ssl_instance s" "m_ssl_accepted s' = m_ssl_accepted s"
    "k_closed s' = k_closed s" "k_wire s' = k_wire s" "k_tx s' = k_tx s" "k_hs s' = k_hs s"
  using assms
  by (cases "k_rx s"; cases "hd (k_rx s)"; auto simp: socket_recv_def split: if_splits)+

lemma socket_send_facts:
  assumes "socket_send buf e s = (n, e', s')"
  shows "k_wire s' @ drop (nat n) buf = k_wire s @ buf" "n \<le> int (length buf)" "- 1 \<le> n"
    "m_sockfd s' = m_sockfd s" "m_ssl_instance s' = m_ssl_instance s" "m_ssl_accepted s' = m_ssl_accepted s"
    "k_closed s' = k_closed s" "k_rx s' = k_rx s" "k_hs s' = k_hs s"
  using assms
  by (cases "k_tx s"; cases "hd (k_tx s)"; auto simp: socket_send_def min_def split: if_splits)+

lemma socket_send_decreases:
  "socket_send buf e s = (n, e', s') \<Longrightarrow> 0 < n \<Longrightarrow> length (k_tx s') < length (k_tx s)"
  by (cases "k_tx s"; cases "hd (k_tx s)") (auto simp: socket_send_def split: if_splits)

lemma socket_close_facts [simp]:
  "m_sockfd (socket_close s) = - 1 \<or> m_sockfd (socket_close s) = m_sockfd s"
  "m_ssl_instance (socket_close s) = False" "m_ssl_accepted (socket_close s) = False"
  "k_closed (socket_close s) = (if m_sockfd s \<ge> 0 then k_closed s @ [m_sockfd s] else k_closed s)"
  by (auto simp: socket_close_def Let_def)

lemma socket_close_fd: "0 \<le> m_sockfd s \<Longrightarrow> m_sockfd (socket_close s) = - 1"
  by (simp add: socket_close_def Let_def)

end
