(* ===== verification/Connection.thy ===== *)
theory Connection
  imports Vec_Str_Buffer Socket
begin

text \<open>
  One pooled connection (src/connection/connection.cpp). The task context is a type parameter:
  a worker serves connections of one task type. The traffic records, whose code is compiled out,
  are not modelled.
\<close>

record 'c connection =
  recv_buffer :: vec_str_buffer
  send_buffer :: vec_str_buffer
  fd :: int
  gid :: u64
  socket_obj :: socket
  ctx_ptr :: "'c option"
  closed_flag :: bool
  is_close :: bool
  is_ready :: bool

definition connection_new :: "'c connection" where
  "connection_new =
     \<lparr>recv_buffer = vsb_reserve (10 * 1024) vsb_empty,
      send_buffer = vsb_reserve (10 * 1024) vsb_empty,
      fd = - 1, gid = 0, socket_obj = socket_new, ctx_ptr = None,
      closed_flag = False, is_close = False, is_ready = False\<rparr>"

definition on_alloc :: "int \<Rightarrow> u64 \<Rightarrow> 'c connection \<Rightarrow> 'c connection" where
  "on_alloc f g c =
     c\<lparr>recv_buffer := vsb_clear (recv_buffer c), send_buffer := vsb_clear (send_buffer c),
       fd := f, gid := g, closed_flag := False, is_close := False, is_ready := False\<rparr>"

text \<open>\<open>ctx_on_close\<close> is the virtual \<^verbatim>\<open>on_close\<close> of the context.\<close>

definition on_release :: "('c \<Rightarrow> 'c) \<Rightarrow> 'c connection \<Rightarrow> 'c connection" where
  "on_release ctx_on_close c =
     (let c1 = (case ctx_ptr c of None \<Rightarrow> c | Some x \<Rightarrow> c\<lparr>ctx_ptr := Some (ctx_on_close x)\<rparr>)
      in c1\<lparr>recv_buffer := vsb_clear (recv_buffer c1), send_buffer := vsb_clear (send_buffer c1),
            socket_obj := socket_close (socket_obj c1), closed_flag := True, fd := - 1, gid := 0,
            is_close := False, is_ready := False\<rparr>)"

lemma on_alloc_simps [simp]:
  "fd (on_alloc f g c) = f" "gid (on_alloc f g c) = g"
  "m_data (recv_buffer (on_alloc f g c)) = []" "m_data (send_buffer (on_alloc f g c)) = []"
  "closed_flag (on_alloc f g c) = False" "is_close (on_alloc f g c) = False" "is_ready (on_alloc f g c) = False"
  "ctx_ptr (on_alloc f g c) = ctx_ptr c" "socket_obj (on_alloc f g c) = socket_obj c"
  by (simp_all add: on_alloc_def)

lemma on_release_simps [simp]:
  "fd (on_release h c) = - 1" "gid (on_release h c) = 0"
  "m_data (recv_buffer (on_release h c)) = []" "m_data (send_buffer (on_release h c)) = []"
  "closed_flag (on_release h c) = True" "is_close (on_release h c) = False" "is_ready (on_release h c) = False"
  "ctx_ptr (on_release h c) = map_option h (ctx_ptr c)"
  "socket_obj (on_release h c) = socket_close (socket_obj c)"
  by (simp_all add: on_release_def Let_def split: option.splits)

lemma buffer_upd_eq:
  "c\<lparr>send_buffer := h (send_buffer c)\<rparr> = send_buffer_update h c"
  "c\<lparr>recv_buffer := h (recv_buffer c)\<rparr> = recv_buffer_update h c"
  by (cases c; simp)+

end
