(* ===== verification/Connection_Mgr.thy ===== *)
theory Connection_Mgr
  imports Connection
begin

text \<open>
  The connection pool (src/connection/connection\_mgr.cpp): an array of connections, three maps
  that name the live ones by descriptor and by global id, and the sets of used and free
  slots. The order in which a hash set yields its elements is not specified: the slot that
  \<^verbatim>\<open>begin()\<close> gives is the argument \<open>pick\<close>.
\<close>

record 'c connection_mgr =
  connection_pool :: "'c connection list option"
  fd2gid :: "int \<rightharpoonup> u64"
  gid2fd :: "u64 \<rightharpoonup> int"
  gid2index :: "u64 \<rightharpoonup> nat"
  using_set :: "nat set"
  unused_set :: "nat set"

definition mgr_new :: "'c connection_mgr" where
  "mgr_new = \<lparr>connection_pool = None, fd2gid = Map.empty, gid2fd = Map.empty, gid2index = Map.empty,
              using_set = {}, unused_set = {}\<rparr>"

text \<open>\<^verbatim>\<open>init\<close>: an allocation failure is the flag \<open>oom\<close>.\<close>

definition mgr_init :: "bool \<Rightarrow> nat \<Rightarrow> 'c connection_mgr \<Rightarrow> int \<times> 'c connection_mgr" where
  "mgr_init oom capacity m =
     (if oom then (- 1, m)
      else (0, m\<lparr>connection_pool := Some (replicate (capacity + 1) connection_new),
                 unused_set := unused_set m \<union> {..<capacity + 1}\<rparr>))"

definition alloc_connection ::
    "(nat set \<Rightarrow> nat) \<Rightarrow> int \<Rightarrow> u64 \<Rightarrow> 'c connection_mgr \<Rightarrow> int \<times> 'c connection_mgr" where
  "alloc_connection pick f g m =
     (case connection_pool m of
        None \<Rightarrow> (- 1, m)
      | Some pool \<Rightarrow>
          if fd2gid m f \<noteq> None then (- 2, m)
          else if gid2fd m g \<noteq> None then (- 3, m)
          else if gid2index m g \<noteq> None then (- 4, m)
          else if unused_set m = {} then (- 5, m)
          else
            (let new_index = pick (unused_set m)
             in (0, m\<lparr>unused_set := unused_set m - {new_index},
                      using_set := insert new_index (using_set m),
                      fd2gid := (fd2gid m)(f \<mapsto> g),
                      gid2fd := (gid2fd m)(g \<mapsto> f),
                      gid2index := (gid2index m)(g \<mapsto> new_index),
                      connection_pool := Some (pool[new_index := on_alloc f g (pool ! new_index)])\<rparr>)))"

definition release_connection ::
    "('c \<Rightarrow> 'c) \<Rightarrow> int \<Rightarrow> 'c connection_mgr \<Rightarrow> int \<times> 'c connection_mgr" where
  "release_connection ctx_on_close f m =
     (case fd2gid m f of
        None \<Rightarrow> (- 1, m)
      | Some g \<Rightarrow>
          (case gid2fd m g of
             None \<Rightarrow> (- 2, m)
           | Some _ \<Rightarrow>
               (case gid2index m g of
                  None \<Rightarrow> (- 3, m)
                | Some index \<Rightarrow>
                    (0, m\<lparr>fd2gid := (fd2gid m)(f := None),
                          gid2fd := (gid2fd m)(g := None),
                          gid2index := (gid2index m)(g := None),
                          using_set := using_set m - {index},
                          unused_set := insert index (unused_set m),
                          connection_pool :=
                            map_option (\<lambda>pool. pool[index := on_release ctx_on_close (pool ! index)])
                              (connection_pool m)\<rparr>))))"

text \<open>
  The lookups return a pointer into the pool: the model returns the slot number. A null pool
  with a live id cannot be dereferenced; the model returns no slot then.
\<close>

definition get_conn :: "int \<Rightarrow> 'c connection_mgr \<Rightarrow> nat option" where
  "get_conn f m =
     (case fd2gid m f of
        None \<Rightarrow> None
      | Some g \<Rightarrow> gid2index m g)"

definition get_conn_by_gid :: "u64 \<Rightarrow> 'c connection_mgr \<Rightarrow> nat option" where
  "get_conn_by_gid g m = gid2index m g"

definition live_count :: "'c connection_mgr \<Rightarrow> nat" where
  "live_count m = card (using_set m)"

definition pool_capacity :: "'c connection_mgr \<Rightarrow> nat" where
  "pool_capacity m = card (unused_set m) + card (using_set m)"

definition get_conn_by_idx :: "nat \<Rightarrow> 'c connection_mgr \<Rightarrow> nat option" where
  "get_conn_by_idx idx m =
     (if idx \<ge> pool_capacity m then None
      else case connection_pool m of None \<Rightarrow> None | Some _ \<Rightarrow> Some idx)"

text \<open>Reading and writing through such a pointer.\<close>

definition conn_at :: "nat \<Rightarrow> 'c connection_mgr \<Rightarrow> 'c connection" where
  "conn_at i m = the (connection_pool m) ! i"

definition upd_conn :: "nat \<Rightarrow> ('c connection \<Rightarrow> 'c connection) \<Rightarrow> 'c connection_mgr \<Rightarrow> 'c connection_mgr" where
  "upd_conn i h m = m\<lparr>connection_pool := map_option (\<lambda>pool. pool[i := h (pool ! i)]) (connection_pool m)\<rparr>"

section \<open>The invariant\<close>

definition mgr_inv :: "'c connection_mgr \<Rightarrow> bool" where
  "mgr_inv m \<longleftrightarrow>
     (\<exists>pool. connection_pool m = Some pool \<and>
        using_set m \<inter> unused_set m = {} \<and> using_set m \<union> unused_set m = {..<length pool} \<and>
        (\<forall>f g. fd2gid m f = Some g \<longleftrightarrow> gid2fd m g = Some f) \<and>
        dom (gid2index m) = dom (gid2fd m) \<and>
        inj_on (gid2index m) (dom (gid2index m)) \<and>
        ran (gid2index m) = using_set m \<and>
        (\<forall>g i. gid2index m g = Some i \<longrightarrow> gid (pool ! i) = g \<and> gid2fd m g = Some (fd (pool ! i))) \<and>
        (\<forall>i\<in>unused_set m. fd (pool ! i) = - 1 \<and> m_data (recv_buffer (pool ! i)) = [] \<and>
                           m_data (send_buffer (pool ! i)) = []))"

lemma mgr_invI:
  assumes "connection_pool m = Some pool"
    "using_set m \<inter> unused_set m = {}" "using_set m \<union> unused_set m = {..<length pool}"
    "\<And>f g. fd2gid m f = Some g \<longleftrightarrow> gid2fd m g = Some f" "dom (gid2index m) = dom (gid2fd m)"
    "inj_on (gid2index m) (dom (gid2index m))" "ran (gid2index m) = using_set m"
    "\<And>g i. gid2index m g = Some i \<Longrightarrow> gid (pool ! i) = g \<and> gid2fd m g = Some (fd (pool ! i))"
    "\<And>i. i \<in> unused_set m \<Longrightarrow>
         fd (pool ! i) = - 1 \<and> m_data (recv_buffer (pool ! i)) = [] \<and> m_data (send_buffer (pool ! i)) = []"
  shows "mgr_inv m"
  using assms unfolding mgr_inv_def by (intro exI [of _ pool]) blast

lemma mgr_invE:
  assumes "mgr_inv m"
  obtains pool where "connection_pool m = Some pool"
    "using_set m \<inter> unused_set m = {}" "using_set m \<union> unused_set m = {..<length pool}"
    "\<And>f g. fd2gid m f = Some g \<longleftrightarrow> gid2fd m g = Some f" "dom (gid2index m) = dom (gid2fd m)"
    "inj_on (gid2index m) (dom (gid2index m))" "ran (gid2index m) = using_set m"
    "\<And>g i. gid2index m g = Some i \<Longrightarrow> gid (pool ! i) = g \<and> gid2fd m g = Some (fd (pool ! i))"
    "\<And>i. i \<in> unused_set m \<Longrightarrow>
         fd (pool ! i) = - 1 \<and> m_data (recv_buffer (pool ! i)) = [] \<and> m_data (send_buffer (pool ! i)) = []"
  using assms unfolding mgr_inv_def by blast

lemma mgr_inv_init: "mgr_inv (snd (mgr_init False n mgr_new))"
  by (auto simp: mgr_inv_def mgr_init_def mgr_new_def connection_new_def simp del: replicate_Suc)

text \<open>The registry the pool implements: the map from descriptor to global id.\<close>

definition mgr_abs :: "'c connection_mgr \<Rightarrow> int \<rightharpoonup> u64" where
  "mgr_abs m = fd2gid m"

lemma mgr_inv_finite: "mgr_inv m \<Longrightarrow> finite (using_set m) \<and> finite (unused_set m)"
  unfolding mgr_inv_def by (metis finite_Un finite_lessThan)

lemma pool_capacity_length:
  "mgr_inv m \<Longrightarrow> connection_pool m = Some pool \<Longrightarrow> pool_capacity m = length pool"
  using mgr_inv_finite [of m] card_Un_disjoint [of "using_set m" "unused_set m"]
  by (auto simp: mgr_inv_def pool_capacity_def)

text \<open>All that the code may rely on: \<^verbatim>\<open>begin()\<close> of a non-empty set is an element of it.\<close>

definition picks :: "(nat set \<Rightarrow> nat) \<Rightarrow> bool" where
  "picks pick \<longleftrightarrow> (\<forall>S. finite S \<and> S \<noteq> {} \<longrightarrow> pick S \<in> S)"

lemma picks_Min: "picks Min"
  by (simp add: picks_def)

lemma alloc_ok:
  assumes "mgr_inv m" "picks pick" "fd2gid m f = None" "gid2fd m g = None" "unused_set m \<noteq> {}"
  shows "mgr_inv (snd (alloc_connection pick f g m))" "fst (alloc_connection pick f g m) = 0"
    "fd2gid (snd (alloc_connection pick f g m)) = (fd2gid m)(f \<mapsto> g)"
    "gid2index (snd (alloc_connection pick f g m)) = (gid2index m)(g \<mapsto> pick (unused_set m))"
    "pick (unused_set m) \<in> unused_set m"
proof -
  obtain pool where pool: "connection_pool m = Some pool"
    "using_set m \<inter> unused_set m = {}" "using_set m \<union> unused_set m = {..<length pool}"
    "\<And>f g. fd2gid m f = Some g \<longleftrightarrow> gid2fd m g = Some f" "dom (gid2index m) = dom (gid2fd m)"
    "inj_on (gid2index m) (dom (gid2index m))" "ran (gid2index m) = using_set m"
    "\<And>g i. gid2index m g = Some i \<Longrightarrow> gid (pool ! i) = g \<and> gid2fd m g = Some (fd (pool ! i))"
    "\<And>i. i \<in> unused_set m \<Longrightarrow>
         fd (pool ! i) = - 1 \<and> m_data (recv_buffer (pool ! i)) = [] \<and> m_data (send_buffer (pool ! i)) = []"
    using assms(1) by (rule mgr_invE) (rule that)
  define i where "i = pick (unused_set m)"
  have i: "i \<in> unused_set m" using assms(2,5) mgr_inv_finite [OF assms(1)] by (simp add: i_def picks_def)
  have none: "gid2index m g = None" using pool(5) assms(4) by blast
  have a: "alloc_connection pick f g m =
      (0, m\<lparr>unused_set := unused_set m - {i}, using_set := insert i (using_set m),
            fd2gid := (fd2gid m)(f \<mapsto> g), gid2fd := (gid2fd m)(g \<mapsto> f), gid2index := (gid2index m)(g \<mapsto> i),
            connection_pool := Some (pool[i := on_alloc f g (pool ! i)])\<rparr>)"
    using pool(1) none assms(3-5) by (simp add: alloc_connection_def i_def Let_def)
  then show "fst (alloc_connection pick f g m) = 0"
    "fd2gid (snd (alloc_connection pick f g m)) = (fd2gid m)(f \<mapsto> g)"
    "gid2index (snd (alloc_connection pick f g m)) = (gid2index m)(g \<mapsto> pick (unused_set m))"
    by (simp_all add: i_def)
  show "pick (unused_set m) \<in> unused_set m" using i by (simp add: i_def)
  have lt: "i < length pool" using i pool(3) by blast
  have nr: "i \<notin> ran (gid2index m)" using i pool(2,7) by blast
  then have ne: "gid2index m h \<noteq> Some i" for h by (auto simp: ran_def)
  have bij: "((fd2gid m)(f \<mapsto> g)) x = Some y \<longleftrightarrow> ((gid2fd m)(g \<mapsto> f)) y = Some x" for x y
    using pool(4) [of x y] assms(3,4) pool(4) [of f y] pool(4) [of x g] by auto
  have inj: "inj_on ((gid2index m)(g \<mapsto> i)) (dom ((gid2index m)(g \<mapsto> i)))"
    using pool(6) ne none by (auto simp: inj_on_def dom_def)
  have slot: "gid (pool[i := on_alloc f g (pool ! i)] ! j) = h \<and>
      ((gid2fd m)(g \<mapsto> f)) h = Some (fd (pool[i := on_alloc f g (pool ! i)] ! j))"
    if "((gid2index m)(g \<mapsto> i)) h = Some j" for h j
    using that lt ne [of h] pool(8) [of h j] by (auto simp: nth_list_update split: if_splits)
  show "mgr_inv (snd (alloc_connection pick f g m))"
    unfolding a by (rule mgr_invI) (use bij inj slot pool(2,3,5,7,9) i none lt in \<open>auto simp: map_upd_None_dom\<close>)
qed

lemma release_ok:
  assumes "mgr_inv m" "fd2gid m f = Some g"
  shows "mgr_inv (snd (release_connection h f m))" "fst (release_connection h f m) = 0"
    "fd2gid (snd (release_connection h f m)) = (fd2gid m)(f := None)"
    "gid2index (snd (release_connection h f m)) = (gid2index m)(g := None)"
proof -
  obtain pool where pool: "connection_pool m = Some pool"
    "using_set m \<inter> unused_set m = {}" "using_set m \<union> unused_set m = {..<length pool}"
    "\<And>f g. fd2gid m f = Some g \<longleftrightarrow> gid2fd m g = Some f" "dom (gid2index m) = dom (gid2fd m)"
    "inj_on (gid2index m) (dom (gid2index m))" "ran (gid2index m) = using_set m"
    "\<And>g i. gid2index m g = Some i \<Longrightarrow> gid (pool ! i) = g \<and> gid2fd m g = Some (fd (pool ! i))"
    "\<And>i. i \<in> unused_set m \<Longrightarrow>
         fd (pool ! i) = - 1 \<and> m_data (recv_buffer (pool ! i)) = [] \<and> m_data (send_buffer (pool ! i)) = []"
    using assms(1) by (rule mgr_invE) (rule that)
  have gf: "gid2fd m g = Some f" using assms(2) pool(4) by simp
  then obtain i where i: "gid2index m g = Some i" using pool(5) by blast
  then have used: "i \<in> using_set m" using pool(7) by (auto simp: ran_def)
  have a: "release_connection h f m =
      (0, m\<lparr>fd2gid := (fd2gid m)(f := None), gid2fd := (gid2fd m)(g := None), gid2index := (gid2index m)(g := None),
            using_set := using_set m - {i}, unused_set := insert i (unused_set m),
            connection_pool := Some (pool[i := on_release h (pool ! i)])\<rparr>)"
    using assms(2) gf i pool(1) by (simp add: release_connection_def)
  then show "fst (release_connection h f m) = 0"
    "fd2gid (snd (release_connection h f m)) = (fd2gid m)(f := None)"
    "gid2index (snd (release_connection h f m)) = (gid2index m)(g := None)" by simp_all
  have lt: "i < length pool" using used pool(3) by blast
  have only: "k = g" if "gid2index m k = Some i" for k
    using inj_onD [OF pool(6), of k g] that i by (simp add: domI)
  have bij: "((fd2gid m)(f := None)) x = Some y \<longleftrightarrow> ((gid2fd m)(g := None)) y = Some x" for x y
    using pool(4) [of x y] pool(4) [of f y] pool(4) [of x g] gf assms(2) by (auto split: if_splits)
  have inj: "inj_on ((gid2index m)(g := None)) (dom ((gid2index m)(g := None)))"
    by (rule inj_onI) (use inj_onD [OF pool(6)] in \<open>auto split: if_splits\<close>)
  have ran: "ran ((gid2index m)(g := None)) = using_set m - {i}"
  proof (intro set_eqI iffI)
    fix x assume "x \<in> ran ((gid2index m)(g := None))"
    then obtain k where "k \<noteq> g" "gid2index m k = Some x" by (auto simp: ran_def split: if_splits)
    then show "x \<in> using_set m - {i}" using only [of k] pool(7) by (auto intro: ranI)
  next
    fix x assume "x \<in> using_set m - {i}"
    then obtain k where "gid2index m k = Some x" "x \<noteq> i" unfolding pool(7) [symmetric] ran_def by blast
    then show "x \<in> ran ((gid2index m)(g := None))" using i by (intro ranI [of _ k]) auto
  qed
  have slot: "gid (pool[i := on_release h (pool ! i)] ! j) = k \<and>
      ((gid2fd m)(g := None)) k = Some (fd (pool[i := on_release h (pool ! i)] ! j))"
    if "((gid2index m)(g := None)) k = Some j" for k j
  proof -
    have "k \<noteq> g" "gid2index m k = Some j" using that by (auto split: if_splits)
    moreover from this have "i \<noteq> j" using only by blast
    ultimately show ?thesis using pool(8) [of k j] by simp
  qed
  show "mgr_inv (snd (release_connection h f m))"
  proof -
    have free: "fd (pool[i := on_release h (pool ! i)] ! j) = - 1 \<and>
        m_data (recv_buffer (pool[i := on_release h (pool ! i)] ! j)) = [] \<and>
        m_data (send_buffer (pool[i := on_release h (pool ! i)] ! j)) = []" if "j \<in> insert i (unused_set m)" for j
      using that pool(9) [of j] lt by (cases "j = i") auto
    have sets: "(using_set m - {i}) \<inter> insert i (unused_set m) = {}"
        "(using_set m - {i}) \<union> insert i (unused_set m) = {..<length pool}"
      using pool(2,3) used lt by auto
    have dom: "dom ((gid2index m)(g := None)) = dom ((gid2fd m)(g := None))" using pool(5) by simp
    show ?thesis unfolding a
    proof (rule mgr_invI [where pool = "pool[i := on_release h (pool ! i)]"], goal_cases)
      case (4 x y) show ?case using bij [of x y] by simp
    next
      case 6 show ?case using inj by simp
    next
      case 7 show ?case using ran by simp
    next
      case (8 k j) then show ?case using slot [of k j] by simp
    next
      case (9 j) then show ?case using free [of j] by simp
    qed (use sets dom in simp_all)
  qed
qed

text \<open>Writing through a pointer, anything but the identity of the connection.\<close>

lemma upd_conn_maps [simp]:
  "fd2gid (upd_conn i h m) = fd2gid m" "gid2fd (upd_conn i h m) = gid2fd m"
  "gid2index (upd_conn i h m) = gid2index m" "using_set (upd_conn i h m) = using_set m"
  "unused_set (upd_conn i h m) = unused_set m"
  by (simp_all add: upd_conn_def)

lemma mgr_inv_used:
  "mgr_inv m \<Longrightarrow> i \<in> using_set m \<Longrightarrow> \<exists>pool. connection_pool m = Some pool \<and> i < length pool \<and> i \<notin> unused_set m"
  unfolding mgr_inv_def by blast

lemma conn_at_upd:
  "mgr_inv m \<Longrightarrow> i \<in> using_set m \<Longrightarrow> conn_at j (upd_conn i h m) = (if i = j then h (conn_at i m) else conn_at j m)"
  using mgr_inv_used [of m i] by (auto simp: conn_at_def upd_conn_def)

lemma upd_conn_inv:
  assumes "mgr_inv m" "fd (h (conn_at i m)) = fd (conn_at i m)" "gid (h (conn_at i m)) = gid (conn_at i m)"
    "i \<in> using_set m"
  shows "mgr_inv (upd_conn i h m)"
proof -
  obtain pool where pool: "connection_pool m = Some pool" "i < length pool" "i \<notin> unused_set m"
    using mgr_inv_used [OF assms(1,4)] by blast
  have same: "fd (pool[i := h (pool ! i)] ! j) = fd (pool ! j)" "gid (pool[i := h (pool ! i)] ! j) = gid (pool ! j)" for j
    using assms(2,3) pool by (cases "i = j"; simp add: conn_at_def)+
  have free: "pool[i := h (pool ! i)] ! j = pool ! j" if "j \<in> unused_set m" for j
    using that pool(3) by (cases "i = j") auto
  show ?thesis
    using assms(1)
  proof (rule mgr_invE)
    fix pool'
    assume p: "connection_pool m = Some pool'"
    then have "pool' = pool" using pool(1) by simp
    assume "using_set m \<inter> unused_set m = {}" "using_set m \<union> unused_set m = {..<length pool'}"
      "\<And>f g. fd2gid m f = Some g \<longleftrightarrow> gid2fd m g = Some f" "dom (gid2index m) = dom (gid2fd m)"
      "inj_on (gid2index m) (dom (gid2index m))" "ran (gid2index m) = using_set m"
      "\<And>g i. gid2index m g = Some i \<Longrightarrow> gid (pool' ! i) = g \<and> gid2fd m g = Some (fd (pool' ! i))"
      "\<And>i. i \<in> unused_set m \<Longrightarrow>
         fd (pool' ! i) = - 1 \<and> m_data (recv_buffer (pool' ! i)) = [] \<and> m_data (send_buffer (pool' ! i)) = []"
    then show ?thesis unfolding \<open>pool' = pool\<close>
      by (intro mgr_invI [where pool = "pool[i := h (pool ! i)]"])
        (use pool(1) same free in \<open>simp_all add: upd_conn_def\<close>)
  qed
qed

lemma upd_conn_upd_conn:
  assumes "mgr_inv m" "i \<in> using_set m"
  shows "upd_conn i h (upd_conn i k m) = upd_conn i (h \<circ> k) m"
  using mgr_inv_used [OF assms] by (auto simp: upd_conn_def)

lemma upd_conn_id:
  assumes "mgr_inv m" "i \<in> using_set m" "h (conn_at i m) = conn_at i m"
  shows "upd_conn i h m = m"
  using mgr_inv_used [OF assms(1,2)] assms(3) by (auto simp: upd_conn_def conn_at_def)

section \<open>Lookups\<close>

lemma get_conn_facts:
  assumes "mgr_inv m" "get_conn f m = Some i"
  shows "i \<in> using_set m" "fd (conn_at i m) = f" "fd2gid m f = Some (gid (conn_at i m))"
    "get_conn_by_gid (gid (conn_at i m)) m = Some i" "get_conn_by_idx i m = Some i"
proof -
  obtain g where g: "fd2gid m f = Some g" "gid2index m g = Some i"
    using assms(2) by (auto simp: get_conn_def split: option.splits)
  with assms(1) have *: "gid (conn_at i m) = g" "gid2fd m g = Some (fd (conn_at i m))" "gid2fd m g = Some f"
    by (auto simp: mgr_inv_def conn_at_def)
  then show "fd (conn_at i m) = f" "fd2gid m f = Some (gid (conn_at i m))"
    "get_conn_by_gid (gid (conn_at i m)) m = Some i" using g by (simp_all add: get_conn_by_gid_def)
  show "i \<in> using_set m" using assms(1) g(2) by (auto simp: mgr_inv_def ran_def)
  then show "get_conn_by_idx i m = Some i"
    using mgr_inv_used [OF assms(1), of i] pool_capacity_length [OF assms(1)]
    by (fastforce simp: get_conn_by_idx_def)
qed

lemma get_conn_iff: "mgr_inv m \<Longrightarrow> get_conn f m = None \<longleftrightarrow> fd2gid m f = None"
  unfolding get_conn_def mgr_inv_def by (cases "fd2gid m f") (auto simp: domIff dest: domI)

lemma using_get_conn:
  assumes "mgr_inv m" "i \<in> using_set m"
  shows "get_conn (fd (conn_at i m)) m = Some i"
proof -
  have "i \<in> ran (gid2index m)" using assms unfolding mgr_inv_def by blast
  then obtain g where g: "gid2index m g = Some i" by (auto simp: ran_def)
  then have "gid2fd m g = Some (fd (conn_at i m))" using assms(1) by (auto simp: mgr_inv_def conn_at_def)
  then have "fd2gid m (fd (conn_at i m)) = Some g" using assms(1) unfolding mgr_inv_def by blast
  then show ?thesis using g by (simp add: get_conn_def)
qed

section \<open>The interface: a bounded registry of connections\<close>

datatype reg_op = Alloc int u64 | Release int

definition reg_step ::
    "(int \<Rightarrow> u64 \<Rightarrow> 'm \<Rightarrow> int \<times> 'm) \<Rightarrow> (int \<Rightarrow> 'm \<Rightarrow> int \<times> 'm) \<Rightarrow> reg_op \<Rightarrow> 'm \<times> int list \<Rightarrow> 'm \<times> int list" where
  "reg_step alloc release opn st =
     (case opn of
        Alloc f g \<Rightarrow> (snd (alloc f g (fst st)), snd st @ [fst (alloc f g (fst st))])
      | Release f \<Rightarrow> (snd (release f (fst st)), snd st @ [fst (release f (fst st))]))"

text \<open>What the registry promises: the return codes and the map from descriptor to id.\<close>

definition spec_alloc :: "nat \<Rightarrow> int \<Rightarrow> u64 \<Rightarrow> (int \<rightharpoonup> u64) \<Rightarrow> int \<times> (int \<rightharpoonup> u64)" where
  "spec_alloc cap f g r =
     (if f \<in> dom r then (- 2, r)
      else if g \<in> ran r then (- 3, r)
      else if card (dom r) \<ge> cap then (- 5, r)
      else (0, r(f \<mapsto> g)))"

definition spec_release :: "int \<Rightarrow> (int \<rightharpoonup> u64) \<Rightarrow> int \<times> (int \<rightharpoonup> u64)" where
  "spec_release f r = (if f \<in> dom r then (0, r(f := None)) else (- 1, r))"

locale conn_registry =
  fixes inv :: "'m \<Rightarrow> bool"
    and abs :: "'m \<Rightarrow> int \<rightharpoonup> u64"
    and cap :: "'m \<Rightarrow> nat"
    and alloc :: "int \<Rightarrow> u64 \<Rightarrow> 'm \<Rightarrow> int \<times> 'm"
    and release :: "int \<Rightarrow> 'm \<Rightarrow> int \<times> 'm"
  assumes alloc_refines: "inv m \<Longrightarrow> inv (snd (alloc f g m)) \<and> cap (snd (alloc f g m)) = cap m \<and>
              spec_alloc (cap m) f g (abs m) = (fst (alloc f g m), abs (snd (alloc f g m)))"
    and release_refines: "inv m \<Longrightarrow> inv (snd (release f m)) \<and> cap (snd (release f m)) = cap m \<and>
              spec_release f (abs m) = (fst (release f m), abs (snd (release f m)))"
begin

lemma step_refines:
  "inv m \<Longrightarrow>
   inv (fst (reg_step alloc release opn (m, cs))) \<and> cap (fst (reg_step alloc release opn (m, cs))) = cap m \<and>
   reg_step (spec_alloc (cap m)) spec_release opn (abs m, cs) =
     (abs (fst (reg_step alloc release opn (m, cs))), snd (reg_step alloc release opn (m, cs)))"
  using alloc_refines release_refines
  by (cases opn) (simp_all add: reg_step_def)

lemma history_refines:
  "inv m \<Longrightarrow>
   inv (fst (fold (reg_step alloc release) ops (m, cs))) \<and>
   fold (reg_step (spec_alloc (cap m)) spec_release) ops (abs m, cs) =
     (abs (fst (fold (reg_step alloc release) ops (m, cs))), snd (fold (reg_step alloc release) ops (m, cs)))"
proof (induction ops arbitrary: m cs)
  case (Cons opn ops)
  obtain m' cs' where st: "reg_step alloc release opn (m, cs) = (m', cs')" by fastforce
  from step_refines [OF Cons.prems, of opn cs] st
  have "inv m'" "cap m' = cap m" "reg_step (spec_alloc (cap m)) spec_release opn (abs m, cs) = (abs m', cs')" by simp_all
  then show ?case using Cons.IH [of m' cs'] st by simp
qed simp

end

lemma mgr_live_card: "mgr_inv m \<Longrightarrow> card (dom (fd2gid m)) = card (using_set m)"
proof -
  assume inv: "mgr_inv m"
  then obtain pool where pool: "connection_pool m = Some pool"
    "\<And>f g. fd2gid m f = Some g \<longleftrightarrow> gid2fd m g = Some f" "dom (gid2index m) = dom (gid2fd m)"
    "inj_on (gid2index m) (dom (gid2index m))" "ran (gid2index m) = using_set m"
    unfolding mgr_inv_def by blast
  have "bij_betw (\<lambda>f. the (get_conn f m)) (dom (fd2gid m)) (using_set m)"
    unfolding bij_betw_def
  proof
    show "inj_on (\<lambda>f. the (get_conn f m)) (dom (fd2gid m))"
      by (rule inj_onI) (metis inv domIff get_conn_iff get_conn_facts(2) option.collapse)
    show "(\<lambda>f. the (get_conn f m)) ` dom (fd2gid m) = using_set m"
    proof (intro set_eqI iffI)
      fix i assume "i \<in> (\<lambda>f. the (get_conn f m)) ` dom (fd2gid m)"
      then show "i \<in> using_set m"
        by (metis (no_types, lifting) inv domIff get_conn_iff get_conn_facts(1) imageE option.collapse)
    next
      fix i assume "i \<in> using_set m"
      then obtain g where g: "gid2index m g = Some i" unfolding pool(5) [symmetric] ran_def by blast
      then have "g \<in> dom (gid2fd m)" using pool(3) by blast
      then obtain f where "fd2gid m f = Some g" using pool(2) by blast
      then show "i \<in> (\<lambda>f. the (get_conn f m)) ` dom (fd2gid m)"
        using g by (intro image_eqI [of _ _ f]) (auto simp: get_conn_def)
    qed
  qed
  then show ?thesis by (rule bij_betw_same_card)
qed

lemma mgr_full_iff: "mgr_inv m \<Longrightarrow> unused_set m = {} \<longleftrightarrow> pool_capacity m \<le> card (dom (fd2gid m))"
  using mgr_inv_finite [of m] by (auto simp: mgr_live_card pool_capacity_def)

lemma mgr_gid_fresh:
  assumes "mgr_inv m"
  shows "gid2fd m g = None \<longleftrightarrow> g \<notin> ran (fd2gid m)"
proof -
  have "fd2gid m f = Some g \<longleftrightarrow> gid2fd m g = Some f" for f
    using assms unfolding mgr_inv_def by blast
  then show ?thesis by (cases "gid2fd m g") (auto simp: ran_def)
qed

lemma mgr_capacity_kept:
  assumes "mgr_inv m" "mgr_inv m'" "length (the (connection_pool m')) = length (the (connection_pool m))"
  shows "pool_capacity m' = pool_capacity m"
proof -
  obtain p p' where "connection_pool m = Some p" "connection_pool m' = Some p'"
    using assms(1,2) mgr_invE by (metis (no_types))
  then show ?thesis using assms pool_capacity_length by (metis option.sel)
qed

lemma alloc_refines_spec:
  assumes "mgr_inv m" "picks pick"
  shows "mgr_inv (snd (alloc_connection pick f g m)) \<and>
    pool_capacity (snd (alloc_connection pick f g m)) = pool_capacity m \<and>
    spec_alloc (pool_capacity m) f g (mgr_abs m) =
      (fst (alloc_connection pick f g m), mgr_abs (snd (alloc_connection pick f g m)))"
proof -
  obtain pool where pool: "connection_pool m = Some pool" using assms(1) by (auto simp: mgr_inv_def)
  consider "fd2gid m f \<noteq> None" | "fd2gid m f = None" "gid2fd m g \<noteq> None"
    | "fd2gid m f = None" "gid2fd m g = None" "unused_set m = {}"
    | "fd2gid m f = None" "gid2fd m g = None" "unused_set m \<noteq> {}" by blast
  then show ?thesis
  proof cases
    case 1
    then show ?thesis using pool assms(1) by (auto simp: alloc_connection_def spec_alloc_def mgr_abs_def)
  next
    case 2
    then have "g \<in> ran (fd2gid m)" using mgr_gid_fresh [OF assms(1), of g] by simp
    then show ?thesis using 2 pool assms(1) by (simp add: alloc_connection_def spec_alloc_def mgr_abs_def domIff)
  next
    case 3
    then have "gid2index m g = None" using assms(1) unfolding mgr_inv_def by blast
    then show ?thesis using 3 pool assms(1) mgr_gid_fresh [OF assms(1)] mgr_full_iff [OF assms(1)]
      by (simp add: alloc_connection_def spec_alloc_def mgr_abs_def domIff)
  next
    case 4
    note ok = alloc_ok [OF assms 4]
    have "gid2index m g = None" using assms(1) 4(2) unfolding mgr_inv_def by blast
    then have "length (the (connection_pool (snd (alloc_connection pick f g m)))) = length (the (connection_pool m))"
      using 4 pool by (simp add: alloc_connection_def Let_def)
    then show ?thesis
      using ok 4 mgr_gid_fresh [OF assms(1)] mgr_full_iff [OF assms(1)] mgr_capacity_kept [OF assms(1) ok(1)]
      by (simp add: spec_alloc_def mgr_abs_def domIff)
  qed
qed

lemma release_refines_spec:
  assumes "mgr_inv m"
  shows "mgr_inv (snd (release_connection h f m)) \<and>
    pool_capacity (snd (release_connection h f m)) = pool_capacity m \<and>
    spec_release f (mgr_abs m) = (fst (release_connection h f m), mgr_abs (snd (release_connection h f m)))"
proof (cases "fd2gid m f")
  case None
  then show ?thesis using assms by (simp add: release_connection_def spec_release_def mgr_abs_def domIff)
next
  case (Some g)
  note ok = release_ok [OF assms Some, of h]
  have "length (the (connection_pool (snd (release_connection h f m)))) = length (the (connection_pool m))"
    using assms by (auto simp: release_connection_def mgr_inv_def split: option.splits)
  then show ?thesis using ok Some mgr_capacity_kept [OF assms ok(1)]
    by (simp add: spec_release_def mgr_abs_def domIff)
qed

lemma mgr_registry:
  assumes "picks pick"
  shows "conn_registry mgr_inv mgr_abs pool_capacity (alloc_connection pick) (release_connection h)"
  by unfold_locales (erule alloc_refines_spec [OF _ assms], erule release_refines_spec)

text \<open>The pool with the least free slot as the hash set's first element.\<close>

interpretation cmgr: conn_registry mgr_inv mgr_abs pool_capacity "alloc_connection Min" "release_connection h"
  by (rule mgr_registry [OF picks_Min])

text \<open>
  C1. A connection pool created with capacity \<open>n\<close> (it has \<open>n + 1\<close> slots) behaves, over any
  history of allocations and releases and whatever free slot the hash set yields, as a bounded
  one-to-one registry of descriptors and global ids: the pool's maps, sets and slots stay
  consistent, and the return code of every call is the registry's (0 success, -1 unknown
  descriptor, -2 descriptor in use, -3 id in use, -5 full).
\<close>

theorem connection_mgr_refines_registry:
  assumes "picks pick"
  shows "let m0 = snd (mgr_init False n mgr_new);
             (m, codes) = fold (reg_step (alloc_connection pick) (release_connection h)) ops (m0, []);
             (r, spec_codes) = fold (reg_step (spec_alloc (n + 1)) spec_release) ops (Map.empty, [])
         in mgr_inv m \<and> codes = spec_codes \<and> mgr_abs m = r \<and> live_count m = card (dom r)"
proof -
  define m0 :: "'a connection_mgr" where "m0 = snd (mgr_init False n mgr_new)"
  have inv: "mgr_inv m0" by (simp add: m0_def mgr_inv_init)
  have cap: "pool_capacity m0 = n + 1" "mgr_abs m0 = Map.empty"
    using pool_capacity_length [OF inv] by (simp_all add: m0_def mgr_init_def mgr_new_def mgr_abs_def)
  from conn_registry.history_refines [OF mgr_registry [OF assms] inv, of h ops "[]"]
  show ?thesis
    unfolding m0_def [symmetric] cap
    by (auto simp: Let_def live_count_def mgr_abs_def mgr_live_card split: prod.splits)
qed

theorem connection_mgr_refines_registry_witness:
  "picks Min \<and>
   (let m0 = snd (mgr_init False 1 mgr_new);
        (m, codes) = fold (reg_step (alloc_connection Min) (release_connection (\<lambda>x :: unit. x)))
                       [Alloc 7 100, Alloc 7 101, Alloc 8 101, Alloc 9 102, Release 7, Alloc 9 102] (m0, []);
        (r, spec_codes) = fold (reg_step (spec_alloc (1 + 1)) spec_release)
                       [Alloc 7 100, Alloc 7 101, Alloc 8 101, Alloc 9 102, Release 7, Alloc 9 102] (Map.empty, [])
    in mgr_inv m \<and> codes = spec_codes \<and> mgr_abs m = r \<and> live_count m = card (dom r))"
  using connection_mgr_refines_registry [OF picks_Min, of 1 "\<lambda>x :: unit. x"
      "[Alloc 7 100, Alloc 7 101, Alloc 8 101, Alloc 9 102, Release 7, Alloc 9 102]"] picks_Min by blast

end
