(* ===== verification/Messages.thy ===== *)
theory Messages
  imports Proto_Util Tunnel_Id
begin

text \<open>
  The messages exchanged between the threads (protocol/proto\_tunnel.proto,
  protocol/proto\_cmd.proto), and the parameters of the process: the codec of the generated
  protobuf classes, the order in which the hash containers are walked, the configuration.
\<close>

definition PROTO_CMD_TUNNEL_MAIN2WORKER_NEW_CLIENT :: int where "PROTO_CMD_TUNNEL_MAIN2WORKER_NEW_CLIENT = 2"
definition PROTO_CMD_TUNNEL_PACKAGE :: int where "PROTO_CMD_TUNNEL_PACKAGE = 3"
definition PROTO_CMD_TUNNEL_CLIENT_FORWARD_MESSAGE :: int where "PROTO_CMD_TUNNEL_CLIENT_FORWARD_MESSAGE = 4"
definition PROTO_CMD_TUNNEL_WEBSOCKET_BROADCAST :: int where "PROTO_CMD_TUNNEL_WEBSOCKET_BROADCAST = 5"
definition PROTO_CMD_TUNNEL_WORKER2OTHER_EVENT_NEW_CLIENT_CONNECTION :: int where
  "PROTO_CMD_TUNNEL_WORKER2OTHER_EVENT_NEW_CLIENT_CONNECTION = 6"
definition PROTO_CMD_TUNNEL_OTHER2WORKER_TEST :: int where "PROTO_CMD_TUNNEL_OTHER2WORKER_TEST = 7"
definition PROTO_CMD_IPC_STREAM_AUTH_HANDSHAKE :: int where "PROTO_CMD_IPC_STREAM_AUTH_HANDSHAKE = 9"
definition PROTO_CMD_TUNNEL_WORKER2OTHER_LUAVM :: int where "PROTO_CMD_TUNNEL_WORKER2OTHER_LUAVM = 10"
definition PROTO_CMD_TUNNEL_OTHERLUAVM2WORKERCONN :: int where "PROTO_CMD_TUNNEL_OTHERLUAVM2WORKERCONN = 11"
definition PROTO_CMD_TUNNEL_WORKER2OTHER_EVENT_CLOSE_CLIENT_CONNECTION :: int where
  "PROTO_CMD_TUNNEL_WORKER2OTHER_EVENT_CLOSE_CLIENT_CONNECTION = 12"
definition PROTO_CMD_TUNNEL_OTHERLUAVM2WORKER_CLOSE_CLIENT_CONNECTION :: int where
  "PROTO_CMD_TUNNEL_OTHERLUAVM2WORKER_CLOSE_CLIENT_CONNECTION = 13"

lemmas proto_cmds =
  PROTO_CMD_TUNNEL_MAIN2WORKER_NEW_CLIENT_def PROTO_CMD_TUNNEL_PACKAGE_def
  PROTO_CMD_TUNNEL_CLIENT_FORWARD_MESSAGE_def PROTO_CMD_TUNNEL_WEBSOCKET_BROADCAST_def
  PROTO_CMD_TUNNEL_WORKER2OTHER_EVENT_NEW_CLIENT_CONNECTION_def PROTO_CMD_TUNNEL_OTHER2WORKER_TEST_def
  PROTO_CMD_IPC_STREAM_AUTH_HANDSHAKE_def PROTO_CMD_TUNNEL_WORKER2OTHER_LUAVM_def
  PROTO_CMD_TUNNEL_OTHERLUAVM2WORKERCONN_def
  PROTO_CMD_TUNNEL_WORKER2OTHER_EVENT_CLOSE_CLIENT_CONNECTION_def
  PROTO_CMD_TUNNEL_OTHERLUAVM2WORKER_CLOSE_CLIENT_CONNECTION_def

record tunnel_package =
  sourcetunnelsid :: int
  targettunnelsid :: "int list"
  targetallworker :: bool
  tp_inner :: proto_package

record client_forward_message =
  sourcegid :: u64
  targetgid :: "u64 list"
  cf_inner :: proto_package

record main2worker_new_client =
  nc_fd :: int
  nc_gid :: u64

record new_client_connection =
  ncc_gid :: u64
  ncc_ip :: string
  ncc_port :: int

record worker2other_luavm =
  wl_gid :: u64
  wl_workeridx :: int
  wl_inner :: proto_package

record otherluavm2workerconn =
  ol_gid :: u64
  ol_workeridx :: int
  ol_inner :: proto_package

datatype task_type = HTTP_TASK | STREAM_TASK | WEBSOCKET_TASK | NONE

text \<open>The parameters.\<close>

record params =
  p_tunnels :: tunnel_id
  p_use_ssl :: bool
  ser_package :: "proto_package serializer"
  parse_package :: "proto_package parser"
  ser_tunnel :: "tunnel_package serializer"
  parse_tunnel :: "tunnel_package parser"
  ser_forward :: "client_forward_message serializer"
  parse_forward :: "client_forward_message parser"
  ser_new_client :: "main2worker_new_client serializer"
  parse_new_client :: "main2worker_new_client parser"
  ser_new_conn :: "new_client_connection serializer"
  ser_close_conn :: "u64 serializer"
  ser_luavm :: "worker2other_luavm serializer"
  parse_luavm2conn :: "otherluavm2workerconn parser"
  parse_other2worker_test :: "u64 parser"
  ser_ws_broadcast :: "bytes serializer"
  parse_ws_broadcast :: "bytes parser"
  p_int_order :: "int set \<Rightarrow> int list"
  p_gid_order :: "(u64 \<rightharpoonup> nat) \<Rightarrow> u64 list"
  p_pick :: "nat set \<Rightarrow> nat"
  p_peer :: "int \<Rightarrow> string \<times> int"

text \<open>The empty \<^verbatim>\<open>ProtoPackage\<close>: a default-constructed message.\<close>

definition package_default :: proto_package where
  "package_default = \<lparr>cmd = 0, protocol = []\<rparr>"

text \<open>The documented behaviour of protobuf: what serializes parses back to itself.\<close>

definition round_trips :: "'m serializer \<Rightarrow> 'm parser \<Rightarrow> bool" where
  "round_trips ser parse \<longleftrightarrow> (\<forall>m d. ser m = Some d \<longrightarrow> parse d = Some m)"

text \<open>A concrete process for the examples: a codec that keeps the body, four workers, no TLS.\<close>

definition demo_params :: params where
  "demo_params =
     \<lparr>p_tunnels = \<lparr>m_worker_cnt = 4\<rparr>, p_use_ssl = False,
      ser_package = (\<lambda>p. Some (of_int (cmd p) # protocol p)),
      parse_package = (\<lambda>d. case d of [] \<Rightarrow> None | c # body \<Rightarrow> Some \<lparr>cmd = uint c, protocol = body\<rparr>),
      ser_tunnel = (\<lambda>t. Some (protocol (tp_inner t))), parse_tunnel = (\<lambda>d. None),
      ser_forward = (\<lambda>m. Some (protocol (cf_inner m))), parse_forward = (\<lambda>d. None),
      ser_new_client = (\<lambda>m. Some []), parse_new_client = (\<lambda>d. None),
      ser_new_conn = (\<lambda>m. Some []), ser_close_conn = (\<lambda>m. Some []),
      ser_luavm = (\<lambda>m. Some (protocol (wl_inner m))), parse_luavm2conn = (\<lambda>d. None),
      parse_other2worker_test = (\<lambda>d. None), ser_ws_broadcast = Some, parse_ws_broadcast = Some,
      p_int_order = sorted_list_of_set, p_gid_order = (\<lambda>m. []), p_pick = Min, p_peer = (\<lambda>f. ([], 0))\<rparr>"

lemma demo_params_simps [simp]:
  "parse_package demo_params (c # body) = Some \<lparr>cmd = uint c, protocol = body\<rparr>"
  "ser_package demo_params p = Some (of_int (cmd p) # protocol p)"
  "p_use_ssl demo_params = False" "m_worker_cnt (p_tunnels demo_params) = 4" "p_pick demo_params = Min"
  by (simp_all add: demo_params_def)

end
