(* ===== verification/Worker.thy ===== *)
theory Worker
  imports Messages Timer Event_Poller Connection_Mgr
begin

text \<open>
  The state of a worker thread (src/workers/worker.h) and the operations that the connection
  contexts call back: closing a client, forwarding through the tunnel, flushing the tunnel.
  The reading side and the dispatch are in \<^verbatim>\<open>Worker_Loop\<close>. The atomic counters shared with
  the main thread are plain integers: a step of this thread is atomic in the model.
\<close>

record 'c worker =
  worker_idx :: int
  w_type :: task_type
  worker_connection_num :: int
  curr_connection_num :: int
  main_worker_tunnel :: "socket option"
  epoller :: event_poller
  worker_connection_mgr :: "'c connection_mgr"
  m_closed_fd :: "int set"
  m_timeout_fd :: "int set"
  m_conn_timeout_timer_manager :: "int timer_manager"
  m_latest_tick_time_monotonic :: u64
  w_to_stop :: bool
  w_is_stoped :: bool
  os_closed :: "int list"

section \<open>The sending loop\<close>

text \<open>
  The loop shared by every flush: send what is queued until the queue is empty or a send does
  not progress. The result is the queue, the socket, and the errno of the call that failed.
\<close>

function send_loop :: "vec_str_buffer \<Rightarrow> socket \<Rightarrow> vec_str_buffer \<times> socket \<times> int option" where
  "send_loop b s =
     (if vsb_is_empty b then (b, s, None)
      else
        (let (len, oper_errno, s') = socket_send (get_read_ptr b) 0 s
         in if len > 0 then send_loop (move_read_ptr_n (nat len) b) s'
            else (b, s', Some oper_errno)))"
  by pat_completeness auto
termination
  by (relation "measure (\<lambda>(b, s). length (k_tx s))") (auto dest: socket_send_decreases [OF sym])

declare send_loop.simps [simp del]

lemma send_loop_facts:
  assumes "send_loop b s = (b', s', r)"
  shows "k_wire s' @ m_data b' = k_wire s @ m_data b" "r = None \<longleftrightarrow> m_data b' = []"
    "m_sockfd s' = m_sockfd s" "vsb_inv b \<Longrightarrow> vsb_inv b'" "k_closed s' = k_closed s"
    "\<exists>n. m_data b' = drop n (m_data b)" "k_rx s' = k_rx s" "m_ssl_accepted s' = m_ssl_accepted s"
proof -
  have "send_loop b s = (b', s', r) \<Longrightarrow>
    k_wire s' @ m_data b' = k_wire s @ m_data b \<and> (r = None \<longleftrightarrow> m_data b' = []) \<and>
    m_sockfd s' = m_sockfd s \<and> (vsb_inv b \<longrightarrow> vsb_inv b') \<and> k_closed s' = k_closed s \<and>
    (\<exists>n. m_data b' = drop n (m_data b)) \<and> k_rx s' = k_rx s \<and> m_ssl_accepted s' = m_ssl_accepted s"
  proof (induction b s rule: send_loop.induct)
    case (1 b s)
    show ?case
    proof (cases "vsb_is_empty b")
      case True
      then show ?thesis using 1(2) by (auto simp: send_loop.simps [of b s])
    next
      case False
      obtain len e s1 where snd: "socket_send (get_read_ptr b) 0 s = (len, e, s1)" by (metis prod_cases3)
      note facts = socket_send_facts [OF snd]
      show ?thesis
      proof (cases "len > 0")
        case True
        have "send_loop (move_read_ptr_n (nat len) b) s1 = (b', s', r)"
          using 1(2) False snd True by (simp add: send_loop.simps [of b s])
        then show ?thesis using 1(1) [OF False snd [symmetric] refl refl True] facts
          by (auto simp: drop_drop)
      next
        case le: False
        then have "b' = b" "s' = s1" "r = Some e" "nat len = 0"
          using 1(2) False snd by (auto simp: send_loop.simps [of b s])
        then show ?thesis using facts False by (auto intro: exI [of _ 0])
      qed
    qed
  qed
  with assms show "k_wire s' @ m_data b' = k_wire s @ m_data b" "r = None \<longleftrightarrow> m_data b' = []"
    "m_sockfd s' = m_sockfd s" "vsb_inv b \<Longrightarrow> vsb_inv b'" "k_closed s' = k_closed s"
    "\<exists>n. m_data b' = drop n (m_data b)" "k_rx s' = k_rx s" "m_ssl_accepted s' = m_ssl_accepted s" by auto
qed

section \<open>Operations of a worker\<close>

abbreviation w_conn :: "nat \<Rightarrow> 'c worker \<Rightarrow> 'c connection" where
  "w_conn i w \<equiv> conn_at i (worker_connection_mgr w)"

definition upd_wconn :: "nat \<Rightarrow> ('c connection \<Rightarrow> 'c connection) \<Rightarrow> 'c worker \<Rightarrow> 'c worker" where
  "upd_wconn i h w = w\<lparr>worker_connection_mgr := upd_conn i h (worker_connection_mgr w)\<rparr>"

definition epoll_mod :: "int \<Rightarrow> u32 \<Rightarrow> 'c worker \<Rightarrow> 'c worker" where
  "epoll_mod f ev w = w\<lparr>epoller := snd (poller_mod f ev False (epoller w))\<rparr>"

definition mark_delete_timeout_timer :: "u64 \<Rightarrow> 'c worker \<Rightarrow> 'c worker" where
  "mark_delete_timeout_timer timer_id w =
     w\<lparr>m_conn_timeout_timer_manager := mark_delete timer_id (m_conn_timeout_timer_manager w)\<rparr>"

text \<open>
  \<^verbatim>\<open>close_client_fd\<close>; the kernel forgets a descriptor when it is closed, by the connection's
  socket or directly.
\<close>

definition close_client_fd :: "('c \<Rightarrow> 'c) \<Rightarrow> int \<Rightarrow> 'c worker \<Rightarrow> 'c worker" where
  "close_client_fd ctx_on_close f w =
     (let w1 =
        (case get_conn f (worker_connection_mgr w) of
           Some i \<Rightarrow>
             (let c = w_conn i w;
                  w2 = w\<lparr>m_conn_timeout_timer_manager := mark_delete (gid c) (m_conn_timeout_timer_manager w)\<rparr>;
                  w3 = w2\<lparr>epoller := snd (poller_del f (epoller w2))\<rparr>;
                  w4 = w3\<lparr>worker_connection_mgr := snd (release_connection ctx_on_close f (worker_connection_mgr w3))\<rparr>
              in if m_sockfd (socket_obj c) \<ge> 0
                 then w4\<lparr>epoller := k_close (m_sockfd (socket_obj c)) (epoller w4),
                         os_closed := os_closed w4 @ [m_sockfd (socket_obj c)]\<rparr>
                 else w4)
         | None \<Rightarrow> w\<lparr>os_closed := os_closed w @ [f], epoller := k_close f (epoller w)\<rparr>)
      in w1\<lparr>m_closed_fd := insert f (m_closed_fd w1),
            worker_connection_num := worker_connection_num w1 - 1,
            curr_connection_num := curr_connection_num w1 - 1\<rparr>)"

text \<open>
  \<^verbatim>\<open>try_send_flush_tunnel\<close>. The tunnel pointer is set before the thread starts and never null
  here; the model does nothing without it.
\<close>

definition try_send_flush_tunnel :: "'c worker \<Rightarrow> 'c worker" where
  "try_send_flush_tunnel w =
     (case main_worker_tunnel w of
        None \<Rightarrow> w
      | Some sock \<Rightarrow>
          (case get_conn (m_sockfd sock) (worker_connection_mgr w) of
             None \<Rightarrow> w
           | Some i \<Rightarrow>
               if vsb_is_empty (send_buffer (w_conn i w)) then epoll_mod (m_sockfd sock) RE w
               else
                 (let (b', sock', r) = send_loop (send_buffer (w_conn i w)) sock;
                      w1 = upd_wconn i (send_buffer_update (\<lambda>_. b')) (w\<lparr>main_worker_tunnel := Some sock'\<rparr>)
                  in case r of
                       None \<Rightarrow> w1
                     | Some oper_errno \<Rightarrow>
                         if oper_errno \<noteq> COMM_ERRNO_EAGAIN \<and> oper_errno \<noteq> COMM_ERRNO_EINTR \<and>
                            oper_errno \<noteq> COMM_ERRNO_EWOULDBLOCK
                         then w1\<lparr>w_to_stop := True\<rparr>
                         else epoll_mod (m_sockfd sock) RWE w1)))"

text \<open>
  \<^verbatim>\<open>tunnel_forward\<close>: the destinations are filtered and put in a hash set; the order in which
  the set is walked is a parameter.
\<close>

definition forward_filter :: "params \<Rightarrow> int list \<Rightarrow> int list" where
  "forward_filter E dest = filter (\<lambda>d. d \<noteq> PROTO_TUNNEL_ID_MAIN \<and> is_tunnel_id (p_tunnels E) d) dest"

definition tunnel_forward :: "params \<Rightarrow> int list \<Rightarrow> proto_package \<Rightarrow> bool \<Rightarrow> 'c worker \<Rightarrow> int \<times> 'c worker" where
  "tunnel_forward E dest_tunnel_id message flush w =
     (let dest_tunnel_id_set = set (forward_filter E dest_tunnel_id)
      in if dest_tunnel_id_set = {} then (- 1, w)
         else
           (let tunnelPackage = \<lparr>sourcetunnelsid = get_worker_tunnel_id (worker_idx w),
                                 targettunnelsid = p_int_order E dest_tunnel_id_set,
                                 targetallworker = False,
                                 tp_inner = message\<rparr>;
                data = pack_package_msg (ser_package E) (ser_tunnel E) tunnelPackage PROTO_CMD_TUNNEL_PACKAGE
            in case main_worker_tunnel w of
                 None \<Rightarrow> (- 2, w)
               | Some sock \<Rightarrow>
                   (case get_conn (m_sockfd sock) (worker_connection_mgr w) of
                      None \<Rightarrow> (- 2, w)
                    | Some i \<Rightarrow>
                        (let w1 = upd_wconn i (\<lambda>c. c\<lparr>send_buffer := vsb_append data (send_buffer c)\<rparr>) w
                         in (0, if flush then try_send_flush_tunnel w1
                                else epoll_mod (m_sockfd sock) RWE w1)))))"

section \<open>The worker's invariant\<close>

text \<open>
  Pool, timers and poller are consistent; the poller exists; the tunnel's descriptor is a live
  connection of the pool and is registered; what is registered is a live connection; a
  connection's socket is closed or holds the connection's own descriptor.
\<close>

definition worker_inv :: "'c worker \<Rightarrow> bool" where
  "worker_inv w \<longleftrightarrow>
     mgr_inv (worker_connection_mgr w) \<and> tm_inv (m_conn_timeout_timer_manager w) \<and>
     poller_inv (epoller w) \<and> m_epfd (epoller w) \<ge> 0 \<and>
     (\<exists>sock i. main_worker_tunnel w = Some sock \<and> get_conn (m_sockfd sock) (worker_connection_mgr w) = Some i \<and>
             k_interest (epoller w) (m_sockfd sock) \<noteq> None) \<and>
     (\<forall>i < length (the (connection_pool (worker_connection_mgr w))).
        m_sockfd (socket_obj (w_conn i w)) = - 1 \<or>
        m_sockfd (socket_obj (w_conn i w)) = fd (w_conn i w) \<and> 0 \<le> fd (w_conn i w)) \<and>
     (\<forall>f. k_interest (epoller w) f \<noteq> None \<longrightarrow> get_conn f (worker_connection_mgr w) \<noteq> None)"

text \<open>An update of a connection that keeps what identifies it.\<close>

definition same_id :: "'c connection \<Rightarrow> 'c connection \<Rightarrow> bool" where
  "same_id c c' \<longleftrightarrow> fd c' = fd c \<and> gid c' = gid c \<and> m_sockfd (socket_obj c') = m_sockfd (socket_obj c)"

lemma get_conn_upd_conn [simp]: "get_conn f (upd_conn i h m) = get_conn f m"
  by (simp add: get_conn_def split: option.splits)

lemma epoll_mod_simps [simp]:
  "worker_connection_mgr (epoll_mod f ev w) = worker_connection_mgr w"
  "m_conn_timeout_timer_manager (epoll_mod f ev w) = m_conn_timeout_timer_manager w"
  "main_worker_tunnel (epoll_mod f ev w) = main_worker_tunnel w" "worker_idx (epoll_mod f ev w) = worker_idx w"
  "w_to_stop (epoll_mod f ev w) = w_to_stop w" "os_closed (epoll_mod f ev w) = os_closed w"
  "m_epfd (epoller (epoll_mod f ev w)) = m_epfd (epoller w)"
  "m_closed_fd (epoll_mod f ev w) = m_closed_fd w" "w_type (epoll_mod f ev w) = w_type w"
  "worker_connection_num (epoll_mod f ev w) = worker_connection_num w"
  "curr_connection_num (epoll_mod f ev w) = curr_connection_num w"
  "m_timeout_fd (epoll_mod f ev w) = m_timeout_fd w"
  "m_latest_tick_time_monotonic (epoll_mod f ev w) = m_latest_tick_time_monotonic w"
  by (simp_all add: epoll_mod_def)

lemma upd_wconn_simps [simp]:
  "worker_connection_mgr (upd_wconn i h w) = upd_conn i h (worker_connection_mgr w)"
  "m_conn_timeout_timer_manager (upd_wconn i h w) = m_conn_timeout_timer_manager w"
  "main_worker_tunnel (upd_wconn i h w) = main_worker_tunnel w" "worker_idx (upd_wconn i h w) = worker_idx w"
  "epoller (upd_wconn i h w) = epoller w" "w_to_stop (upd_wconn i h w) = w_to_stop w"
  "os_closed (upd_wconn i h w) = os_closed w" "m_closed_fd (upd_wconn i h w) = m_closed_fd w"
  "w_type (upd_wconn i h w) = w_type w" "worker_connection_num (upd_wconn i h w) = worker_connection_num w"
  "curr_connection_num (upd_wconn i h w) = curr_connection_num w"
  "m_timeout_fd (upd_wconn i h w) = m_timeout_fd w"
  "m_latest_tick_time_monotonic (upd_wconn i h w) = m_latest_tick_time_monotonic w"
  by (simp_all add: upd_wconn_def)

lemma epoll_mod_interest:
  assumes "poller_inv (epoller w)" "m_epfd (epoller w) \<ge> 0"
  shows "poller_inv (epoller (epoll_mod f ev w))"
    "k_interest (epoller (epoll_mod f ev w)) g =
       (if g = f \<and> k_interest (epoller w) f \<noteq> None then Some ev else k_interest (epoller w) g)"
proof -
  let ?p = "epoller w"
  show "poller_inv (epoller (epoll_mod f ev w))"
    using poller_mod_inv(1) [OF assms(1)] by (simp add: epoll_mod_def)
  show "k_interest (epoller (epoll_mod f ev w)) g =
       (if g = f \<and> k_interest ?p f \<noteq> None then Some ev else k_interest ?p g)"
    using poller_mod_inv(2,4,5) [OF assms(1), of f ev False] poller_mod_inv(3) [OF assms(1), of g f ev False] assms(2)
    by (cases "g = f"; cases "k_interest ?p f") (auto simp: epoll_mod_def)
qed

lemma worker_inv_epoll_mod: "worker_inv w \<Longrightarrow> worker_inv (epoll_mod f ev w)"
  using epoll_mod_interest [of w f ev] by (auto simp: worker_inv_def)

lemma worker_inv_upd:
  assumes "worker_inv w" "same_id (w_conn i w) (h (w_conn i w))" "i \<in> using_set (worker_connection_mgr w)"
  shows "worker_inv (upd_wconn i h w)"
proof -
  let ?m = "worker_connection_mgr w"
  have m: "mgr_inv ?m" using assms(1) by (simp add: worker_inv_def)
  have "mgr_inv (upd_conn i h ?m)"
    using upd_conn_inv [OF m] assms(2,3) by (simp add: same_id_def)
  moreover have "length (the (connection_pool (upd_conn i h ?m))) = length (the (connection_pool ?m))"
    using m by (auto simp: mgr_inv_def upd_conn_def)
  moreover have "conn_at j (upd_conn i h ?m) = (if i = j then h (conn_at i ?m) else conn_at j ?m)" for j
    by (rule conn_at_upd [OF m assms(3)])
  ultimately show ?thesis using assms(1,2) by (simp add: worker_inv_def same_id_def)
qed

lemma worker_invI:
  assumes "mgr_inv (worker_connection_mgr w)" "tm_inv (m_conn_timeout_timer_manager w)"
    "poller_inv (epoller w)" "m_epfd (epoller w) \<ge> 0"
    "main_worker_tunnel w = Some sock" "get_conn (m_sockfd sock) (worker_connection_mgr w) = Some i"
    "k_interest (epoller w) (m_sockfd sock) \<noteq> None"
    "\<And>i. i < length (the (connection_pool (worker_connection_mgr w))) \<Longrightarrow>
        m_sockfd (socket_obj (w_conn i w)) = - 1 \<or>
        m_sockfd (socket_obj (w_conn i w)) = fd (w_conn i w) \<and> 0 \<le> fd (w_conn i w)"
    "\<And>f. k_interest (epoller w) f \<noteq> None \<Longrightarrow> get_conn f (worker_connection_mgr w) \<noteq> None"
  shows "worker_inv w"
  unfolding worker_inv_def using assms by blast

lemma worker_invD:
  assumes "worker_inv w"
  shows "mgr_inv (worker_connection_mgr w)" "tm_inv (m_conn_timeout_timer_manager w)"
    "poller_inv (epoller w)" "m_epfd (epoller w) \<ge> 0"
    "i < length (the (connection_pool (worker_connection_mgr w))) \<Longrightarrow>
        m_sockfd (socket_obj (w_conn i w)) = - 1 \<or>
        m_sockfd (socket_obj (w_conn i w)) = fd (w_conn i w) \<and> 0 \<le> fd (w_conn i w)"
    "k_interest (epoller w) f \<noteq> None \<Longrightarrow> get_conn f (worker_connection_mgr w) \<noteq> None"
  using assms unfolding worker_inv_def by blast+

section \<open>Flushing and forwarding\<close>

text \<open>
  What is on its way through the tunnel: the bytes the kernel has taken and the bytes still
  queued.
\<close>

definition tunnel_stream :: "'c worker \<Rightarrow> bytes" where
  "tunnel_stream w =
     (case main_worker_tunnel w of
        None \<Rightarrow> []
      | Some sock \<Rightarrow>
          (case get_conn (m_sockfd sock) (worker_connection_mgr w) of
             None \<Rightarrow> k_wire sock
           | Some i \<Rightarrow> k_wire sock @ m_data (send_buffer (w_conn i w))))"

text \<open>Bytes queued for the tunnel are watched for: the kernel will report when it can take more.\<close>

definition tunnel_watched :: "'c worker \<Rightarrow> bool" where
  "tunnel_watched w \<longleftrightarrow>
     (\<forall>sock i. main_worker_tunnel w = Some sock \<and> get_conn (m_sockfd sock) (worker_connection_mgr w) = Some i \<and>
        m_data (send_buffer (w_conn i w)) \<noteq> [] \<longrightarrow>
        k_interest (epoller w) (m_sockfd sock) = Some RWE \<or> w_to_stop w)"

lemma worker_inv_tunnel:
  assumes "worker_inv w"
  obtains sock i where "main_worker_tunnel w = Some sock" "get_conn (m_sockfd sock) (worker_connection_mgr w) = Some i"
    "i \<in> using_set (worker_connection_mgr w)" "k_interest (epoller w) (m_sockfd sock) \<noteq> None"
    "mgr_inv (worker_connection_mgr w)" "poller_inv (epoller w)" "m_epfd (epoller w) \<ge> 0"
  using assms get_conn_facts(1) unfolding worker_inv_def by blast

lemma try_send_flush_tunnel_facts:
  assumes "worker_inv w"
  shows "worker_inv (try_send_flush_tunnel w)"
    "tunnel_stream (try_send_flush_tunnel w) = tunnel_stream w"
    "tunnel_watched (try_send_flush_tunnel w)"
proof -
  obtain sock i where t: "main_worker_tunnel w = Some sock" "get_conn (m_sockfd sock) (worker_connection_mgr w) = Some i"
    "i \<in> using_set (worker_connection_mgr w)" "k_interest (epoller w) (m_sockfd sock) \<noteq> None"
    "mgr_inv (worker_connection_mgr w)" "poller_inv (epoller w)" "m_epfd (epoller w) \<ge> 0"
    using assms by (rule worker_inv_tunnel)
  obtain b' s' r where sl: "send_loop (send_buffer (w_conn i w)) sock = (b', s', r)" by (metis prod_cases3)
  note f = send_loop_facts [OF sl]
  define w1 where "w1 = upd_wconn i (send_buffer_update (\<lambda>_. b')) (w\<lparr>main_worker_tunnel := Some s'\<rparr>)"
  have at: "conn_at j (upd_conn i h (worker_connection_mgr w)) = (if i = j then h (w_conn i w) else w_conn j w)" for j h
    by (rule conn_at_upd [OF t(5,3)])
  have base: "worker_inv (w\<lparr>main_worker_tunnel := Some s'\<rparr>)"
    using assms t f(3) by (auto simp: worker_inv_def)
  have inv1: "worker_inv w1"
    unfolding w1_def by (rule worker_inv_upd [OF base]) (use t(3) in \<open>simp_all add: same_id_def\<close>)
  have str1: "tunnel_stream w1 = tunnel_stream w"
    using t(1,2) f(1,3) at by (simp add: tunnel_stream_def w1_def)
  have ep1: "epoller w1 = epoller w" by (simp add: w1_def)
  let ?r = "try_send_flush_tunnel w"
  have emp: "?r = epoll_mod (m_sockfd sock) RE w" if "m_data (send_buffer (w_conn i w)) = []"
    using that t(1,2) by (simp add: try_send_flush_tunnel_def)
  have full: "?r = (case r of None \<Rightarrow> w1 | Some e \<Rightarrow> if \<not> would_block e then w1\<lparr>w_to_stop := True\<rparr>
      else epoll_mod (m_sockfd sock) RWE w1)" if "m_data (send_buffer (w_conn i w)) \<noteq> []"
    using that t(1,2) sl
    by (auto simp: try_send_flush_tunnel_def w1_def would_block_def Let_def split: option.splits)
  have stop: "worker_inv (w1\<lparr>w_to_stop := True\<rparr>)" using inv1 by (simp add: worker_inv_def)
  show "worker_inv ?r"
    using emp full inv1 stop worker_inv_epoll_mod assms
    by (cases "m_data (send_buffer (w_conn i w)) = []") (auto split: option.splits)
  have em: "tunnel_stream (epoll_mod f ev v) = tunnel_stream v" for f ev and v :: "'a worker"
    by (simp add: tunnel_stream_def split: option.splits)
  have ts: "tunnel_stream (w1\<lparr>w_to_stop := True\<rparr>) = tunnel_stream w1"
    by (simp add: tunnel_stream_def split: option.splits)
  show "tunnel_stream ?r = tunnel_stream w"
    using emp full str1 em ts
    by (cases "m_data (send_buffer (w_conn i w)) = []") (auto split: option.splits)
  have none: "tunnel_watched w1" if "r = None"
    using that f(2,3) t(2) at by (auto simp: tunnel_watched_def w1_def)
  have blk: "tunnel_watched (epoll_mod (m_sockfd sock) RWE w1)"
    using epoll_mod_interest(2) [of w1 "m_sockfd sock" RWE "m_sockfd sock"] t(4,6,7) f(3)
    by (auto simp: tunnel_watched_def ep1 w1_def)
  show "tunnel_watched ?r"
    using emp full none blk t(1,2)
    by (cases "m_data (send_buffer (w_conn i w)) = []") (auto simp: tunnel_watched_def split: option.splits)
qed

lemma tunnel_forward_ok:
  assumes "worker_inv w" "forward_filter E dest \<noteq> []"
  shows "fst (tunnel_forward E dest msg flush w) = 0"
    "worker_inv (snd (tunnel_forward E dest msg flush w))"
    "tunnel_watched (snd (tunnel_forward E dest msg flush w))"
    "tunnel_stream (snd (tunnel_forward E dest msg flush w)) =
       tunnel_stream w @
       pack_package_msg (ser_package E) (ser_tunnel E)
         \<lparr>sourcetunnelsid = get_worker_tunnel_id (worker_idx w),
          targettunnelsid = p_int_order E (set (forward_filter E dest)),
          targetallworker = False, tp_inner = msg\<rparr> PROTO_CMD_TUNNEL_PACKAGE"
proof -
  obtain sock i where t: "main_worker_tunnel w = Some sock" "get_conn (m_sockfd sock) (worker_connection_mgr w) = Some i"
    "i \<in> using_set (worker_connection_mgr w)" "k_interest (epoller w) (m_sockfd sock) \<noteq> None"
    "mgr_inv (worker_connection_mgr w)" "poller_inv (epoller w)" "m_epfd (epoller w) \<ge> 0"
    using assms(1) by (rule worker_inv_tunnel)
  define data where "data = pack_package_msg (ser_package E) (ser_tunnel E)
         \<lparr>sourcetunnelsid = get_worker_tunnel_id (worker_idx w),
          targettunnelsid = p_int_order E (set (forward_filter E dest)),
          targetallworker = False, tp_inner = msg\<rparr> PROTO_CMD_TUNNEL_PACKAGE"
  define w1 where "w1 = upd_wconn i (\<lambda>c. c\<lparr>send_buffer := vsb_append data (send_buffer c)\<rparr>) w"
  have r: "tunnel_forward E dest msg flush w =
      (0, if flush then try_send_flush_tunnel w1 else epoll_mod (m_sockfd sock) RWE w1)"
    using t(1,2) assms(2) by (simp add: tunnel_forward_def w1_def data_def Let_def)
  have inv1: "worker_inv w1"
    unfolding w1_def by (rule worker_inv_upd [OF assms(1)]) (use t(3) in \<open>simp_all add: same_id_def\<close>)
  have str1: "tunnel_stream w1 = tunnel_stream w @ data"
    using t(1,2) conn_at_upd [OF t(5,3)] by (simp add: tunnel_stream_def w1_def)
  have blk: "tunnel_watched (epoll_mod (m_sockfd sock) RWE w1)"
    using epoll_mod_interest(2) [of w1 "m_sockfd sock" RWE "m_sockfd sock"] t(1,4,6,7)
    by (auto simp: tunnel_watched_def w1_def)
  have em: "tunnel_stream (epoll_mod f ev w1) = tunnel_stream w1" for f ev
    by (simp add: tunnel_stream_def split: option.splits)
  show "fst (tunnel_forward E dest msg flush w) = 0" by (simp add: r)
  show "worker_inv (snd (tunnel_forward E dest msg flush w))"
    using worker_inv_epoll_mod [OF inv1] try_send_flush_tunnel_facts(1) [OF inv1] by (simp add: r)
  show "tunnel_watched (snd (tunnel_forward E dest msg flush w))"
    using blk try_send_flush_tunnel_facts(3) [OF inv1] by (simp add: r)
  show "tunnel_stream (snd (tunnel_forward E dest msg flush w)) = tunnel_stream w @
       pack_package_msg (ser_package E) (ser_tunnel E)
         \<lparr>sourcetunnelsid = get_worker_tunnel_id (worker_idx w),
          targettunnelsid = p_int_order E (set (forward_filter E dest)),
          targetallworker = False, tp_inner = msg\<rparr> PROTO_CMD_TUNNEL_PACKAGE"
    using str1 em try_send_flush_tunnel_facts(2) [OF inv1] by (simp add: r data_def)
qed

lemma tunnel_forward_refused:
  "forward_filter E dest = [] \<Longrightarrow> tunnel_forward E dest msg flush w = (- 1, w)"
  by (simp add: tunnel_forward_def)

text \<open>
  Flushing and forwarding touch the tunnel's own send queue and socket, the poller and the stop
  flag; no other connection and nothing else of the worker.
\<close>

definition tunnel_only :: "'c worker \<Rightarrow> 'c worker \<Rightarrow> bool" where
  "tunnel_only w w' \<longleftrightarrow>
     (\<exists>sock i h sock'. main_worker_tunnel w = Some sock \<and> main_worker_tunnel w' = Some sock' \<and>
        m_sockfd sock' = m_sockfd sock \<and> k_rx sock' = k_rx sock \<and>
        get_conn (m_sockfd sock) (worker_connection_mgr w) = Some i \<and>
        worker_connection_mgr w' = upd_conn i (send_buffer_update h) (worker_connection_mgr w) \<and>
        worker_idx w' = worker_idx w \<and> w_type w' = w_type w \<and>
        m_conn_timeout_timer_manager w' = m_conn_timeout_timer_manager w \<and>
        m_closed_fd w' = m_closed_fd w \<and> os_closed w' = os_closed w \<and>
        (\<forall>f. f \<noteq> m_sockfd sock \<longrightarrow> k_interest (epoller w') f = k_interest (epoller w) f) \<and>
        worker_connection_num w' = worker_connection_num w \<and> curr_connection_num w' = curr_connection_num w \<and>
        m_timeout_fd w' = m_timeout_fd w \<and> m_latest_tick_time_monotonic w' = m_latest_tick_time_monotonic w)"

lemma tunnel_onlyI:
  assumes "main_worker_tunnel w = Some sock" "main_worker_tunnel w' = Some sock'" "m_sockfd sock' = m_sockfd sock"
    "k_rx sock' = k_rx sock" "get_conn (m_sockfd sock) (worker_connection_mgr w) = Some i"
    "worker_connection_mgr w' = upd_conn i (send_buffer_update h) (worker_connection_mgr w)"
    "worker_idx w' = worker_idx w" "w_type w' = w_type w"
    "m_conn_timeout_timer_manager w' = m_conn_timeout_timer_manager w"
    "m_closed_fd w' = m_closed_fd w" "os_closed w' = os_closed w"
    "\<And>f. f \<noteq> m_sockfd sock \<Longrightarrow> k_interest (epoller w') f = k_interest (epoller w) f"
    "worker_connection_num w' = worker_connection_num w" "curr_connection_num w' = curr_connection_num w"
    "m_timeout_fd w' = m_timeout_fd w" "m_latest_tick_time_monotonic w' = m_latest_tick_time_monotonic w"
  shows "tunnel_only w w'"
  unfolding tunnel_only_def using assms by blast

lemma try_send_flush_tunnel_only:
  assumes "worker_inv w"
  shows "tunnel_only w (try_send_flush_tunnel w)"
proof -
  obtain sock i where t: "main_worker_tunnel w = Some sock" "get_conn (m_sockfd sock) (worker_connection_mgr w) = Some i"
    "i \<in> using_set (worker_connection_mgr w)" "mgr_inv (worker_connection_mgr w)"
    using assms by (rule worker_inv_tunnel)
  have other: "k_interest (epoller (epoll_mod (m_sockfd sock) ev v)) f = k_interest (epoller w) f"
    if "f \<noteq> m_sockfd sock" "epoller v = epoller w" for f ev and v :: "'a worker"
    using that epoll_mod_interest(2) [of v "m_sockfd sock" ev f] worker_invD(3,4) [OF assms] by simp
  obtain b' s' r where sl: "send_loop (send_buffer (w_conn i w)) sock = (b', s', r)" by (metis prod_cases3)
  show ?thesis
  proof (cases "m_data (send_buffer (w_conn i w)) = []")
    case True
    have idm: "upd_conn i (send_buffer_update (\<lambda>x. x)) (worker_connection_mgr w) = worker_connection_mgr w"
      by (rule upd_conn_id [OF t(4,3)]) simp
    show ?thesis
      by (rule tunnel_onlyI [OF t(1) _ refl refl t(2), of _ "\<lambda>x. x"])
        (use True t(1,2) idm in \<open>simp_all add: try_send_flush_tunnel_def other\<close>)
  next
    case False
    show ?thesis
      by (rule tunnel_onlyI [OF t(1) _ send_loop_facts(3,7) [OF sl] t(2), of _ "\<lambda>_. b'"])
        (use False t sl in \<open>simp_all add: try_send_flush_tunnel_def Let_def other split: option.splits\<close>)
  qed
qed

lemma tunnel_forward_only:
  assumes "worker_inv w"
  shows "tunnel_only w (snd (tunnel_forward E dest msg flush w))"
proof -
  obtain sock i where t: "main_worker_tunnel w = Some sock" "get_conn (m_sockfd sock) (worker_connection_mgr w) = Some i"
    "i \<in> using_set (worker_connection_mgr w)" "mgr_inv (worker_connection_mgr w)"
    using assms by (rule worker_inv_tunnel)
  have idm: "upd_conn i (send_buffer_update (\<lambda>x. x)) (worker_connection_mgr w) = worker_connection_mgr w"
    by (rule upd_conn_id [OF t(4,3)]) simp
  show ?thesis
  proof (cases "forward_filter E dest = []")
    case True
    show ?thesis
      by (rule tunnel_onlyI [OF t(1) _ refl refl t(2), of _ "\<lambda>x. x"]) (use True t idm in \<open>simp_all add: tunnel_forward_refused\<close>)
  next
    case False
    define data where "data = pack_package_msg (ser_package E) (ser_tunnel E)
         \<lparr>sourcetunnelsid = get_worker_tunnel_id (worker_idx w),
          targettunnelsid = p_int_order E (set (forward_filter E dest)),
          targetallworker = False, tp_inner = msg\<rparr> PROTO_CMD_TUNNEL_PACKAGE"
    define w1 where "w1 = upd_wconn i (\<lambda>c. c\<lparr>send_buffer := vsb_append data (send_buffer c)\<rparr>) w"
    have r: "tunnel_forward E dest msg flush w =
        (0, if flush then try_send_flush_tunnel w1 else epoll_mod (m_sockfd sock) RWE w1)"
      using t(1,2) False by (simp add: tunnel_forward_def w1_def data_def Let_def)
    have inv1: "worker_inv w1"
      unfolding w1_def by (rule worker_inv_upd [OF assms]) (use t(3) in \<open>simp_all add: same_id_def\<close>)
    have m1: "worker_connection_mgr w1 = upd_conn i (send_buffer_update (vsb_append data)) (worker_connection_mgr w)"
      by (simp add: w1_def upd_conn_def buffer_upd_eq)
    have "tunnel_only w1 (try_send_flush_tunnel w1)" by (rule try_send_flush_tunnel_only [OF inv1])
    then obtain h sock' where h: "main_worker_tunnel (try_send_flush_tunnel w1) = Some sock'" "m_sockfd sock' = m_sockfd sock" "k_rx sock' = k_rx sock"
        "worker_connection_mgr (try_send_flush_tunnel w1) = upd_conn i (send_buffer_update h) (worker_connection_mgr w1)"
        "worker_idx (try_send_flush_tunnel w1) = worker_idx w1" "w_type (try_send_flush_tunnel w1) = w_type w1"
        "m_conn_timeout_timer_manager (try_send_flush_tunnel w1) = m_conn_timeout_timer_manager w1"
        "m_closed_fd (try_send_flush_tunnel w1) = m_closed_fd w1" "os_closed (try_send_flush_tunnel w1) = os_closed w1"
        "worker_connection_num (try_send_flush_tunnel w1) = worker_connection_num w1"
        "curr_connection_num (try_send_flush_tunnel w1) = curr_connection_num w1"
        "m_timeout_fd (try_send_flush_tunnel w1) = m_timeout_fd w1"
        "m_latest_tick_time_monotonic (try_send_flush_tunnel w1) = m_latest_tick_time_monotonic w1"
        "\<And>f. f \<noteq> m_sockfd sock \<Longrightarrow> k_interest (epoller (try_send_flush_tunnel w1)) f = k_interest (epoller w1) f"
      using t(1,2) unfolding tunnel_only_def by (auto simp: w1_def)
    have comp: "upd_conn i (send_buffer_update h) (worker_connection_mgr w1) =
        upd_conn i (send_buffer_update (h \<circ> vsb_append data)) (worker_connection_mgr w)"
      unfolding m1 using upd_conn_upd_conn [OF t(4,3)] by (simp add: comp_def)
    show ?thesis
    proof (cases flush)
      case True
      then have r': "snd (tunnel_forward E dest msg flush w) = try_send_flush_tunnel w1" unfolding r by simp
      have w1: "worker_idx w1 = worker_idx w" "w_type w1 = w_type w" "m_closed_fd w1 = m_closed_fd w"
          "m_conn_timeout_timer_manager w1 = m_conn_timeout_timer_manager w" "os_closed w1 = os_closed w"
          "worker_connection_num w1 = worker_connection_num w" "curr_connection_num w1 = curr_connection_num w"
          "epoller w1 = epoller w" "m_timeout_fd w1 = m_timeout_fd w"
          "m_latest_tick_time_monotonic w1 = m_latest_tick_time_monotonic w"
        by (simp_all add: w1_def)
      show ?thesis unfolding r'
        by (rule tunnel_onlyI [OF t(1) h(1-3) t(2), of "h \<circ> vsb_append data"]) (simp_all add: h comp w1)
    next
      case False
      then have r': "snd (tunnel_forward E dest msg flush w) = epoll_mod (m_sockfd sock) RWE w1" unfolding r by simp
      show ?thesis unfolding r'
        by (rule tunnel_onlyI [OF t(1) _ refl refl t(2), of _ "vsb_append data"]) (use t(1) m1 epoll_mod_interest(2) [of w1 "m_sockfd sock" RWE] worker_invD(3,4) [OF assms] in
            \<open>simp_all add: w1_def\<close>)
    qed
  qed
qed

lemma tunnel_only_conn:
  assumes "tunnel_only w w'" "worker_inv w"
  shows "recv_buffer (w_conn j w') = recv_buffer (w_conn j w)" "socket_obj (w_conn j w') = socket_obj (w_conn j w)"
    "gid (w_conn j w') = gid (w_conn j w)" "fd (w_conn j w') = fd (w_conn j w)" "ctx_ptr (w_conn j w') = ctx_ptr (w_conn j w)"
    "is_close (w_conn j w') = is_close (w_conn j w)" "is_ready (w_conn j w') = is_ready (w_conn j w)"
    "closed_flag (w_conn j w') = closed_flag (w_conn j w)"
    "using_set (worker_connection_mgr w') = using_set (worker_connection_mgr w)"
    "get_conn f (worker_connection_mgr w') = get_conn f (worker_connection_mgr w)"
    "worker_idx w' = worker_idx w"
    "main_worker_tunnel w = Some sock \<Longrightarrow> get_conn (m_sockfd sock) (worker_connection_mgr w) \<noteq> Some j \<Longrightarrow>
       w_conn j w' = w_conn j w"
proof -
  have m: "mgr_inv (worker_connection_mgr w)" using assms(2) by (simp add: worker_inv_def)
  obtain sk i h sk' where t: "main_worker_tunnel w = Some sk"
    "get_conn (m_sockfd sk) (worker_connection_mgr w) = Some i"
    "worker_connection_mgr w' = upd_conn i (send_buffer_update h) (worker_connection_mgr w)" "worker_idx w' = worker_idx w"
    using assms(1) unfolding tunnel_only_def by blast
  have c: "w_conn j w' = (if i = j then send_buffer_update h (w_conn j w) else w_conn j w)"
    using conn_at_upd [OF m get_conn_facts(1) [OF m t(2)]] t(3) by simp
  show "recv_buffer (w_conn j w') = recv_buffer (w_conn j w)" "socket_obj (w_conn j w') = socket_obj (w_conn j w)"
    "gid (w_conn j w') = gid (w_conn j w)" "fd (w_conn j w') = fd (w_conn j w)" "ctx_ptr (w_conn j w') = ctx_ptr (w_conn j w)"
    "is_close (w_conn j w') = is_close (w_conn j w)" "is_ready (w_conn j w') = is_ready (w_conn j w)"
    "closed_flag (w_conn j w') = closed_flag (w_conn j w)"
    by (simp_all add: c)
  show "using_set (worker_connection_mgr w') = using_set (worker_connection_mgr w)"
    "get_conn f (worker_connection_mgr w') = get_conn f (worker_connection_mgr w)" "worker_idx w' = worker_idx w"
    using t(3,4) by simp_all
  show "main_worker_tunnel w = Some sock \<Longrightarrow> get_conn (m_sockfd sock) (worker_connection_mgr w) \<noteq> Some j \<Longrightarrow>
       w_conn j w' = w_conn j w"
    using t(1,2) by (auto simp: c)
qed

section \<open>Closing a client\<close>

lemma release_pool:
  assumes "mgr_inv m" "get_conn f m = Some i"
  shows "connection_pool (snd (release_connection h f m)) =
         Some ((the (connection_pool m))[i := on_release h (conn_at i m)])"
proof -
  obtain pool where pool: "connection_pool m = Some pool" using assms(1) by (auto simp: mgr_inv_def)
  obtain g where g: "fd2gid m f = Some g" "gid2index m g = Some i"
    using assms(2) by (auto simp: get_conn_def split: option.splits)
  then have "gid2fd m g = Some f" using assms(1) unfolding mgr_inv_def by blast
  then show ?thesis using g pool by (simp add: release_connection_def conn_at_def)
qed

lemma get_conn_release:
  assumes "mgr_inv m" "get_conn f m = Some i"
  shows "get_conn k (snd (release_connection h f m)) = (if k = f then None else get_conn k m)"
proof -
  obtain g where g: "fd2gid m f = Some g" using assms(2) by (auto simp: get_conn_def split: option.splits)
  have "fd2gid m k = Some g \<Longrightarrow> k = f" for k
    using g assms(1) unfolding mgr_inv_def by (metis option.inject)
  then show ?thesis using release_ok(3,4) [OF assms(1) g, of h]
    by (auto simp: get_conn_def split: option.splits)
qed

lemma close_client_fd_known:
  assumes "worker_inv w" "get_conn f (worker_connection_mgr w) = Some i"
  shows "worker_connection_mgr (close_client_fd h f w) = snd (release_connection h f (worker_connection_mgr w))"
    "m_conn_timeout_timer_manager (close_client_fd h f w) =
       mark_delete (gid (w_conn i w)) (m_conn_timeout_timer_manager w)"
    "poller_inv (epoller (close_client_fd h f w))"
    "m_epfd (epoller (close_client_fd h f w)) = m_epfd (epoller w)"
    "k_interest (epoller (close_client_fd h f w)) = (k_interest (epoller w))(f := None)"
    "main_worker_tunnel (close_client_fd h f w) = main_worker_tunnel w"
    "m_sockfd (socket_obj (w_conn i w)) = f \<and> 0 \<le> f \<longrightarrow> os_closed (close_client_fd h f w) = os_closed w @ [f]"
proof -
  note inv = worker_invD [OF assms(1)]
  note c = get_conn_facts [OF inv(1) assms(2)]
  have "i < length (the (connection_pool (worker_connection_mgr w)))"
    using mgr_inv_used [OF inv(1) c(1)] by auto
  from inv(5) [OF this] have s: "m_sockfd (socket_obj (w_conn i w)) = - 1 \<or> m_sockfd (socket_obj (w_conn i w)) = f \<and> 0 \<le> f"
    using c(2) by auto
  note d = poller_del_inv [OF inv(3,4), of f]
  have fu: "fd_curr_reg_event (snd (poller_del f (epoller w))) f = None"
    using d(1,3) by (simp add: poller_inv_def)
  have p: "epoller (close_client_fd h f w) = (if 0 \<le> m_sockfd (socket_obj (w_conn i w))
      then k_close f (snd (poller_del f (epoller w))) else snd (poller_del f (epoller w)))"
    using s assms(2) by (auto simp: close_client_fd_def Let_def)
  show "poller_inv (epoller (close_client_fd h f w))"
    using d(1) fu unfolding p by (auto simp: poller_inv_def k_close_def fun_upd_idem)
  show "k_interest (epoller (close_client_fd h f w)) = (k_interest (epoller w))(f := None)"
    unfolding p by (simp add: d(3) k_close_def)
  show "m_epfd (epoller (close_client_fd h f w)) = m_epfd (epoller w)" unfolding p by simp
qed (use assms(2) in \<open>simp_all add: close_client_fd_def Let_def\<close>)

lemma close_client_fd_inv:
  assumes "worker_inv w" "\<And>sock. main_worker_tunnel w = Some sock \<Longrightarrow> m_sockfd sock \<noteq> f"
  shows "worker_inv (close_client_fd h f w)"
    "get_conn k (worker_connection_mgr (close_client_fd h f w)) =
       (if k = f then None else get_conn k (worker_connection_mgr w))"
proof -
  let ?m = "worker_connection_mgr w"
  obtain sock j where t: "main_worker_tunnel w = Some sock" "get_conn (m_sockfd sock) ?m = Some j"
    "j \<in> using_set ?m" "k_interest (epoller w) (m_sockfd sock) \<noteq> None"
    "mgr_inv ?m" "poller_inv (epoller w)" "m_epfd (epoller w) \<ge> 0"
    using assms(1) by (rule worker_inv_tunnel)
  note inv = worker_invD [OF assms(1)]
  have ne: "m_sockfd sock \<noteq> f" using assms(2) t(1) by blast
  show gc: "get_conn k (worker_connection_mgr (close_client_fd h f w)) =
       (if k = f then None else get_conn k ?m)" for k
    using get_conn_release [OF t(5), of f _ k h]
    by (auto simp: close_client_fd_def Let_def split: option.splits)
  show "worker_inv (close_client_fd h f w)"
  proof (cases "get_conn f ?m")
    case None
    then have "k_interest (epoller w) f = None" using inv(6) [of f] by blast
    then have "k_close f (epoller w) = epoller w" by (simp add: k_close_def fun_upd_idem)
    then show ?thesis using None assms(1) by (simp add: close_client_fd_def Let_def worker_inv_def)
  next
    case (Some i)
    note c = close_client_fd_known [OF assms(1) Some, of h]
    note cf = get_conn_facts [OF inv(1) Some]
    have lt: "i < length (the (connection_pool ?m))" using mgr_inv_used [OF inv(1) cf(1)] by auto
    have "m_sockfd (socket_obj (on_release h (w_conn i w))) = - 1"
      using inv(5) [OF lt] by (auto simp: socket_close_def Let_def)
    then have socks: "m_sockfd (socket_obj (w_conn l (close_client_fd h f w))) = - 1 \<or>
        m_sockfd (socket_obj (w_conn l (close_client_fd h f w))) = fd (w_conn l (close_client_fd h f w)) \<and>
        0 \<le> fd (w_conn l (close_client_fd h f w))"
      if "l < length (the (connection_pool ?m))" for l
      using inv(5) [OF that] lt
      by (cases "l = i") (auto simp: c(1) conn_at_def release_pool [OF inv(1) Some])
    show ?thesis
    proof (rule worker_invI [where sock = sock and i = j])
      show "mgr_inv (worker_connection_mgr (close_client_fd h f w))"
        using release_refines_spec [OF inv(1)] by (simp add: c(1))
      show "tm_inv (m_conn_timeout_timer_manager (close_client_fd h f w))"
        using mark_delete_abs(1) [OF inv(2)] by (simp add: c(2))
      show "get_conn g (worker_connection_mgr (close_client_fd h f w)) \<noteq> None"
        if "k_interest (epoller (close_client_fd h f w)) g \<noteq> None" for g
        using that inv(6) [of g] by (auto simp: c(5) gc split: if_splits)
    qed (use c t ne gc socks in \<open>auto simp: release_pool [OF inv(1) Some]\<close>)
  qed
qed

lemma close_client_fd_others:
  assumes "worker_inv w" "get_conn f (worker_connection_mgr w) = Some i" "j \<noteq> i"
  shows "w_conn j (close_client_fd h f w) = w_conn j w"
  using close_client_fd_known(1) [OF assms(1,2), of h] release_pool [OF worker_invD(1) [OF assms(1)] assms(2), of h] assms(3)
  by (simp add: conn_at_def)

lemma close_client_fd_tunnel_stream:
  assumes "worker_inv w" "get_conn f (worker_connection_mgr w) = Some i"
    "\<And>sock. main_worker_tunnel w = Some sock \<Longrightarrow> m_sockfd sock \<noteq> f"
  shows "tunnel_stream (close_client_fd h f w) = tunnel_stream w"
proof -
  obtain sock j where t: "main_worker_tunnel w = Some sock" "get_conn (m_sockfd sock) (worker_connection_mgr w) = Some j"
      "mgr_inv (worker_connection_mgr w)"
    using assms(1) by (rule worker_inv_tunnel)
  have ne: "m_sockfd sock \<noteq> f" using assms(3) t(1) by blast
  then have "j \<noteq> i"
    using get_conn_facts(2) [OF t(3) t(2)] get_conn_facts(2) [OF t(3) assms(2)] by auto
  then show ?thesis
    using close_client_fd_others [OF assms(1,2)] close_client_fd_inv(2) [OF assms(1,3), of "m_sockfd sock" h]
      close_client_fd_known(6) [OF assms(1,2), of h] t ne
    by (simp add: tunnel_stream_def)
qed

section \<open>A concrete worker\<close>

text \<open>
  A worker with its tunnel on descriptor 5 (slot 0) and one client on descriptor 9 (slot 1);
  the context, the client's bytes and the kernel's scripts are given.
\<close>

definition demo_mgr :: "'c option \<Rightarrow> bytes \<Rightarrow> rx_event list \<Rightarrow> 'c connection_mgr" where
  "demo_mgr x received rx =
     \<lparr>connection_pool = Some [on_alloc 5 1 connection_new,
        (on_alloc 9 4096 connection_new)\<lparr>ctx_ptr := x, is_ready := True,
           socket_obj := socket_new\<lparr>m_sockfd := 9, k_rx := rx\<rparr>,
           recv_buffer := \<lparr>m_data = received, m_capacity = 20480\<rparr>\<rparr>,
        connection_new],
      fd2gid = [5 \<mapsto> 1, 9 \<mapsto> 4096], gid2fd = [1 \<mapsto> 5, 4096 \<mapsto> 9], gid2index = [1 \<mapsto> 0, 4096 \<mapsto> 1],
      using_set = {0, 1}, unused_set = {2}\<rparr>"

definition demo_worker :: "'c option \<Rightarrow> bytes \<Rightarrow> rx_event list \<Rightarrow> tx_event list \<Rightarrow> 'c worker" where
  "demo_worker x received rx tx =
     \<lparr>worker_idx = 0, w_type = STREAM_TASK, worker_connection_num = 1, curr_connection_num = 1,
      main_worker_tunnel = Some (socket_new\<lparr>m_sockfd := 5, k_tx := tx\<rparr>),
      epoller = poller_new\<lparr>m_epfd := 3, m_events_allocated := True,
                           fd_curr_reg_event := [5 \<mapsto> RE, 9 \<mapsto> RE], k_interest := [5 \<mapsto> RE, 9 \<mapsto> RE]\<rparr>,
      worker_connection_mgr = demo_mgr x received rx,
      m_closed_fd = {}, m_timeout_fd = {}, m_conn_timeout_timer_manager = tm_empty,
      m_latest_tick_time_monotonic = 100, w_to_stop = False, w_is_stoped = False, os_closed = []\<rparr>"

lemma demo_mgr_inv: "mgr_inv (demo_mgr x received rx)"
proof (rule mgr_invI)
  show "fd2gid (demo_mgr x received rx) f = Some g \<longleftrightarrow> gid2fd (demo_mgr x received rx) g = Some f" for f g
    by (auto simp: demo_mgr_def)
  show "using_set (demo_mgr x received rx) \<union> unused_set (demo_mgr x received rx) =
      {..<length (the (connection_pool (demo_mgr x received rx)))}"
    by (auto simp: demo_mgr_def)
  show "connection_pool (demo_mgr x received rx) = Some (the (connection_pool (demo_mgr x received rx)))"
    by (simp add: demo_mgr_def)
  show "ran (gid2index (demo_mgr x received rx)) = using_set (demo_mgr x received rx)"
    by (simp add: demo_mgr_def ran_map_upd) (simp add: insert_commute)
qed (auto simp: demo_mgr_def inj_on_def connection_new_def split: if_splits)

lemma demo_worker_inv: "worker_inv (demo_worker x received rx tx)"
proof (rule worker_invI [where sock = "socket_new\<lparr>m_sockfd := 5, k_tx := tx\<rparr>" and i = 0])
  fix i assume "i < length (the (connection_pool (worker_connection_mgr (demo_worker x received rx tx))))"
  then consider "i = 0" | "i = 1" | "i = 2" by (auto simp: demo_worker_def demo_mgr_def less_Suc_eq)
  then show "m_sockfd (socket_obj (w_conn i (demo_worker x received rx tx))) = - 1 \<or>
      m_sockfd (socket_obj (w_conn i (demo_worker x received rx tx))) = fd (w_conn i (demo_worker x received rx tx)) \<and>
      0 \<le> fd (w_conn i (demo_worker x received rx tx))"
    by cases (simp_all add: demo_worker_def demo_mgr_def conn_at_def connection_new_def socket_new_def)
next
  show "k_interest (epoller (demo_worker x received rx tx)) f \<noteq> None \<Longrightarrow>
      get_conn f (worker_connection_mgr (demo_worker x received rx tx)) \<noteq> None" for f
    by (auto simp: demo_worker_def demo_mgr_def get_conn_def split: if_splits)
qed (simp_all add: demo_worker_def demo_mgr_inv tm_inv_empty(1), simp_all add: demo_mgr_def get_conn_def poller_inv_def poller_new_def)

lemma forward_filter_set:
  "set (forward_filter E dest) = {d \<in> set dest. d = - 1 \<or> 0 \<le> d \<and> d < m_worker_cnt (p_tunnels E)}"
  by (auto simp: forward_filter_def is_tunnel_id_def get_worker_tunnel_id_max_def PROTO_TUNNEL_ID_MAIN_def PROTO_TUNNEL_ID_OTHER_def
      PROTO_TUNNEL_WORKER_MIN_def split: if_splits)

text \<open>
  C12. A worker's message to other threads. The proper targets are the workers, numbered from 0, and
  the other thread, number -1; the main thread and numbers of no thread are not. If there is no proper
  target, the code is -1 and nothing changes. Otherwise the code is 0 and one package that names each
  proper target once and no other is appended to the byte stream the main thread receives, after
  everything sent before; a package that the generated code refuses to serialise is dropped, and the
  code is 0 as well. What the kernel has not taken is watched for and the worker's tables stay
  consistent. The order in which a hash set is walked is any order of its elements.
\<close>

theorem tunnel_forward_queues:
  assumes "worker_inv w" "\<And>S. finite S \<Longrightarrow> set (p_int_order E S) = S \<and> distinct (p_int_order E S)"
  shows "case tunnel_forward E dest msg flush w of
    (code, w') \<Rightarrow>
      if {d \<in> set dest. d = - 1 \<or> 0 \<le> d \<and> d < m_worker_cnt (p_tunnels E)} = {} then code = - 1 \<and> w' = w
      else code = 0 \<and> worker_inv w' \<and> tunnel_watched w' \<and>
        (\<exists>ds. distinct ds \<and> set ds = {d \<in> set dest. d = - 1 \<or> 0 \<le> d \<and> d < m_worker_cnt (p_tunnels E)} \<and>
          tunnel_stream w' = tunnel_stream w @
            (case ser_tunnel E \<lparr>sourcetunnelsid = worker_idx w, targettunnelsid = ds, targetallworker = False, tp_inner = msg\<rparr> of
               None \<Rightarrow> []
             | Some b \<Rightarrow> (case ser_package E \<lparr>cmd = PROTO_CMD_TUNNEL_PACKAGE, protocol = b\<rparr> of None \<Rightarrow> [] | Some d \<Rightarrow> frame d)))"
proof -
  let ?D = "{d \<in> set dest. d = - 1 \<or> 0 \<le> d \<and> d < m_worker_cnt (p_tunnels E)}"
  have src: "get_worker_tunnel_id (worker_idx w) = worker_idx w" by (simp add: get_worker_tunnel_id_def PROTO_TUNNEL_WORKER_MIN_def)
  have fin: "finite ?D" by simp
  show ?thesis
  proof (cases "forward_filter E dest = []")
    case True
    then have "?D = {}" using forward_filter_set [of E dest] by (metis list.set(1))
    then show ?thesis using tunnel_forward_refused [OF True, of msg flush w] by simp
  next
    case False
    then have ne: "?D \<noteq> {}" using forward_filter_set [of E dest] by (metis set_empty)
    note ok = tunnel_forward_ok [OF assms(1) False, of msg flush]
    have "tunnel_stream (snd (tunnel_forward E dest msg flush w)) = tunnel_stream w @
        (case ser_tunnel E \<lparr>sourcetunnelsid = worker_idx w, targettunnelsid = p_int_order E ?D, targetallworker = False, tp_inner = msg\<rparr> of
           None \<Rightarrow> []
         | Some b \<Rightarrow> (case ser_package E \<lparr>cmd = PROTO_CMD_TUNNEL_PACKAGE, protocol = b\<rparr> of None \<Rightarrow> [] | Some d \<Rightarrow> frame d))"
      unfolding ok(4) src forward_filter_set by (simp add: pack_package_msg_def frame_def split: option.splits)
    then show ?thesis using ne ok(1-3) assms(2) [OF fin] by (auto split: prod.splits)
  qed
qed

theorem tunnel_forward_queues_witness:
  "case tunnel_forward demo_params [7, - 2, 1, - 1, 1] package_default True (demo_worker None [] [] [] :: unit worker) of
      (code, w') \<Rightarrow> code = 0 \<and> worker_inv w' \<and> tunnel_watched w' \<and>
        tunnel_stream w' = tunnel_stream (demo_worker None [] [] [] :: unit worker) @ frame [3]"
proof -
  have D: "{d \<in> set [7, - 2, 1, - 1, 1 :: int]. d = - 1 \<or> 0 \<le> d \<and> d < m_worker_cnt (p_tunnels demo_params)} = {1, - 1}" by auto
  have ord: "set (p_int_order demo_params S) = S \<and> distinct (p_int_order demo_params S)" if "finite S" for S
    using that by (simp add: demo_params_def)
  have ser: "ser_tunnel demo_params t = Some (protocol (tp_inner t))" for t by (simp add: demo_params_def)
  show ?thesis
    using tunnel_forward_queues [OF demo_worker_inv [of "None :: unit option" "[]" "[]" "[]"] ord, of "[7, - 2, 1, - 1, 1]" package_default True]
    unfolding D ser by (auto simp: package_default_def proto_cmds split: prod.splits)
qed

end
