(* ===== verification/Framing.thy ===== *)
theory Framing
  imports Proto_Util
begin

text \<open>
  The contract of every loop that cuts a byte stream into length-prefixed packages (the stream
  application and the tunnels of the main thread and of the workers): the loop handles the complete
  packages at the front of the receive buffer, one per iteration, and leaves an incomplete one alone.
\<close>

text \<open>What is left when no complete frame is at the front of the buffer.\<close>

definition incomplete :: "nat \<Rightarrow> bytes \<Rightarrow> bool" where
  "incomplete limit bs \<longleftrightarrow>
     length bs < 8 \<or>
     (unat (toh64_from_buffer bs) \<le> limit \<and> length bs < 8 + unat (toh64_from_buffer bs))"

lemma incomplete_Nil [simp]: "incomplete limit []"
  by (simp add: incomplete_def)

locale framed_reader =
  fixes ok :: "'s \<Rightarrow> bool"
    and buf :: "'s \<Rightarrow> bytes"
    and limit :: nat
    and parse :: "bytes \<Rightarrow> 'p option"
    and consume :: "nat \<Rightarrow> 'p \<Rightarrow> 's \<Rightarrow> 's"
    and loop :: "nat \<Rightarrow> 's \<Rightarrow> 's"
  assumes consume_drops: "ok s \<Longrightarrow> buf s = frame d @ rest \<Longrightarrow> parse d = Some p \<Longrightarrow>
            ok (consume (8 + length d) p s) \<and> buf (consume (8 + length d) p s) = rest"
    and loop_frame: "ok s \<Longrightarrow> buf s = frame d @ rest \<Longrightarrow> d \<noteq> [] \<Longrightarrow> length d \<le> limit \<Longrightarrow> parse d = Some p
          \<Longrightarrow> length (buf s) < 2 ^ 63 \<Longrightarrow> loop (Suc k) s = loop k (consume (8 + length d) p s)"
    and loop_tail: "ok s \<Longrightarrow> incomplete limit (buf s) \<Longrightarrow> length (buf s) < 2 ^ 63 \<Longrightarrow> loop (Suc k) s = s"
begin

definition well_formed :: "bytes list \<Rightarrow> bool" where
  "well_formed ds \<longleftrightarrow> (\<forall>d\<in>set ds. d \<noteq> [] \<and> length d \<le> limit \<and> parse d \<noteq> None)"

definition deliver :: "bytes \<Rightarrow> 's \<Rightarrow> 's" where
  "deliver d s = consume (8 + length d) (the (parse d)) s"

lemma drains:
  assumes "ok s" "buf s = concat (map frame ds) @ tail" "well_formed ds" "incomplete limit tail"
    "length ds < k" "length (buf s) < 2 ^ 63"
  shows "loop k s = fold deliver ds s \<and> ok (fold deliver ds s) \<and> buf (fold deliver ds s) = tail"
  using assms
proof (induction ds arbitrary: s k)
  case Nil
  then show ?case using loop_tail [of s "k - 1"] by (cases k) simp_all
next
  case (Cons d ds)
  then obtain k' where k: "k = Suc k'" by (cases k) auto
  from Cons.prems(3) obtain p where d: "d \<noteq> []" "length d \<le> limit" "parse d = Some p" "well_formed ds"
    by (auto simp: well_formed_def)
  let ?rest = "concat (map frame ds) @ tail"
  have b: "buf s = frame d @ ?rest" using Cons.prems(2) by simp
  let ?s = "consume (8 + length d) p s"
  have s: "ok ?s" "buf ?s = ?rest"
    using consume_drops [OF Cons.prems(1) b d(3)] by simp_all
  have len: "length (buf ?s) < 2 ^ 63" using s(2) b Cons.prems(6) by simp
  have "loop k s = loop k' ?s"
    unfolding k by (rule loop_frame [OF Cons.prems(1) b d(1-3) Cons.prems(6)])
  moreover have "deliver d s = ?s" using d(3) by (simp add: deliver_def)
  ultimately show ?case
    using Cons.IH [OF s d(4) Cons.prems(4) _ len, of k'] Cons.prems(5) by (simp add: k)
qed

end

end
