(* ===== verification/Client_Ctx.thy ===== *)
theory Client_Ctx
  imports Worker Framing
begin

text \<open>
  What the contexts of a client connection have in common. The stream and the websocket context
  (src/connection/stream\_ctx.cpp, src/connection/websocket\_ctx.cpp) carry the same pointers and
  the same code for registering interest, flushing, sending, reading and reporting a client to
  the script thread (src/app/stream\_app.cpp, src/app/websocket\_app.cpp), each its own copy; the
  operations here are over any record that extends \<open>client_ctx\<close>. A context belongs to the
  connection in slot \<open>i\<close> of the worker's pool.
\<close>

section \<open>The context\<close>

record client_ctx =
  app_layer_notified :: bool
  sc_conn_ptr :: "nat option"
  sc_worker_ptr :: bool

type_synonym 'x ctx_worker = "'x client_ctx_scheme worker"

definition client_ctx_new :: client_ctx where
  "client_ctx_new = \<lparr>app_layer_notified = False, sc_conn_ptr = None, sc_worker_ptr = False\<rparr>"

definition ctx_on_close :: "'x client_ctx_scheme \<Rightarrow> 'x client_ctx_scheme" where
  "ctx_on_close x = x\<lparr>sc_conn_ptr := None, sc_worker_ptr := False\<rparr>"

text \<open>Both pointers of the context in slot \<open>i\<close> are set.\<close>

definition ctx_attached :: "nat \<Rightarrow> 'x ctx_worker \<Rightarrow> bool" where
  "ctx_attached i w \<longleftrightarrow>
     (case ctx_ptr (w_conn i w) of None \<Rightarrow> False | Some x \<Rightarrow> sc_conn_ptr x \<noteq> None \<and> sc_worker_ptr x)"

definition ctx_event_mod :: "nat \<Rightarrow> u32 \<Rightarrow> 'x ctx_worker \<Rightarrow> 'x ctx_worker" where
  "ctx_event_mod i ev w =
     (if \<not> ctx_attached i w then w else epoll_mod (m_sockfd (socket_obj (w_conn i w))) ev w)"

definition set_conn_is_close :: "nat \<Rightarrow> bool \<Rightarrow> 'x ctx_worker \<Rightarrow> 'x ctx_worker" where
  "set_conn_is_close i val w = upd_wconn i (is_close_update (\<lambda>_. val)) w"

definition recv_buffer_move_read_ptr_n :: "nat \<Rightarrow> nat \<Rightarrow> 'x ctx_worker \<Rightarrow> 'x ctx_worker" where
  "recv_buffer_move_read_ptr_n i n w =
     upd_wconn i (\<lambda>c. c\<lparr>recv_buffer := move_read_ptr_n n (recv_buffer c)\<rparr>) w"

definition ctx_try_send_flush :: "nat \<Rightarrow> 'x ctx_worker \<Rightarrow> 'x ctx_worker" where
  "ctx_try_send_flush i w =
     (if vsb_is_empty (send_buffer (w_conn i w)) then ctx_event_mod i RE w
      else
        (let (b', s', r) = send_loop (send_buffer (w_conn i w)) (socket_obj (w_conn i w));
             w1 = upd_wconn i (\<lambda>c. c\<lparr>send_buffer := b', socket_obj := s'\<rparr>) w
         in case r of
              None \<Rightarrow> w1
            | Some oper_errno \<Rightarrow>
                (let w2 = (if oper_errno \<noteq> COMM_ERRNO_EAGAIN \<and> oper_errno \<noteq> COMM_ERRNO_EINTR \<and>
                              oper_errno \<noteq> COMM_ERRNO_EWOULDBLOCK
                           then set_conn_is_close i True w1 else w1)
                 in ctx_event_mod i RWE w2)))"

definition ctx_send_data :: "nat \<Rightarrow> bytes \<Rightarrow> bool \<Rightarrow> 'x ctx_worker \<Rightarrow> int \<times> 'x ctx_worker" where
  "ctx_send_data i data flush w =
     (if is_close (w_conn i w) \<or> closed_flag (w_conn i w) then (- 1, w)
      else if \<not> is_ready (w_conn i w) then (- 2, w)
      else
        (let w1 = upd_wconn i (\<lambda>c. c\<lparr>send_buffer := vsb_append data (send_buffer c)\<rparr>) w
         in (0, if flush then ctx_try_send_flush i w1 else ctx_event_mod i RWE w1)))"

text \<open>
  \<^verbatim>\<open>get_ip_port\<close>: the peer's address, from \<^verbatim>\<open>getpeername\<close> (a parameter), for an open socket.
\<close>

definition ctx_get_ip_port :: "params \<Rightarrow> nat \<Rightarrow> 'x ctx_worker \<Rightarrow> string \<times> int" where
  "ctx_get_ip_port E i w =
     (case ctx_ptr (w_conn i w) of
        None \<Rightarrow> ([], 0)
      | Some x \<Rightarrow>
          if sc_conn_ptr x = None then ([], 0)
          else if m_sockfd (socket_obj (w_conn i w)) < 0 then ([], 0)
          else p_peer E (m_sockfd (socket_obj (w_conn i w))))"

definition ctx_tunnel_forward ::
    "params \<Rightarrow> nat \<Rightarrow> int list \<Rightarrow> proto_package \<Rightarrow> 'x ctx_worker \<Rightarrow> int \<times> 'x ctx_worker" where
  "ctx_tunnel_forward E i dest message w =
     (case ctx_ptr (w_conn i w) of
        None \<Rightarrow> (- 1, w)
      | Some x \<Rightarrow> if \<not> sc_worker_ptr x then (- 1, w) else tunnel_forward E dest message True w)"

definition ctx_get_worker_idx :: "nat \<Rightarrow> 'x ctx_worker \<Rightarrow> int" where
  "ctx_get_worker_idx i w =
     (case ctx_ptr (w_conn i w) of None \<Rightarrow> - 1 | Some x \<Rightarrow> if \<not> sc_worker_ptr x then - 1 else worker_idx w)"

definition app_on_new_connection :: "params \<Rightarrow> nat \<Rightarrow> 'x ctx_worker \<Rightarrow> 'x ctx_worker" where
  "app_on_new_connection E i w =
     (let g = gid (w_conn i w);
          ip_port = ctx_get_ip_port E i w;
          protoNewConn = (if fst ip_port \<noteq> []
                          then \<lparr>ncc_gid = g, ncc_ip = fst ip_port, ncc_port = snd ip_port\<rparr>
                          else \<lparr>ncc_gid = g, ncc_ip = [], ncc_port = 0\<rparr>);
          package = pack_package_into (ser_new_conn E) package_default protoNewConn
                      PROTO_CMD_TUNNEL_WORKER2OTHER_EVENT_NEW_CLIENT_CONNECTION;
          pkg = \<lparr>wl_gid = g, wl_workeridx = ctx_get_worker_idx i w, wl_inner = package\<rparr>
      in snd (ctx_tunnel_forward E i [PROTO_TUNNEL_ID_OTHER]
                (pack_package_into (ser_luavm E) package_default pkg PROTO_CMD_TUNNEL_WORKER2OTHER_LUAVM) w))"

definition app_on_close_connection :: "params \<Rightarrow> nat \<Rightarrow> 'x ctx_worker \<Rightarrow> 'x ctx_worker" where
  "app_on_close_connection E i w =
     (let g = gid (w_conn i w);
          package = pack_package_into (ser_close_conn E) package_default g
                      PROTO_CMD_TUNNEL_WORKER2OTHER_EVENT_CLOSE_CLIENT_CONNECTION;
          pkg = \<lparr>wl_gid = g, wl_workeridx = ctx_get_worker_idx i w, wl_inner = package\<rparr>
      in snd (ctx_tunnel_forward E i [PROTO_TUNNEL_ID_OTHER]
                (pack_package_into (ser_luavm E) package_default pkg PROTO_CMD_TUNNEL_WORKER2OTHER_LUAVM) w))"

definition app_forward_package :: "params \<Rightarrow> nat \<Rightarrow> proto_package \<Rightarrow> 'x ctx_worker \<Rightarrow> 'x ctx_worker" where
  "app_forward_package E i package w =
     (let pkg = \<lparr>wl_gid = gid (w_conn i w), wl_workeridx = ctx_get_worker_idx i w, wl_inner = package\<rparr>
      in snd (ctx_tunnel_forward E i [PROTO_TUNNEL_ID_OTHER]
                (pack_package_into (ser_luavm E) package_default pkg PROTO_CMD_TUNNEL_WORKER2OTHER_LUAVM) w))"

text \<open>
  The reading loop of \<^verbatim>\<open>on_event\<close>: it fills a buffer of 10240 bytes until the socket would block;
  the flag tells that the connection must be closed. \<^verbatim>\<open>oper_errno\<close> lives across the iterations.
  Every iteration that goes on consumes the socket's script, so a fuel of one more than its
  weight is enough.
\<close>

fun ctx_read_loop :: "nat \<Rightarrow> bytes \<Rightarrow> int \<Rightarrow> socket \<Rightarrow> bytes \<times> bool \<times> socket" where
  "ctx_read_loop 0 buffer oper_errno s = (buffer, False, s)"
| "ctx_read_loop (Suc fuel) buffer oper_errno s =
     (if length buffer < 10240
      then
        (let (len, bs, e, s') = socket_recv (10240 - length buffer) oper_errno s
         in if len = - 1 \<and> (e = COMM_ERRNO_EAGAIN \<or> e = COMM_ERRNO_EWOULDBLOCK) then (buffer, False, s')
            else if len = - 1 \<and> e = COMM_ERRNO_EINTR then ctx_read_loop fuel buffer e s'
            else if len > 0 then ctx_read_loop fuel (buffer @ bs) e s'
            else (buffer, True, s'))
      else (buffer, False, s))"

definition ctx_mark_notified :: "nat \<Rightarrow> bool \<Rightarrow> 'x ctx_worker \<Rightarrow> 'x ctx_worker" where
  "ctx_mark_notified i val w = upd_wconn i (ctx_ptr_update (map_option (app_layer_notified_update (\<lambda>_. val)))) w"

text \<open>
  The branch of \<^verbatim>\<open>on_event\<close> for a connection that is marked for closing: the application is told
  when it knows the connection, then the worker closes the descriptor.
\<close>

definition ctx_close :: "params \<Rightarrow> nat \<Rightarrow> 'x ctx_worker \<Rightarrow> 'x ctx_worker" where
  "ctx_close E i w =
     (let w2 = (if is_ready (w_conn i w) then app_on_close_connection E i w else w)
      in close_client_fd ctx_on_close (m_sockfd (socket_obj (w_conn i w2))) w2)"

section \<open>The invariant of a client connection\<close>

definition ctx_ok :: "nat \<Rightarrow> 'x ctx_worker \<Rightarrow> bool" where
  "ctx_ok i w \<longleftrightarrow> worker_inv w \<and> i \<in> using_set (worker_connection_mgr w) \<and> ctx_attached i w"

definition ctx_buf :: "nat \<Rightarrow> 'x ctx_worker \<Rightarrow> bytes" where
  "ctx_buf i w = m_data (recv_buffer (w_conn i w))"

lemma forward_filter_other [simp]: "forward_filter E [PROTO_TUNNEL_ID_OTHER] = [PROTO_TUNNEL_ID_OTHER]"
  by (simp add: forward_filter_def is_tunnel_id_def PROTO_TUNNEL_ID_OTHER_def PROTO_TUNNEL_ID_MAIN_def)

lemma ctx_ok_upd:
  assumes "ctx_ok i w" "same_id (w_conn i w) (h (w_conn i w))" "ctx_ptr (h (w_conn i w)) = ctx_ptr (w_conn i w)"
  shows "ctx_ok i (upd_wconn i h w)" "w_conn i (upd_wconn i h w) = h (w_conn i w)"
proof -
  have m: "mgr_inv (worker_connection_mgr w)" and u: "i \<in> using_set (worker_connection_mgr w)"
    using assms(1) by (auto simp: ctx_ok_def worker_inv_def)
  show c: "w_conn i (upd_wconn i h w) = h (w_conn i w)" using conn_at_upd [OF m u] by simp
  show "ctx_ok i (upd_wconn i h w)"
    using assms worker_inv_upd [of w i h] c by (auto simp: ctx_ok_def ctx_attached_def)
qed

lemma ctx_ok_tunnel_only:
  assumes "ctx_ok i w" "tunnel_only w w'" "worker_inv w'"
  shows "ctx_ok i w'" "ctx_buf i w' = ctx_buf i w"
  using assms tunnel_only_conn(1,5) [OF assms(2), of i] tunnel_only_conn(9) [OF assms(2)]
  by (auto simp: ctx_ok_def ctx_attached_def ctx_buf_def)

text \<open>The bytes that announce a package of client \<open>g\<close> to the script thread.\<close>

definition luavm_wire :: "params \<Rightarrow> int \<Rightarrow> u64 \<Rightarrow> proto_package \<Rightarrow> bytes" where
  "luavm_wire E idx g package =
     pack_package_msg (ser_package E) (ser_tunnel E)
       \<lparr>sourcetunnelsid = get_worker_tunnel_id idx,
        targettunnelsid = p_int_order E {PROTO_TUNNEL_ID_OTHER}, targetallworker = False,
        tp_inner = pack_package_into (ser_luavm E) package_default
                     \<lparr>wl_gid = g, wl_workeridx = idx, wl_inner = package\<rparr> PROTO_CMD_TUNNEL_WORKER2OTHER_LUAVM\<rparr>
       PROTO_CMD_TUNNEL_PACKAGE"

lemma ctx_forward:
  assumes "ctx_ok i w" "ctx_tunnel_forward E i [PROTO_TUNNEL_ID_OTHER] msg w = (code, w')"
  shows "code = 0" "ctx_ok i w'" "tunnel_only w w'" "tunnel_watched w'" "ctx_buf i w' = ctx_buf i w"
    "tunnel_stream w' = tunnel_stream w @
       pack_package_msg (ser_package E) (ser_tunnel E)
         \<lparr>sourcetunnelsid = get_worker_tunnel_id (worker_idx w),
          targettunnelsid = p_int_order E {PROTO_TUNNEL_ID_OTHER}, targetallworker = False, tp_inner = msg\<rparr>
         PROTO_CMD_TUNNEL_PACKAGE"
proof -
  have r: "tunnel_forward E [PROTO_TUNNEL_ID_OTHER] msg True w = (code, w')"
    using assms by (auto simp: ctx_ok_def ctx_tunnel_forward_def ctx_attached_def split: option.splits)
  have inv: "worker_inv w" using assms(1) by (simp add: ctx_ok_def)
  note ok = tunnel_forward_ok [OF inv, of E "[PROTO_TUNNEL_ID_OTHER]" msg True, unfolded r, simplified]
  have only: "tunnel_only w w'" using tunnel_forward_only [OF inv, of E "[PROTO_TUNNEL_ID_OTHER]" msg True] r by simp
  then show "code = 0" "tunnel_only w w'" "tunnel_watched w'" using ok by simp_all
  show "ctx_ok i w'" "ctx_buf i w' = ctx_buf i w"
    using ctx_ok_tunnel_only [OF assms(1) only] ok by simp_all
  show "tunnel_stream w' = tunnel_stream w @
       pack_package_msg (ser_package E) (ser_tunnel E)
         \<lparr>sourcetunnelsid = get_worker_tunnel_id (worker_idx w),
          targettunnelsid = p_int_order E {PROTO_TUNNEL_ID_OTHER}, targetallworker = False, tp_inner = msg\<rparr>
         PROTO_CMD_TUNNEL_PACKAGE"
    using ok by simp
qed

lemma app_forward_package_facts:
  assumes "ctx_ok i w"
  shows "ctx_ok i (app_forward_package E i p w)" "tunnel_only w (app_forward_package E i p w)"
    "ctx_buf i (app_forward_package E i p w) = ctx_buf i w"
    "tunnel_watched (app_forward_package E i p w)"
    "tunnel_stream (app_forward_package E i p w) = tunnel_stream w @ luavm_wire E (worker_idx w) (gid (w_conn i w)) p"
proof -
  let ?msg = "pack_package_into (ser_luavm E) package_default
      \<lparr>wl_gid = gid (w_conn i w), wl_workeridx = ctx_get_worker_idx i w, wl_inner = p\<rparr> PROTO_CMD_TUNNEL_WORKER2OTHER_LUAVM"
  obtain code w' where r: "ctx_tunnel_forward E i [PROTO_TUNNEL_ID_OTHER] ?msg w = (code, w')" by fastforce
  have e: "app_forward_package E i p w = w'" using r by (simp add: app_forward_package_def)
  have idx: "ctx_get_worker_idx i w = worker_idx w"
    using assms by (auto simp: ctx_ok_def ctx_attached_def ctx_get_worker_idx_def split: option.splits)
  show "ctx_ok i (app_forward_package E i p w)" "tunnel_only w (app_forward_package E i p w)"
    "ctx_buf i (app_forward_package E i p w) = ctx_buf i w"
    "tunnel_watched (app_forward_package E i p w)"
    "tunnel_stream (app_forward_package E i p w) = tunnel_stream w @ luavm_wire E (worker_idx w) (gid (w_conn i w)) p"
    using ctx_forward [OF assms r] by (simp_all add: e luavm_wire_def idx)
qed

lemma ctx_move_facts:
  assumes "ctx_ok i w"
  shows "ctx_ok i (recv_buffer_move_read_ptr_n i n w)"
    "ctx_buf i (recv_buffer_move_read_ptr_n i n w) = drop n (ctx_buf i w)"
    "w_conn i (recv_buffer_move_read_ptr_n i n w) = recv_buffer_update (move_read_ptr_n n) (w_conn i w)"
    "tunnel_stream (recv_buffer_move_read_ptr_n i n w) = tunnel_stream w"
proof -
  let ?h = "\<lambda>c :: _ connection. c\<lparr>recv_buffer := move_read_ptr_n n (recv_buffer c)\<rparr>"
  note u = ctx_ok_upd [OF assms, of ?h]
  show "ctx_ok i (recv_buffer_move_read_ptr_n i n w)"
    "w_conn i (recv_buffer_move_read_ptr_n i n w) = recv_buffer_update (move_read_ptr_n n) (w_conn i w)"
    "ctx_buf i (recv_buffer_move_read_ptr_n i n w) = drop n (ctx_buf i w)"
    using u unfolding recv_buffer_move_read_ptr_n_def by (simp_all add: same_id_def ctx_buf_def buffer_upd_eq)
  have m: "mgr_inv (worker_connection_mgr w)" and us: "i \<in> using_set (worker_connection_mgr w)"
    using assms by (auto simp: ctx_ok_def worker_inv_def)
  show "tunnel_stream (recv_buffer_move_read_ptr_n i n w) = tunnel_stream w"
    using conn_at_upd [OF m us] by (auto simp: tunnel_stream_def recv_buffer_move_read_ptr_n_def split: option.splits)
qed

abbreviation demo_ctx :: client_ctx where
  "demo_ctx \<equiv> \<lparr>app_layer_notified = True, sc_conn_ptr = Some 1, sc_worker_ptr = True\<rparr>"

lemma demo_ctx_ok: "ctx_ok 1 (demo_worker (Some demo_ctx) received rx tx)"
  using demo_worker_inv [of "Some demo_ctx" received rx tx]
  by (simp add: ctx_ok_def ctx_attached_def) (simp add: demo_worker_def demo_mgr_def conn_at_def)

lemma demo_ctx_buf: "ctx_buf 1 (demo_worker x received rx tx) = received"
  by (simp add: ctx_buf_def demo_worker_def demo_mgr_def conn_at_def)

section \<open>Every event keeps the worker consistent\<close>

text \<open>
  A live client connection: its context is attached, its socket holds its descriptor, it is
  not the tunnel and it is registered with the poller.
\<close>

definition ctx_live :: "nat \<Rightarrow> 'x ctx_worker \<Rightarrow> bool" where
  "ctx_live i w \<longleftrightarrow>
     ctx_ok i w \<and> m_sockfd (socket_obj (w_conn i w)) = fd (w_conn i w) \<and> 0 \<le> fd (w_conn i w) \<and>
     (\<forall>sock. main_worker_tunnel w = Some sock \<longrightarrow> m_sockfd sock \<noteq> fd (w_conn i w)) \<and>
     k_interest (epoller w) (fd (w_conn i w)) \<noteq> None"

lemma w_conn_event_mod [simp]: "w_conn j (ctx_event_mod i ev w) = w_conn j w"
  by (simp add: ctx_event_mod_def)

lemma ctx_live_upd:
  assumes "ctx_live i w" "same_id (w_conn i w) (h (w_conn i w))"
    "ctx_ptr (h (w_conn i w)) = map_option f (ctx_ptr (w_conn i w))"
    "\<And>x. sc_conn_ptr x \<noteq> None \<Longrightarrow> sc_conn_ptr (f x) \<noteq> None" "\<And>x. sc_worker_ptr x \<Longrightarrow> sc_worker_ptr (f x)"
  shows "ctx_live i (upd_wconn i h w)" "w_conn i (upd_wconn i h w) = h (w_conn i w)"
proof -
  have m: "mgr_inv (worker_connection_mgr w)" and u: "i \<in> using_set (worker_connection_mgr w)"
    using assms(1) by (auto simp: ctx_live_def ctx_ok_def worker_inv_def)
  show c: "w_conn i (upd_wconn i h w) = h (w_conn i w)" using conn_at_upd [OF m u] by simp
  have "ctx_attached i (upd_wconn i h w)"
    using assms(1,3-5) c by (auto simp: ctx_live_def ctx_ok_def ctx_attached_def split: option.splits)
  then show "ctx_live i (upd_wconn i h w)"
    using assms(1,2) worker_inv_upd [of w i h] c by (auto simp: ctx_live_def ctx_ok_def same_id_def)
qed

lemmas ctx_live_upd_id = ctx_live_upd [where f = "\<lambda>x. x", unfolded option.map_ident, simplified]

lemma ctx_live_epoll_mod: "ctx_live i w \<Longrightarrow> ctx_live i (epoll_mod f ev w)"
  using worker_inv_epoll_mod [of w f ev] epoll_mod_interest(2) [of w f ev]
  by (auto simp: ctx_live_def ctx_ok_def ctx_attached_def worker_inv_def)

lemma ctx_live_event_mod: "ctx_live i w \<Longrightarrow> ctx_live i (ctx_event_mod i ev w)"
  by (simp add: ctx_event_mod_def ctx_live_epoll_mod)

lemma ctx_live_set_close: "ctx_live i w \<Longrightarrow> ctx_live i (set_conn_is_close i v w)"
  unfolding set_conn_is_close_def by (rule ctx_live_upd_id(1)) (simp_all add: same_id_def)

lemma ctx_live_move: "ctx_live i w \<Longrightarrow> ctx_live i (recv_buffer_move_read_ptr_n i n w)"
  unfolding recv_buffer_move_read_ptr_n_def by (rule ctx_live_upd_id(1)) (simp_all add: same_id_def)

lemma ctx_live_tunnel_only:
  assumes "ctx_live i w" "tunnel_only w w'" "worker_inv w'"
  shows "ctx_live i w'"
proof -
  have inv: "worker_inv w" using assms(1) by (simp add: ctx_live_def ctx_ok_def)
  obtain sock sock' where s: "main_worker_tunnel w = Some sock" "main_worker_tunnel w' = Some sock'" "m_sockfd sock' = m_sockfd sock"
      "\<And>f. f \<noteq> m_sockfd sock \<Longrightarrow> k_interest (epoller w') f = k_interest (epoller w) f"
    using assms(2) unfolding tunnel_only_def by blast
  have "ctx_ok i w'" using assms ctx_ok_tunnel_only(1) by (auto simp: ctx_live_def)
  then show ?thesis
    using assms(1) s tunnel_only_conn(2,4) [OF assms(2) inv, of i] by (auto simp: ctx_live_def)
qed

lemma ctx_live_forward:
  assumes "ctx_live i w"
  shows "ctx_live i (snd (ctx_tunnel_forward E i [PROTO_TUNNEL_ID_OTHER] msg w))"
proof -
  obtain code w' where r: "ctx_tunnel_forward E i [PROTO_TUNNEL_ID_OTHER] msg w = (code, w')" by fastforce
  have ok: "ctx_ok i w" using assms by (simp add: ctx_live_def)
  have "worker_inv w'" using ctx_forward(2) [OF ok r] by (simp add: ctx_ok_def)
  then show ?thesis using ctx_live_tunnel_only [OF assms ctx_forward(3) [OF ok r]] r by simp
qed

lemma ctx_live_recv_package: "ctx_live i w \<Longrightarrow> ctx_live i (app_forward_package E i p w)"
  by (simp add: app_forward_package_def ctx_live_forward)

lemma ctx_live_on_new: "ctx_live i w \<Longrightarrow> ctx_live i (app_on_new_connection E i w)"
  by (simp add: app_on_new_connection_def Let_def ctx_live_forward)

lemma ctx_live_on_close: "ctx_live i w \<Longrightarrow> ctx_live i (app_on_close_connection E i w)"
  by (simp add: app_on_close_connection_def Let_def ctx_live_forward)

lemma ctx_live_mark_delete_timer:
  "ctx_live i w \<Longrightarrow> ctx_live i (mark_delete_timeout_timer g w)"
  using mark_delete_abs(1) [of "m_conn_timeout_timer_manager w" g]
  by (auto simp: ctx_live_def ctx_ok_def ctx_attached_def worker_inv_def mark_delete_timeout_timer_def)

lemmas ctx_live_ops = ctx_live_event_mod ctx_live_set_close ctx_live_move ctx_live_recv_package
  ctx_live_on_new ctx_live_on_close ctx_live_mark_delete_timer

text \<open>The bytes of a client's answer: taken by the kernel, then queued.\<close>

definition client_stream :: "nat \<Rightarrow> 'x ctx_worker \<Rightarrow> bytes" where
  "client_stream i w = k_wire (socket_obj (w_conn i w)) @ m_data (send_buffer (w_conn i w))"

definition client_watched :: "nat \<Rightarrow> 'x ctx_worker \<Rightarrow> bool" where
  "client_watched i w \<longleftrightarrow>
     (m_data (send_buffer (w_conn i w)) \<noteq> [] \<longrightarrow> k_interest (epoller w) (fd (w_conn i w)) = Some RWE)"

lemma ctx_event_mod_live:
  assumes "ctx_live i w"
  shows "ctx_event_mod i ev w = epoll_mod (fd (w_conn i w)) ev w"
    "k_interest (epoller (ctx_event_mod i ev w)) (fd (w_conn i w)) = Some ev"
proof -
  show e: "ctx_event_mod i ev w = epoll_mod (fd (w_conn i w)) ev w"
    using assms by (simp add: ctx_event_mod_def ctx_live_def ctx_ok_def)
  show "k_interest (epoller (ctx_event_mod i ev w)) (fd (w_conn i w)) = Some ev"
    using assms epoll_mod_interest(2) [of w "fd (w_conn i w)" ev "fd (w_conn i w)"] unfolding e
    by (auto simp: ctx_live_def ctx_ok_def worker_inv_def)
qed

lemma ctx_flush_facts:
  assumes "ctx_live i w"
  shows "ctx_live i (ctx_try_send_flush i w)"
    "client_stream i (ctx_try_send_flush i w) = client_stream i w"
    "client_watched i (ctx_try_send_flush i w)"
    "fd (w_conn i (ctx_try_send_flush i w)) = fd (w_conn i w)"
proof -
  obtain b' s' r where sl: "send_loop (send_buffer (w_conn i w)) (socket_obj (w_conn i w)) = (b', s', r)"
    by (metis prod_cases3)
  note f = send_loop_facts [OF sl]
  let ?h = "\<lambda>c :: _ connection. c\<lparr>send_buffer := b', socket_obj := s'\<rparr>"
  define w1 where "w1 = upd_wconn i ?h w"
  note u = ctx_live_upd_id [OF assms, of ?h]
  have l1: "ctx_live i w1" and c1: "w_conn i w1 = ?h (w_conn i w)"
    using u f(3) by (simp_all add: w1_def same_id_def)
  define w2 where "w2 = (case r of Some e \<Rightarrow> if \<not> would_block e then set_conn_is_close i True w1 else w1 | None \<Rightarrow> w1)"
  have l2: "ctx_live i w2" using l1 by (simp add: w2_def ctx_live_set_close split: option.splits)
  have c2: "send_buffer (w_conn i w2) = b'" "socket_obj (w_conn i w2) = s'" "fd (w_conn i w2) = fd (w_conn i w)"
    using c1 ctx_live_upd_id(2) [OF l1, of "is_close_update (\<lambda>_. True)"]
    by (simp_all add: w2_def set_conn_is_close_def same_id_def split: option.splits)
  let ?r = "ctx_try_send_flush i w"
  have emp: "?r = ctx_event_mod i RE w" if "m_data (send_buffer (w_conn i w)) = []"
    using that by (simp add: ctx_try_send_flush_def)
  have full: "?r = (if r = None then w1 else ctx_event_mod i RWE w2)" if "m_data (send_buffer (w_conn i w)) \<noteq> []"
    using that sl by (simp add: ctx_try_send_flush_def w1_def w2_def would_block_def Let_def split: option.splits)
  show "ctx_live i ?r"
    using emp full l1 l2 assms by (cases "m_data (send_buffer (w_conn i w)) = []") (simp_all add: ctx_live_event_mod)
  show "client_stream i ?r = client_stream i w"
    using emp full c1 c2 f(1) by (cases "m_data (send_buffer (w_conn i w)) = []") (simp_all add: client_stream_def)
  show "fd (w_conn i ?r) = fd (w_conn i w)"
    using emp full c1 c2 by (cases "m_data (send_buffer (w_conn i w)) = []") simp_all
  show "client_watched i ?r"
    using emp full c1 f(2) ctx_event_mod_live(2) [OF l2, of RWE]
    by (cases "m_data (send_buffer (w_conn i w)) = []") (auto simp: client_watched_def c2)
qed

lemma ctx_send_data_live:
  assumes "ctx_live i w"
  shows "case ctx_send_data i data flush w of
    (code, w') \<Rightarrow>
      if is_close (w_conn i w) \<or> closed_flag (w_conn i w) then code = - 1 \<and> w' = w
      else if \<not> is_ready (w_conn i w) then code = - 2 \<and> w' = w
      else code = 0 \<and> ctx_live i w' \<and> client_stream i w' = client_stream i w @ data \<and> client_watched i w'"
proof -
  let ?h = "\<lambda>c :: _ connection. c\<lparr>send_buffer := vsb_append data (send_buffer c)\<rparr>"
  define w1 where "w1 = upd_wconn i ?h w"
  have l1: "ctx_live i w1" and c1: "w_conn i w1 = ?h (w_conn i w)"
    using ctx_live_upd_id [OF assms, of ?h] by (simp_all add: w1_def same_id_def)
  have s1: "client_stream i w1 = client_stream i w @ data" by (simp add: client_stream_def c1)
  have em: "client_stream i (ctx_event_mod i RWE w1) = client_stream i w1"
      "client_watched i (ctx_event_mod i RWE w1)"
    using ctx_event_mod_live [OF l1, of RWE] by (simp_all add: client_stream_def client_watched_def)
  show ?thesis
    using ctx_flush_facts [OF l1] ctx_live_event_mod [OF l1, of RWE] s1 em
    by (auto simp: ctx_send_data_def Let_def simp flip: w1_def)
qed

text \<open>
  C11. Data sent to a live client is appended to what the client is going to receive, after
  everything sent before and nothing lost of it; bytes the kernel has not taken are watched for.
  A closing or not yet announced connection refuses and nothing changes.
\<close>

theorem ctx_send_data_queues:
  assumes "ctx_live i w"
  shows "case ctx_send_data i data flush w of
    (code, w') \<Rightarrow>
      if is_close (w_conn i w) \<or> closed_flag (w_conn i w) then code = - 1 \<and> w' = w
      else if \<not> is_ready (w_conn i w) then code = - 2 \<and> w' = w
      else code = 0 \<and> ctx_live i w' \<and> client_stream i w' = client_stream i w @ data \<and> client_watched i w'"
  by (rule ctx_send_data_live [OF assms])

theorem ctx_send_data_queues_witness:
  "ctx_live 1 (demo_worker (Some demo_ctx) [] [] []) \<and>
   (case ctx_send_data 1 [1, 2, 3] True (demo_worker (Some demo_ctx) [] [] []) of
      (code, w') \<Rightarrow> code = 0 \<and> ctx_live 1 w' \<and> client_stream 1 w' = [1, 2, 3] \<and> client_watched 1 w')"
proof -
  let ?w = "demo_worker (Some demo_ctx) [] [] []"
  have l: "ctx_live 1 ?w"
    using demo_ctx_ok [of "[]" "[]" "[]"]
    by (simp add: ctx_live_def) (simp add: demo_worker_def demo_mgr_def conn_at_def)
  have c: "\<not> is_close (w_conn 1 ?w)" "\<not> closed_flag (w_conn 1 ?w)" "is_ready (w_conn 1 ?w)" "client_stream 1 ?w = []"
    by (simp_all add: client_stream_def demo_worker_def demo_mgr_def conn_at_def on_alloc_def connection_new_def socket_new_def)
  show ?thesis using ctx_send_data_queues [OF l, of "[1, 2, 3]" True] l c by (simp split: prod.splits del: One_nat_def)
qed

lemma ctx_read_loop_facts:
  "ctx_read_loop k buffer e s = (buffer', fatal, s') \<Longrightarrow>
     m_sockfd s' = m_sockfd s \<and> k_wire s' = k_wire s \<and> k_closed s' = k_closed s"
proof (induction k arbitrary: buffer e s)
  case (Suc k)
  obtain n bs e' s1 where r: "socket_recv (10240 - length buffer) e s = (n, bs, e', s1)" by (metis prod_cases4)
  note f = socket_recv_facts [OF r]
  from Suc.prems have "s' = s1 \<or> s' = s \<or> (\<exists>bf. ctx_read_loop k bf e' s1 = (buffer', fatal, s'))"
    unfolding ctx_read_loop.simps r by (auto split: if_splits simp del: ctx_read_loop.simps)
  then show ?case using f Suc.IH [of _ e' s1] by auto
qed simp

text \<open>More fuel than the weight of the script does not change what is read.\<close>

lemma socket_recv_goes_on:
  assumes "socket_recv len e s = (n, bs, e', s')" "0 < n \<or> n = - 1 \<and> e' = COMM_ERRNO_EINTR" "0 < len"
    "\<not> (m_ssl_instance s \<and> \<not> m_ssl_accepted s \<and> e = COMM_ERRNO_EINTR)"
  shows "rx_weight (k_rx s') < rx_weight (k_rx s)" "\<not> (m_ssl_instance s' \<and> \<not> m_ssl_accepted s')"
proof -
  have c: "\<not> (m_ssl_instance s \<and> \<not> m_ssl_accepted s)" using assms(1,2,4) by (auto simp: socket_recv_def split: if_splits)
  then show "\<not> (m_ssl_instance s' \<and> \<not> m_ssl_accepted s')" using socket_recv_facts(4,5) [OF assms(1)] by simp
  show "rx_weight (k_rx s') < rx_weight (k_rx s)"
    using assms(1-3) c by (cases "k_rx s"; cases "hd (k_rx s)")
      (auto simp: socket_recv_def COMM_ERRNO_EAGAIN_def COMM_ERRNO_EINTR_def split: if_splits)
qed

lemma ctx_read_loop_fuel:
  "rx_weight (k_rx s) < k \<Longrightarrow> rx_weight (k_rx s) < k' \<Longrightarrow>
     \<not> (m_ssl_instance s \<and> \<not> m_ssl_accepted s \<and> e = COMM_ERRNO_EINTR) \<Longrightarrow>
     ctx_read_loop k buffer e s = ctx_read_loop k' buffer e s"
proof (induction k arbitrary: k' buffer e s)
  case (Suc k)
  then obtain k1 where k': "k' = Suc k1" by (cases k') auto
  obtain n bs e' s1 where r: "socket_recv (10240 - length buffer) e s = (n, bs, e', s1)" by (metis prod_cases4)
  have "ctx_read_loop k b e' s1 = ctx_read_loop k1 b e' s1"
    if "0 < n \<or> n = - 1 \<and> e' = COMM_ERRNO_EINTR" "length buffer < 10240" for b
    using Suc.IH [of s1 k1 e' b] socket_recv_goes_on [OF r that(1)] that(2) Suc.prems k' by simp
  then show ?case unfolding k' ctx_read_loop.simps r by (auto simp del: ctx_read_loop.simps)
qed simp

declare ctx_read_loop.simps [simp del]

section \<open>A client and the tunnel do not disturb each other\<close>

lemma ctx_live_not_tunnel:
  assumes "ctx_live i w"
  obtains sock j where "main_worker_tunnel w = Some sock" "get_conn (m_sockfd sock) (worker_connection_mgr w) = Some j" "j \<noteq> i"
    "mgr_inv (worker_connection_mgr w)" "i \<in> using_set (worker_connection_mgr w)"
proof -
  have inv: "worker_inv w" and u: "i \<in> using_set (worker_connection_mgr w)"
    and ne: "\<And>sock. main_worker_tunnel w = Some sock \<Longrightarrow> m_sockfd sock \<noteq> fd (w_conn i w)"
    using assms by (auto simp: ctx_live_def ctx_ok_def)
  from inv obtain sock j where t: "main_worker_tunnel w = Some sock" "get_conn (m_sockfd sock) (worker_connection_mgr w) = Some j"
    "mgr_inv (worker_connection_mgr w)" by (rule worker_inv_tunnel)
  have "j \<noteq> i" using get_conn_facts(2) [OF t(3,2)] ne [OF t(1)] by auto
  then show thesis using that t u by blast
qed

lemma tunnel_stream_upd:
  assumes "ctx_live i w"
  shows "tunnel_stream (upd_wconn i h w) = tunnel_stream w"
  using assms by (rule ctx_live_not_tunnel) (simp add: tunnel_stream_def conn_at_upd)

lemma tunnel_stream_other [simp]:
  "tunnel_stream (ctx_event_mod i ev w) = tunnel_stream w" "tunnel_stream (mark_delete_timeout_timer g w) = tunnel_stream w"
  "worker_idx (ctx_event_mod i ev w) = worker_idx w" "worker_idx (mark_delete_timeout_timer g w) = worker_idx w"
  "w_conn j (mark_delete_timeout_timer g w) = w_conn j w" "worker_idx (upd_wconn j h w) = worker_idx w"
  by (simp_all add: ctx_event_mod_def tunnel_stream_def mark_delete_timeout_timer_def upd_wconn_def split: option.splits)

lemma ctx_tunnel_only_conn:
  assumes "ctx_live i w" "tunnel_only w w'"
  shows "w_conn i w' = w_conn i w"
  using assms(1)
proof (rule ctx_live_not_tunnel)
  fix sock j assume t: "main_worker_tunnel w = Some sock" "get_conn (m_sockfd sock) (worker_connection_mgr w) = Some j" "j \<noteq> i"
  have "worker_inv w" using assms(1) by (simp add: ctx_live_def ctx_ok_def)
  from tunnel_only_conn(12) [OF assms(2) this t(1)] t(2,3) show ?thesis by simp
qed

lemma ctx_flush_conn:
  fixes w :: "'a ctx_worker"
  assumes "ctx_live i w"
  shows "\<exists>b s c. w_conn i (ctx_try_send_flush i w) = (w_conn i w)\<lparr>send_buffer := b, socket_obj := s, is_close := c\<rparr>"
    "tunnel_stream (ctx_try_send_flush i w) = tunnel_stream w" "worker_idx (ctx_try_send_flush i w) = worker_idx w"
    "m_ssl_accepted (socket_obj (w_conn i (ctx_try_send_flush i w))) = m_ssl_accepted (socket_obj (w_conn i w))"
proof -
  obtain b' s' r where sl: "send_loop (send_buffer (w_conn i w)) (socket_obj (w_conn i w)) = (b', s', r)"
    by (metis prod_cases3)
  let ?h = "\<lambda>c :: _ connection. c\<lparr>send_buffer := b', socket_obj := s'\<rparr>"
  define w1 where "w1 = upd_wconn i ?h w"
  have l1: "ctx_live i w1" and c1: "w_conn i w1 = ?h (w_conn i w)"
    using ctx_live_upd_id [OF assms, of ?h] send_loop_facts(3) [OF sl] by (simp_all add: w1_def same_id_def)
  have c2: "w_conn i (set_conn_is_close i True w1) = (?h (w_conn i w))\<lparr>is_close := True\<rparr>"
    using c1 ctx_live_upd_id(2) [OF l1, of "is_close_update (\<lambda>_. True)"] by (simp add: set_conn_is_close_def same_id_def)
  have t: "tunnel_stream w1 = tunnel_stream w" "tunnel_stream (set_conn_is_close i True w1) = tunnel_stream w"
      "worker_idx w1 = worker_idx w" "worker_idx (set_conn_is_close i True w1) = worker_idx w"
    using tunnel_stream_upd [OF assms, of ?h] tunnel_stream_upd [OF l1, of "is_close_update (\<lambda>_. True)"]
    by (simp_all add: w1_def set_conn_is_close_def)
  have r: "ctx_try_send_flush i w \<in> {ctx_event_mod i RE w, w1, ctx_event_mod i RWE w1, ctx_event_mod i RWE (set_conn_is_close i True w1)}"
    using sl by (simp add: ctx_try_send_flush_def w1_def Let_def split: option.splits)
  have e: "\<exists>b s k. c = c\<lparr>send_buffer := b, socket_obj := s, is_close := k\<rparr>" for c :: "'a client_ctx_scheme connection"
    by (rule exI [of _ "send_buffer c"], rule exI [of _ "socket_obj c"], rule exI [of _ "is_close c"]) simp
  have e': "\<exists>b s k. ?h c = c\<lparr>send_buffer := b, socket_obj := s, is_close := k\<rparr>" for c :: "'a client_ctx_scheme connection"
    by (rule exI [of _ b'], rule exI [of _ s'], rule exI [of _ "is_close c"]) simp
  have e'': "\<exists>b s k. (?h c)\<lparr>is_close := True\<rparr> = c\<lparr>send_buffer := b, socket_obj := s, is_close := k\<rparr>" for c :: "'a client_ctx_scheme connection"
    by blast
  have "w_conn i (ctx_try_send_flush i w) \<in> {w_conn i w, ?h (w_conn i w), (?h (w_conn i w))\<lparr>is_close := True\<rparr>}"
    using r c1 c2 by auto
  then show "m_ssl_accepted (socket_obj (w_conn i (ctx_try_send_flush i w))) = m_ssl_accepted (socket_obj (w_conn i w))"
    using send_loop_facts(8) [OF sl] by auto
  from \<open>w_conn i (ctx_try_send_flush i w) \<in> {w_conn i w, ?h (w_conn i w), (?h (w_conn i w))\<lparr>is_close := True\<rparr>}\<close>
  consider "w_conn i (ctx_try_send_flush i w) = w_conn i w" | "w_conn i (ctx_try_send_flush i w) = ?h (w_conn i w)"
    | "w_conn i (ctx_try_send_flush i w) = (?h (w_conn i w))\<lparr>is_close := True\<rparr>" by blast
  then show "\<exists>b s c. w_conn i (ctx_try_send_flush i w) = (w_conn i w)\<lparr>send_buffer := b, socket_obj := s, is_close := c\<rparr>"
  proof cases
    case 1 show ?thesis unfolding 1 by (rule e)
  next
    case 2 show ?thesis unfolding 2 by (rule e')
  next
    case 3 show ?thesis unfolding 3 by (rule e'')
  qed
  show "tunnel_stream (ctx_try_send_flush i w) = tunnel_stream w" "worker_idx (ctx_try_send_flush i w) = worker_idx w"
    using r t by auto
qed

text \<open>The bytes that announce a new connection to the script thread.\<close>

definition new_wire :: "params \<Rightarrow> int \<Rightarrow> u64 \<Rightarrow> string \<times> int \<Rightarrow> bytes" where
  "new_wire E idx g peer =
     luavm_wire E idx g (pack_package_into (ser_new_conn E) package_default
       (if fst peer \<noteq> [] then \<lparr>ncc_gid = g, ncc_ip = fst peer, ncc_port = snd peer\<rparr>
        else \<lparr>ncc_gid = g, ncc_ip = [], ncc_port = 0\<rparr>)
       PROTO_CMD_TUNNEL_WORKER2OTHER_EVENT_NEW_CLIENT_CONNECTION)"

lemma app_on_new_facts:
  assumes "ctx_live i w"
  shows "w_conn i (app_on_new_connection E i w) = w_conn i w"
    "tunnel_stream (app_on_new_connection E i w) = tunnel_stream w @ new_wire E (worker_idx w) (gid (w_conn i w)) (p_peer E (fd (w_conn i w)))"
proof -
  have ok: "ctx_ok i w" using assms by (simp add: ctx_live_def)
  let ?peer = "ctx_get_ip_port E i w"
  have peer: "?peer = p_peer E (fd (w_conn i w))"
    using assms by (auto simp: ctx_get_ip_port_def ctx_live_def ctx_ok_def ctx_attached_def split: option.splits)
  let ?p = "pack_package_into (ser_new_conn E) package_default
       (if fst ?peer \<noteq> [] then \<lparr>ncc_gid = gid (w_conn i w), ncc_ip = fst ?peer, ncc_port = snd ?peer\<rparr>
        else \<lparr>ncc_gid = gid (w_conn i w), ncc_ip = [], ncc_port = 0\<rparr>)
       PROTO_CMD_TUNNEL_WORKER2OTHER_EVENT_NEW_CLIENT_CONNECTION"
  have e: "app_on_new_connection E i w = app_forward_package E i ?p w"
    by (simp only: app_on_new_connection_def app_forward_package_def Let_def)
  note f = app_forward_package_facts [OF ok, of E ?p]
  show "w_conn i (app_on_new_connection E i w) = w_conn i w"
    unfolding e by (rule ctx_tunnel_only_conn [OF assms f(2)])
  show "tunnel_stream (app_on_new_connection E i w) = tunnel_stream w @ new_wire E (worker_idx w) (gid (w_conn i w)) (p_peer E (fd (w_conn i w)))"
    unfolding e new_wire_def peer [symmetric] by (rule f(5))
qed

definition close_wire :: "params \<Rightarrow> int \<Rightarrow> u64 \<Rightarrow> bytes" where
  "close_wire E idx g =
     luavm_wire E idx g (pack_package_into (ser_close_conn E) package_default g
       PROTO_CMD_TUNNEL_WORKER2OTHER_EVENT_CLOSE_CLIENT_CONNECTION)"

lemma app_on_close_facts:
  assumes "ctx_live i w"
  shows "tunnel_only w (app_on_close_connection E i w)"
    "fd (w_conn i (app_on_close_connection E i w)) = fd (w_conn i w)"
    "os_closed (app_on_close_connection E i w) = os_closed w"
    "tunnel_stream (app_on_close_connection E i w) = tunnel_stream w @ close_wire E (worker_idx w) (gid (w_conn i w))"
proof -
  have ok: "ctx_ok i w" and inv: "worker_inv w" using assms by (simp_all add: ctx_live_def ctx_ok_def)
  let ?p = "pack_package_into (ser_close_conn E) package_default (gid (w_conn i w))
      PROTO_CMD_TUNNEL_WORKER2OTHER_EVENT_CLOSE_CLIENT_CONNECTION"
  have e: "app_on_close_connection E i w = app_forward_package E i ?p w"
    by (simp add: app_on_close_connection_def app_forward_package_def Let_def)
  note f = app_forward_package_facts [OF ok, of E ?p]
  show "tunnel_only w (app_on_close_connection E i w)"
    "tunnel_stream (app_on_close_connection E i w) = tunnel_stream w @ close_wire E (worker_idx w) (gid (w_conn i w))"
    unfolding e close_wire_def by (rule f(2), rule f(5))
  then show "fd (w_conn i (app_on_close_connection E i w)) = fd (w_conn i w)"
    "os_closed (app_on_close_connection E i w) = os_closed w"
    using tunnel_only_conn(4) [OF _ inv] by (auto simp: tunnel_only_def)
qed

text \<open>
  What closing a connection means: its descriptor leaves the registry, the kernel's interest
  table and the process, once; the tables stay consistent; the script thread is told about the
  closing exactly when the connection is marked as ready.
\<close>

definition ctx_gone :: "params \<Rightarrow> nat \<Rightarrow> 'x ctx_worker \<Rightarrow> 'x ctx_worker \<Rightarrow> bool" where
  "ctx_gone E i w w' \<longleftrightarrow>
     worker_inv w' \<and> get_conn (fd (w_conn i w)) (worker_connection_mgr w') = None \<and>
     k_interest (epoller w') (fd (w_conn i w)) = None \<and> os_closed w' = os_closed w @ [fd (w_conn i w)] \<and>
     tunnel_stream w' = tunnel_stream w @
       (if is_ready (w_conn i w) then close_wire E (worker_idx w) (gid (w_conn i w)) else [])"

lemma ctx_close_gone:
  assumes "ctx_live i w"
  shows "ctx_gone E i w (ctx_close E i w)"
proof -
  let ?w2 = "if is_ready (w_conn i w) then app_on_close_connection E i w else w"
  note cf = app_on_close_facts [OF assms, of E]
  have l2: "ctx_live i ?w2" and c2: "fd (w_conn i ?w2) = fd (w_conn i w)" "os_closed ?w2 = os_closed w"
      "tunnel_stream ?w2 = tunnel_stream w @ (if is_ready (w_conn i w) then close_wire E (worker_idx w) (gid (w_conn i w)) else [])"
    using assms cf by (simp_all add: ctx_live_on_close)
  have inv: "worker_inv ?w2" "i \<in> using_set (worker_connection_mgr ?w2)" "m_sockfd (socket_obj (w_conn i ?w2)) = fd (w_conn i w)"
      "0 \<le> fd (w_conn i w)" "\<And>sock. main_worker_tunnel ?w2 = Some sock \<Longrightarrow> m_sockfd sock \<noteq> fd (w_conn i w)"
    using l2 c2(1) unfolding ctx_live_def ctx_ok_def by auto
  have gc: "get_conn (fd (w_conn i w)) (worker_connection_mgr ?w2) = Some i"
    using using_get_conn [OF worker_invD(1) [OF inv(1)] inv(2)] c2(1) by simp
  note k = close_client_fd_known [OF inv(1) gc, of ctx_on_close]
  let ?r = "close_client_fd ctx_on_close (fd (w_conn i w)) ?w2"
  have "worker_inv ?r" by (rule close_client_fd_inv(1) [OF inv(1,5)])
  moreover have "get_conn (fd (w_conn i w)) (worker_connection_mgr ?r) = None"
    using close_client_fd_inv(2) [OF inv(1,5)] by simp
  moreover have "k_interest (epoller ?r) (fd (w_conn i w)) = None" unfolding k(5) by simp
  moreover have "os_closed ?r = os_closed w @ [fd (w_conn i w)]" using k(7) inv(3,4) c2(2) by simp
  moreover have "tunnel_stream ?r = tunnel_stream ?w2"
    using close_client_fd_tunnel_stream [OF inv(1) gc, of ctx_on_close] inv(5) by presburger
  moreover have "ctx_close E i w = ?r" using inv(3) by (simp add: ctx_close_def Let_def split del: if_split)
  ultimately show ?thesis unfolding ctx_gone_def using c2(3) by presburger
qed

definition ctx_closing :: "nat \<Rightarrow> u32 \<Rightarrow> 'x ctx_worker \<Rightarrow> bool" where
  "ctx_closing i ev w \<longleftrightarrow> ev AND ERR \<noteq> 0 \<or> is_close (w_conn i w)"

lemma ctx_closing_gone:
  assumes "ctx_live i w"
  shows "ctx_gone E i w (ctx_close E i (if ev AND ERR \<noteq> 0 then set_conn_is_close i True w else w))"
    "ctx_closing i ev w \<Longrightarrow> is_close (w_conn i (if ev AND ERR \<noteq> 0 then set_conn_is_close i True w else w))"
proof -
  let ?w1 = "if ev AND ERR \<noteq> 0 then set_conn_is_close i True w else w"
  have l1: "ctx_live i ?w1" using assms by (simp add: ctx_live_ops)
  have ic: "w_conn i (set_conn_is_close i True w) = is_close_update (\<lambda>_. True) (w_conn i w)"
    using ctx_live_upd_id(2) [OF assms(1), of "is_close_update (\<lambda>_. True)"]
    by (simp add: same_id_def set_conn_is_close_def)
  then have c1: "fd (w_conn i ?w1) = fd (w_conn i w)" "gid (w_conn i ?w1) = gid (w_conn i w)"
      "is_ready (w_conn i ?w1) = is_ready (w_conn i w)" "worker_idx ?w1 = worker_idx w" "os_closed ?w1 = os_closed w"
    by (simp_all add: set_conn_is_close_def)
  have t1: "tunnel_stream ?w1 = tunnel_stream w"
    using conn_at_upd [of "worker_connection_mgr w" i] assms(1)
    by (auto simp: set_conn_is_close_def tunnel_stream_def ctx_live_def ctx_ok_def worker_inv_def)
  show "ctx_gone E i w (ctx_close E i ?w1)"
    using ctx_close_gone [OF l1, of E] unfolding ctx_gone_def c1 t1 .
  show "ctx_closing i ev w \<Longrightarrow> is_close (w_conn i ?w1)" using ic by (simp add: ctx_closing_def)
qed

text \<open>The concrete worker with any attached context is a live client connection.\<close>

lemma demo_ctx_live:
  assumes "sc_conn_ptr x \<noteq> None" "sc_worker_ptr x"
  shows "ctx_live 1 (demo_worker (Some x) received rx tx)"
  using demo_worker_inv [of "Some x" received rx tx] assms
  by (simp add: ctx_live_def ctx_ok_def ctx_attached_def)
    (simp add: demo_worker_def demo_mgr_def conn_at_def)

end
