(* ===== verification/Client_Frame.thy ===== *)
theory Client_Frame
  imports Client_Ctx
begin

text \<open>
  What the handling of one client connection leaves alone. The operations of a connection context
  touch the connection itself, its row of the poller, its timeout timer and the sending side of
  the tunnel; every other connection of the worker stays as it is. The timer goes only when the
  application has been told of the connection.
\<close>

section \<open>The frame of a client\<close>

definition tunnel_fd :: "'c worker \<Rightarrow> int option" where
  "tunnel_fd w = map_option m_sockfd (main_worker_tunnel w)"

definition tunnel_in :: "'c worker \<Rightarrow> (int \<times> rx_event list) option" where
  "tunnel_in w = map_option (\<lambda>s. (m_sockfd s, k_rx s)) (main_worker_tunnel w)"

lemma tunnel_in_fd: "tunnel_in w' = tunnel_in w \<Longrightarrow> tunnel_fd w' = tunnel_fd w"
  by (cases "main_worker_tunnel w"; cases "main_worker_tunnel w'") (auto simp: tunnel_in_def tunnel_fd_def)

definition tunnel_slot :: "'c worker \<Rightarrow> nat option" where
  "tunnel_slot w = Option.bind (tunnel_fd w) (\<lambda>f. get_conn f (worker_connection_mgr w))"

definition others :: "nat \<Rightarrow> 'c worker \<Rightarrow> nat \<Rightarrow> 'c connection" where
  "others i w j =
     (if j = i then connection_new\<lparr>fd := fd (w_conn i w), gid := gid (w_conn i w)\<rparr>
      else if tunnel_slot w = Some j then (w_conn j w)\<lparr>send_buffer := vsb_empty\<rparr>
      else w_conn j w)"

definition same_rest :: "nat \<Rightarrow> 'c worker \<Rightarrow> 'c worker \<Rightarrow> bool" where
  "same_rest i w w' \<longleftrightarrow>
     others i w' = others i w \<and> tunnel_in w' = tunnel_in w \<and>
     using_set (worker_connection_mgr w') = using_set (worker_connection_mgr w) \<and>
     unused_set (worker_connection_mgr w') = unused_set (worker_connection_mgr w) \<and>
     gid2index (worker_connection_mgr w') = gid2index (worker_connection_mgr w) \<and>
     fd2gid (worker_connection_mgr w') = fd2gid (worker_connection_mgr w) \<and>
     (\<forall>f. f \<noteq> fd (w_conn i w) \<and> tunnel_fd w \<noteq> Some f \<longrightarrow> k_interest (epoller w') f = k_interest (epoller w) f) \<and>
     (\<forall>g. g \<noteq> gid (w_conn i w) \<longrightarrow>
        tm_abs (m_conn_timeout_timer_manager w') g = tm_abs (m_conn_timeout_timer_manager w) g) \<and>
     worker_idx w' = worker_idx w \<and> w_type w' = w_type w \<and> os_closed w' = os_closed w \<and>
     m_closed_fd w' = m_closed_fd w \<and> m_timeout_fd w' = m_timeout_fd w \<and>
     m_latest_tick_time_monotonic w' = m_latest_tick_time_monotonic w \<and>
     worker_connection_num w' = worker_connection_num w \<and> curr_connection_num w' = curr_connection_num w"

lemma same_rest_refl: "same_rest i w w"
  by (simp add: same_rest_def)

lemma same_rest_id:
  assumes "same_rest i w w'"
  shows "fd (w_conn i w') = fd (w_conn i w)" "gid (w_conn i w') = gid (w_conn i w)" "tunnel_fd w' = tunnel_fd w"
    "get_conn f (worker_connection_mgr w') = get_conn f (worker_connection_mgr w)" "tunnel_slot w' = tunnel_slot w"
proof -
  have "others i w' i = others i w i" using assms by (simp add: same_rest_def)
  then show "fd (w_conn i w') = fd (w_conn i w)" "gid (w_conn i w') = gid (w_conn i w)"
    by (simp_all add: others_def connection_new_def)
  show t: "tunnel_fd w' = tunnel_fd w" by (rule tunnel_in_fd) (use assms in \<open>simp add: same_rest_def\<close>)
  show g: "get_conn f (worker_connection_mgr w') = get_conn f (worker_connection_mgr w)" for f
    using assms by (simp add: same_rest_def get_conn_def split: option.splits)
  show "tunnel_slot w' = tunnel_slot w" using g t by (simp add: tunnel_slot_def)
qed

lemma same_rest_trans:
  assumes "same_rest i w w'" "same_rest i w' w''"
  shows "same_rest i w w''"
  using assms same_rest_id(1,2,3) [OF assms(1)] by (simp add: same_rest_def)

lemma same_rest_conn:
  assumes "same_rest i w w'" "j \<noteq> i"
  shows "tunnel_slot w \<noteq> Some j \<Longrightarrow> w_conn j w' = w_conn j w"
    "recv_buffer (w_conn j w') = recv_buffer (w_conn j w)" "ctx_ptr (w_conn j w') = ctx_ptr (w_conn j w)"
proof -
  have o: "others i w' j = others i w j" using assms(1) by (simp add: same_rest_def)
  show "tunnel_slot w \<noteq> Some j \<Longrightarrow> w_conn j w' = w_conn j w"
    using o assms(2) same_rest_id(5) [OF assms(1)] by (simp add: others_def)
  have "recv_buffer (others i w' j) = recv_buffer (others i w j)" "ctx_ptr (others i w' j) = ctx_ptr (others i w j)"
    using o by simp_all
  then show "recv_buffer (w_conn j w') = recv_buffer (w_conn j w)" "ctx_ptr (w_conn j w') = ctx_ptr (w_conn j w)"
    using assms(2) same_rest_id(5) [OF assms(1)] by (simp_all add: others_def split: if_splits)
qed

lemma same_rest_upd:
  assumes "mgr_inv (worker_connection_mgr w)" "i \<in> using_set (worker_connection_mgr w)"
    "fd (h (w_conn i w)) = fd (w_conn i w)" "gid (h (w_conn i w)) = gid (w_conn i w)"
  shows "same_rest i w (upd_wconn i h w)"
proof -
  have s: "tunnel_slot (upd_wconn i h w) = tunnel_slot w" "tunnel_in (upd_wconn i h w) = tunnel_in w"
    by (simp_all add: tunnel_slot_def tunnel_fd_def tunnel_in_def)
  have "others i (upd_wconn i h w) = others i w"
    using assms(3,4) by (auto simp: others_def s conn_at_upd [OF assms(1,2)])
  then show ?thesis using s(2) by (simp add: same_rest_def)
qed

lemma same_rest_event_mod:
  assumes "ctx_live i w"
  shows "same_rest i w (ctx_event_mod i ev w)"
proof -
  have p: "poller_inv (epoller w)" "m_epfd (epoller w) \<ge> 0" and f: "m_sockfd (socket_obj (w_conn i w)) = fd (w_conn i w)"
    using assms by (auto simp: ctx_live_def ctx_ok_def worker_inv_def)
  have at: "ctx_attached i w" using assms by (simp add: ctx_live_def ctx_ok_def)
  have s: "tunnel_slot (ctx_event_mod i ev w) = tunnel_slot w" "tunnel_in (ctx_event_mod i ev w) = tunnel_in w"
    by (simp_all add: tunnel_slot_def tunnel_fd_def tunnel_in_def ctx_event_mod_def)
  then have "others i (ctx_event_mod i ev w) = others i w" by (auto simp: others_def)
  then show ?thesis
    using s(2) epoll_mod_interest(2) [OF p] f by (auto simp: same_rest_def ctx_event_mod_def)
qed

lemma same_rest_tunnel_only:
  assumes "ctx_live i w" "tunnel_only w w'"
  shows "same_rest i w w'"
proof -
  have inv: "worker_inv w" using assms(1) by (simp add: ctx_live_def ctx_ok_def)
  have m: "mgr_inv (worker_connection_mgr w)" by (rule worker_invD(1) [OF inv])
  obtain sk j h sk' where t: "main_worker_tunnel w = Some sk" "main_worker_tunnel w' = Some sk'" "m_sockfd sk' = m_sockfd sk"
    "get_conn (m_sockfd sk) (worker_connection_mgr w) = Some j"
    "worker_connection_mgr w' = upd_conn j (send_buffer_update h) (worker_connection_mgr w)"
    "\<And>f. f \<noteq> m_sockfd sk \<Longrightarrow> k_interest (epoller w') f = k_interest (epoller w) f" "k_rx sk' = k_rx sk"
    using assms(2) unfolding tunnel_only_def by blast
  have s: "tunnel_slot w' = tunnel_slot w" "tunnel_in w' = tunnel_in w" "tunnel_slot w = Some j"
    using t by (simp_all add: tunnel_slot_def tunnel_fd_def tunnel_in_def)
  have "w_conn k w' = (if j = k then send_buffer_update h (w_conn k w) else w_conn k w)" for k
    using conn_at_upd [OF m get_conn_facts(1) [OF m t(4)]] t(5) by simp
  then have "others i w' = others i w" using s by (auto simp: others_def)
  then show ?thesis
    using s t assms(2) by (auto simp: same_rest_def tunnel_only_def tunnel_fd_def)
qed

lemma same_rest_mark_delete:
  assumes "ctx_live i w"
  shows "same_rest i w (mark_delete_timeout_timer (gid (w_conn i w)) w)"
proof -
  have "tm_inv (m_conn_timeout_timer_manager w)" using assms by (auto simp: ctx_live_def ctx_ok_def worker_inv_def)
  then show ?thesis
    using mark_delete_abs(2) [of "m_conn_timeout_timer_manager w" "gid (w_conn i w)"]
    by (simp add: same_rest_def mark_delete_timeout_timer_def others_def fun_eq_iff tunnel_slot_def tunnel_fd_def tunnel_in_def)
qed

lemma upd_wconn_cong:
  assumes "mgr_inv (worker_connection_mgr w)" "i \<in> using_set (worker_connection_mgr w)" "h (w_conn i w) = h' (w_conn i w)"
  shows "upd_wconn i h w = upd_wconn i h' w"
  using mgr_inv_used [OF assms(1,2)] assms(3) by (auto simp: upd_wconn_def upd_conn_def conn_at_def)

section \<open>Runs of the operations of one client\<close>

definition ctx_notified :: "nat \<Rightarrow> 'x ctx_worker \<Rightarrow> bool" where
  "ctx_notified i w = app_layer_notified (the (ctx_ptr (w_conn i w)))"

abbreviation ctx_timer :: "nat \<Rightarrow> 'c worker \<Rightarrow> int timer option" where
  "ctx_timer i w \<equiv> tm_abs (m_conn_timeout_timer_manager w) (gid (w_conn i w))"

definition ctx_run :: "nat \<Rightarrow> 'x ctx_worker \<Rightarrow> 'x ctx_worker \<Rightarrow> bool" where
  "ctx_run i w w' \<longleftrightarrow>
     ctx_live i w' \<and> same_rest i w w' \<and> (ctx_notified i w \<longrightarrow> ctx_notified i w') \<and>
     (ctx_timer i w' = ctx_timer i w \<or> ctx_timer i w' = None \<and> ctx_notified i w')"

lemma ctx_run_refl: "ctx_live i w \<Longrightarrow> ctx_run i w w"
  by (auto simp: ctx_run_def same_rest_refl)

lemma ctx_run_live: "ctx_run i w w' \<Longrightarrow> ctx_live i w'"
  by (simp add: ctx_run_def)

lemma ctx_run_trans: "ctx_run i w w' \<Longrightarrow> ctx_run i w' w'' \<Longrightarrow> ctx_run i w w''"
  using same_rest_trans [of i w w' w''] by (auto simp: ctx_run_def)

lemma ctx_run_upd:
  assumes "ctx_run i w0 w" "same_id (w_conn i w) (h (w_conn i w))"
    "ctx_ptr (h (w_conn i w)) = map_option f (ctx_ptr (w_conn i w))"
    "\<And>x. sc_conn_ptr x \<noteq> None \<Longrightarrow> sc_conn_ptr (f x) \<noteq> None" "\<And>x. sc_worker_ptr x \<Longrightarrow> sc_worker_ptr (f x)"
    "\<And>x. app_layer_notified x \<Longrightarrow> app_layer_notified (f x)"
  shows "ctx_run i w0 (upd_wconn i h w)" "w_conn i (upd_wconn i h w) = h (w_conn i w)"
proof -
  have l: "ctx_live i w" using assms(1) by (rule ctx_run_live)
  note u = ctx_live_upd [of i w h f, OF l assms(2-5)]
  show c: "w_conn i (upd_wconn i h w) = h (w_conn i w)" by (rule u(2))
  obtain x where "ctx_ptr (w_conn i w) = Some x"
    using l by (auto simp: ctx_live_def ctx_ok_def ctx_attached_def split: option.splits)
  then have "ctx_notified i w \<Longrightarrow> ctx_notified i (upd_wconn i h w)"
    using assms(3,6) unfolding ctx_notified_def c by simp
  moreover have "ctx_timer i (upd_wconn i h w) = ctx_timer i w" using assms(2) c by (simp add: same_id_def)
  ultimately have "ctx_run i w (upd_wconn i h w)"
    using u(1) same_rest_upd [of w i h] assms(2) l by (auto simp: ctx_run_def same_id_def ctx_live_def ctx_ok_def worker_inv_def)
  then show "ctx_run i w0 (upd_wconn i h w)" by (rule ctx_run_trans [OF assms(1)])
qed

lemmas ctx_run_upd_id = ctx_run_upd [where f = "\<lambda>x. x", unfolded option.map_ident, simplified]

lemma ctx_run_event_mod: "ctx_run i w0 w \<Longrightarrow> ctx_run i w0 (ctx_event_mod i ev w)"
proof -
  assume r: "ctx_run i w0 w"
  have l: "ctx_live i w" using r by (rule ctx_run_live)
  have "m_conn_timeout_timer_manager (ctx_event_mod i ev w) = m_conn_timeout_timer_manager w" by (simp add: ctx_event_mod_def)
  then have "ctx_run i w (ctx_event_mod i ev w)"
    using same_rest_event_mod [OF l] ctx_live_event_mod [OF l] by (auto simp: ctx_run_def ctx_notified_def)
  then show "ctx_run i w0 (ctx_event_mod i ev w)" by (rule ctx_run_trans [OF r])
qed

lemma ctx_run_set_close: "ctx_run i w0 w \<Longrightarrow> ctx_run i w0 (set_conn_is_close i v w)"
  unfolding set_conn_is_close_def by (rule ctx_run_upd_id(1)) (simp_all add: same_id_def)

lemma ctx_run_move: "ctx_run i w0 w \<Longrightarrow> ctx_run i w0 (recv_buffer_move_read_ptr_n i n w)"
  unfolding recv_buffer_move_read_ptr_n_def by (rule ctx_run_upd_id(1)) (simp_all add: same_id_def)

lemma ctx_run_socket:
  assumes "ctx_run i w0 w" "m_sockfd s = m_sockfd (socket_obj (w_conn i w))"
  shows "ctx_run i w0 (upd_wconn i (socket_obj_update (\<lambda>_. s)) w)"
  by (rule ctx_run_upd_id(1) [OF assms(1)]) (simp_all add: same_id_def assms(2))

lemma ctx_run_forward: "ctx_run i w0 w \<Longrightarrow> ctx_run i w0 (snd (ctx_tunnel_forward E i [PROTO_TUNNEL_ID_OTHER] msg w))"
proof -
  assume r: "ctx_run i w0 w"
  have l: "ctx_live i w" using r by (rule ctx_run_live)
  have ok: "ctx_ok i w" using l by (simp add: ctx_live_def)
  let ?w' = "snd (ctx_tunnel_forward E i [PROTO_TUNNEL_ID_OTHER] msg w)"
  have o: "tunnel_only w ?w'" using ctx_forward(3) [OF ok, of E msg] by (metis prod.collapse)
  have "m_conn_timeout_timer_manager ?w' = m_conn_timeout_timer_manager w" using o unfolding tunnel_only_def by blast
  moreover have "w_conn i ?w' = w_conn i w" by (rule ctx_tunnel_only_conn [OF l o])
  ultimately have "ctx_run i w ?w'"
    using same_rest_tunnel_only [OF l o] ctx_live_forward [OF l, of E msg] by (auto simp: ctx_run_def ctx_notified_def)
  then show "ctx_run i w0 ?w'" by (rule ctx_run_trans [OF r])
qed

lemma ctx_run_recv_package: "ctx_run i w0 w \<Longrightarrow> ctx_run i w0 (app_forward_package E i p w)"
  by (simp add: app_forward_package_def ctx_run_forward)

lemma ctx_run_on_new: "ctx_run i w0 w \<Longrightarrow> ctx_run i w0 (app_on_new_connection E i w)"
  by (simp add: app_on_new_connection_def Let_def ctx_run_forward)

lemma ctx_run_on_close: "ctx_run i w0 w \<Longrightarrow> ctx_run i w0 (app_on_close_connection E i w)"
  by (simp add: app_on_close_connection_def Let_def ctx_run_forward)

lemma ctx_run_mark_notified: "ctx_run i w0 w \<Longrightarrow> ctx_run i w0 (ctx_mark_notified i True w)"
  unfolding ctx_mark_notified_def
  by (rule ctx_run_upd(1) [where f = "app_layer_notified_update (\<lambda>_. True)"]) (simp_all add: same_id_def)

text \<open>The timer is deleted behind the mark that the application knows the connection.\<close>

lemma ctx_run_announced:
  assumes "ctx_run i w0 w"
  shows "ctx_run i w0 (mark_delete_timeout_timer (gid (w_conn i (ctx_mark_notified i True w))) (ctx_mark_notified i True w))"
proof -
  let ?w1 = "ctx_mark_notified i True w"
  have r1: "ctx_run i w0 ?w1" by (rule ctx_run_mark_notified [OF assms])
  have l1: "ctx_live i ?w1" using r1 by (rule ctx_run_live)
  have inv1: "worker_inv ?w1" using l1 by (simp add: ctx_live_def ctx_ok_def)
  obtain x where x: "ctx_ptr (w_conn i w) = Some x"
    using ctx_run_live [OF assms] by (auto simp: ctx_live_def ctx_ok_def ctx_attached_def split: option.splits)
  have "w_conn i ?w1 = ctx_ptr_update (map_option (app_layer_notified_update (\<lambda>_. True))) (w_conn i w)"
    unfolding ctx_mark_notified_def
    by (rule ctx_run_upd(2) [OF assms, where f = "app_layer_notified_update (\<lambda>_. True)"]) (simp_all add: same_id_def)
  then have "ctx_notified i (mark_delete_timeout_timer (gid (w_conn i ?w1)) ?w1)"
    using x by (simp add: ctx_notified_def)
  moreover have "ctx_timer i (mark_delete_timeout_timer (gid (w_conn i ?w1)) ?w1) = None"
    using mark_delete_abs(2) [OF worker_invD(2) [OF inv1]] by (simp add: mark_delete_timeout_timer_def)
  ultimately have "ctx_run i ?w1 (mark_delete_timeout_timer (gid (w_conn i ?w1)) ?w1)"
    using same_rest_mark_delete [OF l1] ctx_live_mark_delete_timer [OF l1] by (simp add: ctx_run_def)
  then show ?thesis by (rule ctx_run_trans [OF r1])
qed

lemma ctx_run_flush:
  assumes "ctx_run i w0 w"
  shows "ctx_run i w0 (ctx_try_send_flush i w)"
proof -
  obtain b' s' r where sl: "send_loop (send_buffer (w_conn i w)) (socket_obj (w_conn i w)) = (b', s', r)"
    by (metis prod_cases3)
  let ?h = "\<lambda>c :: _ connection. c\<lparr>send_buffer := b', socket_obj := s'\<rparr>"
  have "ctx_run i w0 (upd_wconn i ?h w)"
    by (rule ctx_run_upd_id(1) [OF assms]) (simp_all add: same_id_def send_loop_facts(3) [OF sl])
  then show ?thesis
    using sl assms by (simp add: ctx_try_send_flush_def Let_def ctx_run_event_mod ctx_run_set_close split: option.splits)
qed

lemma ctx_run_append:
  "ctx_run i w0 w \<Longrightarrow> ctx_run i w0 (upd_wconn i (\<lambda>c. c\<lparr>recv_buffer := vsb_append d (recv_buffer c)\<rparr>) w)"
  "ctx_run i w0 w \<Longrightarrow> ctx_run i w0 (upd_wconn i (\<lambda>c. c\<lparr>send_buffer := vsb_append d (send_buffer c)\<rparr>) w)"
  by (rule ctx_run_upd_id(1); simp add: same_id_def)+

lemma ctx_run_ready: "ctx_run i w0 w \<Longrightarrow> ctx_run i w0 (upd_wconn i (is_ready_update (\<lambda>_. True)) w)"
  by (rule ctx_run_upd_id(1)) (simp_all add: same_id_def)

lemmas ctx_run_ops = ctx_run_event_mod ctx_run_set_close ctx_run_move ctx_run_recv_package ctx_run_on_new
  ctx_run_on_close ctx_run_mark_notified ctx_run_announced ctx_run_flush ctx_run_append ctx_run_ready

lemma ctx_run_send_data: "ctx_run i w0 w \<Longrightarrow> ctx_run i w0 (snd (ctx_send_data i data flush w))"
  by (simp add: ctx_send_data_def Let_def ctx_run_ops)


section \<open>Removal of a client\<close>

definition client_removed :: "nat \<Rightarrow> 'c worker \<Rightarrow> 'c worker \<Rightarrow> bool" where
  "client_removed i w w' \<longleftrightarrow>
     using_set (worker_connection_mgr w') = using_set (worker_connection_mgr w) - {i} \<and>
     unused_set (worker_connection_mgr w') = insert i (unused_set (worker_connection_mgr w)) \<and>
     m_sockfd (socket_obj (w_conn i w')) = - 1 \<and>
     (\<forall>f. get_conn f (worker_connection_mgr w') =
        (if f = fd (w_conn i w) then None else get_conn f (worker_connection_mgr w))) \<and>
     (\<forall>j. j \<noteq> i \<longrightarrow> recv_buffer (w_conn j w') = recv_buffer (w_conn j w) \<and> ctx_ptr (w_conn j w') = ctx_ptr (w_conn j w) \<and>
        (tunnel_slot w \<noteq> Some j \<longrightarrow> w_conn j w' = w_conn j w)) \<and>
     tunnel_in w' = tunnel_in w \<and>
     (\<forall>f. f \<noteq> fd (w_conn i w) \<and> tunnel_fd w \<noteq> Some f \<longrightarrow> k_interest (epoller w') f = k_interest (epoller w) f) \<and>
     tm_abs (m_conn_timeout_timer_manager w') (gid (w_conn i w)) = None \<and>
     (\<forall>g. g \<noteq> gid (w_conn i w) \<longrightarrow>
        tm_abs (m_conn_timeout_timer_manager w') g = tm_abs (m_conn_timeout_timer_manager w) g) \<and>
     worker_idx w' = worker_idx w \<and> w_type w' = w_type w \<and>
     m_closed_fd w' = insert (fd (w_conn i w)) (m_closed_fd w) \<and> m_timeout_fd w' = m_timeout_fd w \<and>
     m_latest_tick_time_monotonic w' = m_latest_tick_time_monotonic w \<and>
     worker_connection_num w' = worker_connection_num w - 1 \<and> curr_connection_num w' = curr_connection_num w - 1"

lemma release_slots:
  assumes "mgr_inv m" "get_conn f m = Some i"
  shows "using_set (snd (release_connection h f m)) = using_set m - {i}"
    "unused_set (snd (release_connection h f m)) = insert i (unused_set m)"
proof -
  obtain pool where pool: "connection_pool m = Some pool" using assms(1) by (auto simp: mgr_inv_def)
  obtain g where g: "fd2gid m f = Some g" "gid2index m g = Some i"
    using assms(2) by (auto simp: get_conn_def split: option.splits)
  then have "gid2fd m g = Some f" using assms(1) unfolding mgr_inv_def by blast
  then show "using_set (snd (release_connection h f m)) = using_set m - {i}"
    "unused_set (snd (release_connection h f m)) = insert i (unused_set m)"
    using g pool by (simp_all add: release_connection_def)
qed

lemma close_client_fd_simps [simp]:
  "worker_idx (close_client_fd h f w) = worker_idx w" "w_type (close_client_fd h f w) = w_type w"
  "m_closed_fd (close_client_fd h f w) = insert f (m_closed_fd w)" "m_timeout_fd (close_client_fd h f w) = m_timeout_fd w"
  "m_latest_tick_time_monotonic (close_client_fd h f w) = m_latest_tick_time_monotonic w"
  "worker_connection_num (close_client_fd h f w) = worker_connection_num w - 1"
  "curr_connection_num (close_client_fd h f w) = curr_connection_num w - 1"
  "main_worker_tunnel (close_client_fd h f w) = main_worker_tunnel w" "w_to_stop (close_client_fd h f w) = w_to_stop w"
  by (simp_all add: close_client_fd_def Let_def split: option.splits)

lemma ctx_live_facts:
  assumes "ctx_live i w"
  shows "worker_inv w" "get_conn (fd (w_conn i w)) (worker_connection_mgr w) = Some i"
    "m_sockfd (socket_obj (w_conn i w)) = fd (w_conn i w)" "0 \<le> fd (w_conn i w)"
    "main_worker_tunnel w = Some sock \<Longrightarrow> m_sockfd sock \<noteq> fd (w_conn i w)" "tunnel_slot w \<noteq> Some i"
    "tunnel_fd w \<noteq> Some (fd (w_conn i w))"
proof -
  show inv: "worker_inv w" "m_sockfd (socket_obj (w_conn i w)) = fd (w_conn i w)" "0 \<le> fd (w_conn i w)"
    "main_worker_tunnel w = Some sock \<Longrightarrow> m_sockfd sock \<noteq> fd (w_conn i w)"
    using assms by (auto simp: ctx_live_def ctx_ok_def)
  show "get_conn (fd (w_conn i w)) (worker_connection_mgr w) = Some i"
    using using_get_conn [OF worker_invD(1) [OF inv(1)]] assms by (simp add: ctx_live_def ctx_ok_def)
  show "tunnel_slot w \<noteq> Some i"
    using assms by (rule ctx_live_not_tunnel) (simp add: tunnel_slot_def tunnel_fd_def)
  show "tunnel_fd w \<noteq> Some (fd (w_conn i w))" using assms by (auto simp: tunnel_fd_def ctx_live_def)
qed

lemma close_client_removed:
  assumes "worker_inv w" "get_conn f (worker_connection_mgr w) = Some i"
  shows "client_removed i w (close_client_fd h f w)"
proof -
  note k = close_client_fd_known [OF assms, of h]
  have m: "mgr_inv (worker_connection_mgr w)" "tm_inv (m_conn_timeout_timer_manager w)" using worker_invD [OF assms(1)] by simp_all
  note c = get_conn_facts [OF m(1) assms(2)]
  have i: "i < length (the (connection_pool (worker_connection_mgr w)))" using mgr_inv_used [OF m(1) c(1)] by auto
  have "m_sockfd (socket_obj (w_conn i w)) = - 1 \<or> 0 \<le> m_sockfd (socket_obj (w_conn i w))"
    using worker_invD(5) [OF assms(1) i] by auto
  then have "m_sockfd (socket_obj (w_conn i (close_client_fd h f w))) = - 1"
    using k(1) release_pool [OF m(1) assms(2), of h] i by (auto simp: conn_at_def socket_close_def Let_def)
  moreover have "tunnel_in (close_client_fd h f w) = tunnel_in w" by (simp add: tunnel_in_def)
  ultimately show ?thesis
    unfolding client_removed_def
    using k(1,2,5,7) c(2) get_conn_release [OF m(1) assms(2), of _ h] release_slots [OF m(1) assms(2), of h]
      mark_delete_abs(2) [OF m(2), of "gid (w_conn i w)"] close_client_fd_others [OF assms, of _ h]
    by simp
qed

lemma removed_after_run:
  assumes "same_rest i w w1" "client_removed i w1 w'"
  shows "client_removed i w w'"
proof -
  note s = same_rest_id [OF assms(1)]
  have "j \<noteq> i \<Longrightarrow> recv_buffer (w_conn j w') = recv_buffer (w_conn j w) \<and> ctx_ptr (w_conn j w') = ctx_ptr (w_conn j w) \<and>
      (tunnel_slot w \<noteq> Some j \<longrightarrow> w_conn j w' = w_conn j w)" for j
    using same_rest_conn [OF assms(1), of j] assms(2) s(5) unfolding client_removed_def by auto
  then show ?thesis
    using assms s unfolding client_removed_def by (simp add: same_rest_def)
qed

lemma ctx_close_removed:
  assumes "ctx_live i w"
  shows "client_removed i w (ctx_close E i w)"
proof -
  let ?w2 = "if is_ready (w_conn i w) then app_on_close_connection E i w else w"
  have r: "ctx_run i w ?w2" using ctx_run_refl [OF assms] by (simp add: ctx_run_ops)
  have l: "ctx_live i ?w2" by (rule ctx_run_live [OF r])
  have "client_removed i ?w2 (close_client_fd ctx_on_close (fd (w_conn i ?w2)) ?w2)" by (rule close_client_removed [OF ctx_live_facts(1,2) [OF l]])
  then have "client_removed i w (close_client_fd ctx_on_close (fd (w_conn i ?w2)) ?w2)"
    using removed_after_run r by (auto simp: ctx_run_def)
  then show ?thesis unfolding ctx_close_def Let_def using ctx_live_facts(3) [OF l] by simp
qed

lemma ctx_closing_removed:
  assumes "ctx_live i w"
  shows "client_removed i w (ctx_close E i (if ev AND ERR \<noteq> 0 then set_conn_is_close i True w else w))"
proof -
  let ?w1 = "if ev AND ERR \<noteq> 0 then set_conn_is_close i True w else w"
  have r: "ctx_run i w ?w1" using ctx_run_refl [OF assms] by (simp add: ctx_run_ops)
  then show ?thesis
    using removed_after_run [of i w ?w1] ctx_close_removed [OF ctx_run_live [OF r], of E] by (simp add: ctx_run_def)
qed

end
