(* ===== verification/Stream_Ctx.thy ===== *)
theory Stream_Ctx
  imports Client_Frame "HOL-Library.Sublist"
begin

text \<open>
  The stream task: the connection context (src/connection/stream\_ctx.cpp) and its application
  (src/app/stream\_app.cpp), which cuts the byte stream of a client into length-prefixed packages
  and hands each to the script thread through the tunnel. A context belongs to the connection
  in slot \<open>i\<close> of the worker's pool. The application code throws no exception of its own, so the
  catch blocks are not reached.
\<close>

type_synonym stream_worker = "client_ctx worker"

section \<open>The application\<close>

definition on_recved_packsize :: "u64 \<Rightarrow> bool" where
  "on_recved_packsize n \<longleftrightarrow> n \<le> 10240"

text \<open>
  The parsing loop; \<open>left\<close> is the number of packages that may still be handled in this call
  (the code counts up to \<^verbatim>\<open>INT32_MAX\<close>).
\<close>

fun stream_process_loop :: "nat \<Rightarrow> params \<Rightarrow> nat \<Rightarrow> stream_worker \<Rightarrow> stream_worker" where
  "stream_process_loop 0 E i w = w"
| "stream_process_loop (Suc left) E i w =
     (let buf = get_read_ptr (recv_buffer (w_conn i w))
      in if length buf = 0 then w
         else if length buf \<ge> 8 then
           (let data_size = toh64_from_buffer buf
            in if \<not> on_recved_packsize data_size
               then ctx_event_mod i RWE (set_conn_is_close i True w)
               else if data_size + 8 > of_nat (length buf) then w
               else if data_size = 0 then recv_buffer_move_read_ptr_n i 8 w
               else
                 (case parse_package E (take (unat data_size) (drop 8 buf)) of
                    None \<Rightarrow> recv_buffer_move_read_ptr_n i (8 + unat data_size) w
                  | Some package \<Rightarrow>
                      stream_process_loop left E i
                        (app_forward_package E i package
                          (recv_buffer_move_read_ptr_n i (8 + unat data_size) w))))
         else w)"

definition INT32_MAX :: nat where "INT32_MAX = 2147483647"

definition stream_on_process_connection :: "params \<Rightarrow> nat \<Rightarrow> stream_worker \<Rightarrow> stream_worker" where
  "stream_on_process_connection E i w =
     (if vsb_size (recv_buffer (w_conn i w)) > 2048000
      then ctx_event_mod i RWE (set_conn_is_close i True w)
      else stream_process_loop INT32_MAX E i w)"

definition stream_send_sync_package :: "params \<Rightarrow> nat \<Rightarrow> proto_package \<Rightarrow> stream_worker \<Rightarrow> int \<times> stream_worker" where
  "stream_send_sync_package E i package w =
     (if vsb_size (send_buffer (w_conn i w)) > 1024000
      then (- 1, ctx_event_mod i RWE (set_conn_is_close i True w))
      else ctx_send_data i (pack_package (ser_package E) package) True w)"

definition stream_on_client_forward_message ::
    "params \<Rightarrow> nat \<Rightarrow> client_forward_message \<Rightarrow> stream_worker \<Rightarrow> stream_worker" where
  "stream_on_client_forward_message E i message w = snd (stream_send_sync_package E i (cf_inner message) w)"

section \<open>Events of a connection\<close>

text \<open>What both \<^verbatim>\<open>on_create\<close> and the completed handshake do to announce a connection.\<close>

definition stream_announce :: "params \<Rightarrow> nat \<Rightarrow> stream_worker \<Rightarrow> stream_worker" where
  "stream_announce E i w =
     (let w1 = upd_wconn i (is_ready_update (\<lambda>_. True)) w;
          w2 = ctx_mark_notified i True w1;
          w3 = mark_delete_timeout_timer (gid (w_conn i w2)) w2
      in app_on_new_connection E i w3)"

definition stream_on_create :: "params \<Rightarrow> nat \<Rightarrow> stream_worker \<Rightarrow> stream_worker" where
  "stream_on_create E i w =
     (let w1 = ctx_mark_notified i False w;
          w2 = upd_wconn i (ctx_ptr_update (map_option (\<lambda>x. x\<lparr>sc_conn_ptr := Some i, sc_worker_ptr := True\<rparr>))) w1
      in if \<not> p_use_ssl E then stream_announce E i w2 else w2)"

text \<open>The part of \<^verbatim>\<open>on_event\<close> behind the handshake: read, parse, write.\<close>

definition stream_io :: "params \<Rightarrow> nat \<Rightarrow> u32 \<Rightarrow> stream_worker \<Rightarrow> stream_worker" where
  "stream_io E i event w =
     (let s = socket_obj (w_conn i w);
          (buffer, fatal, s') = (if event AND READ \<noteq> 0
                                 then ctx_read_loop (Suc (rx_weight (k_rx s))) [] 0 s else ([], False, s));
          w1 = upd_wconn i (socket_obj_update (\<lambda>_. s')) w
      in if fatal then ctx_event_mod i RWE (set_conn_is_close i True w1)
         else
           (let w2 = (if length buffer > 0
                      then upd_wconn i (\<lambda>c. c\<lparr>recv_buffer := vsb_append buffer (recv_buffer c)\<rparr>) w1 else w1);
                w3 = (if vsb_size (recv_buffer (w_conn i w2)) > 0 then stream_on_process_connection E i w2 else w2)
            in if event AND WRITE \<noteq> 0 then ctx_try_send_flush i w3 else w3))"

definition stream_on_event :: "params \<Rightarrow> nat \<Rightarrow> u32 \<Rightarrow> stream_worker \<Rightarrow> stream_worker" where
  "stream_on_event E i event w =
     (if \<not> ctx_attached i w then w
      else
        (let w1 = (if event AND ERR \<noteq> 0 then set_conn_is_close i True w else w)
         in if is_close (w_conn i w1)
            then ctx_close E i w1
            else if p_use_ssl E \<and> \<not> m_ssl_accepted (socket_obj (w_conn i w1))
            then
              (let (h, s') = ssl_accept (socket_obj (w_conn i w1));
                   w2 = upd_wconn i (socket_obj_update (\<lambda>_. s')) w1
               in case h of
                    Hs_done \<Rightarrow>
                      stream_io E i event
                        (stream_announce E i (upd_wconn i (socket_obj_update (set_ssl_accepted True)) w2))
                  | Hs_zero \<Rightarrow> ctx_event_mod i RWE w2
                  | Hs_want_read \<Rightarrow> ctx_event_mod i RE w2
                  | Hs_want_write \<Rightarrow> ctx_event_mod i RWE w2
                  | Hs_fail \<Rightarrow> ctx_event_mod i RWE (set_conn_is_close i True w2))
            else stream_io E i event w1))"

definition stream_consume :: "params \<Rightarrow> nat \<Rightarrow> nat \<Rightarrow> proto_package \<Rightarrow> stream_worker \<Rightarrow> stream_worker" where
  "stream_consume E i n package w = app_forward_package E i package (recv_buffer_move_read_ptr_n i n w)"

lemma stream_consume_drops:
  "ctx_ok i w \<Longrightarrow> ctx_ok i (stream_consume E i n p w) \<and> ctx_buf i (stream_consume E i n p w) = drop n (ctx_buf i w)"
  using ctx_move_facts(1,2) [of i w n] app_forward_package_facts(1,3) [of i "recv_buffer_move_read_ptr_n i n w" E p]
  by (simp add: stream_consume_def)

section \<open>Cutting the stream into packages\<close>

lemma u64_sum_gt:
  assumes "unat (a :: u64) \<le> 10240" "n < 2 ^ 63"
  shows "a + 8 > of_nat n \<longleftrightarrow> n < 8 + unat a"
proof -
  have "unat (a + 8) = unat a + 8" using assms(1) by (simp add: unat_word_ariths)
  moreover have "unat (of_nat n :: u64) = n" using assms(2) by (simp add: unat_of_nat)
  ultimately show ?thesis by (simp add: word_less_nat_alt add.commute)
qed

lemma on_recved_packsize_unat: "on_recved_packsize n \<longleftrightarrow> unat n \<le> 10240"
  by (simp add: on_recved_packsize_def word_le_nat_alt)

interpretation sfr: framed_reader "ctx_ok i" "ctx_buf i" 10240 "parse_package E" "stream_consume E i" "\<lambda>k. stream_process_loop k E i"
  for E i
proof
  fix w :: stream_worker and d rest p k
  assume w: "ctx_ok i w" and b: "ctx_buf i w = frame d @ rest" and d: "d \<noteq> []" "length d \<le> 10240"
    and p: "parse_package E d = Some p" and len: "length (ctx_buf i w) < 2 ^ 63"
  have u: "unat (toh64_from_buffer (ctx_buf i w)) = length d" using b d(2) by (simp add: unat_of_nat)
  then have nz: "toh64_from_buffer (ctx_buf i w) \<noteq> 0" using d(1) by (metis length_greater_0_conv less_irrefl unat_0)
  have "\<not> toh64_from_buffer (ctx_buf i w) + 8 > of_nat (length (ctx_buf i w))"
    using u64_sum_gt [of "toh64_from_buffer (ctx_buf i w)" "length (ctx_buf i w)"] u d(2) b len by simp
  moreover have "take (length d) (drop 8 (ctx_buf i w)) = d" using b by simp
  ultimately show "stream_process_loop (Suc k) E i w = stream_process_loop k E i (stream_consume E i (8 + length d) p w)"
    using b d u nz p by (simp add: ctx_buf_def stream_consume_def on_recved_packsize_unat Let_def)
next
  fix w :: stream_worker and k
  assume "ctx_ok i w" "incomplete 10240 (ctx_buf i w)" "length (ctx_buf i w) < 2 ^ 63"
  then show "stream_process_loop (Suc k) E i w = w"
    using u64_sum_gt [of "toh64_from_buffer (ctx_buf i w)" "length (ctx_buf i w)"]
    by (auto simp: incomplete_def ctx_buf_def on_recved_packsize_unat Let_def)
qed (simp add: stream_consume_drops)

lemma stream_consume_wire:
  assumes "ctx_ok i w"
  shows "tunnel_stream (stream_consume E i n p w) = tunnel_stream w @ luavm_wire E (worker_idx w) (gid (w_conn i w)) p"
    "worker_idx (stream_consume E i n p w) = worker_idx w" "gid (w_conn i (stream_consume E i n p w)) = gid (w_conn i w)"
    "is_close (w_conn i (stream_consume E i n p w)) = is_close (w_conn i w)" "tunnel_watched (stream_consume E i n p w)"
proof -
  let ?w = "recv_buffer_move_read_ptr_n i n w"
  note mv = ctx_move_facts [OF assms, of n]
  note rp = app_forward_package_facts [OF mv(1), of E p]
  note to = tunnel_only_conn(3,6) [OF rp(2), of i]
  have inv: "worker_inv ?w" using mv(1) by (simp add: ctx_ok_def)
  have idx: "worker_idx ?w = worker_idx w" by (simp add: recv_buffer_move_read_ptr_n_def)
  show "tunnel_stream (stream_consume E i n p w) = tunnel_stream w @ luavm_wire E (worker_idx w) (gid (w_conn i w)) p"
    "tunnel_watched (stream_consume E i n p w)"
    using rp(4,5) mv(3,4) idx by (simp_all add: stream_consume_def)
  show "worker_idx (stream_consume E i n p w) = worker_idx w" "gid (w_conn i (stream_consume E i n p w)) = gid (w_conn i w)"
    "is_close (w_conn i (stream_consume E i n p w)) = is_close (w_conn i w)"
    using tunnel_only_conn(11) [OF rp(2) inv] to [OF inv] mv(3) idx by (simp_all add: stream_consume_def)
qed

lemma stream_deliver_all:
  assumes "ctx_ok i w"
  shows "tunnel_stream (fold (sfr.deliver E i) ds w) =
      tunnel_stream w @ concat (map (\<lambda>d. luavm_wire E (worker_idx w) (gid (w_conn i w)) (the (parse_package E d))) ds)
    \<and> is_close (w_conn i (fold (sfr.deliver E i) ds w)) = is_close (w_conn i w)
    \<and> (ds \<noteq> [] \<longrightarrow> tunnel_watched (fold (sfr.deliver E i) ds w))"
  using assms
proof (induction ds arbitrary: w)
  case (Cons d ds)
  let ?w = "stream_consume E i (8 + length d) (the (parse_package E d)) w"
  have ok: "ctx_ok i ?w" using stream_consume_drops [OF Cons.prems] by blast
  note cw = stream_consume_wire [OF Cons.prems, of E "8 + length d" "the (parse_package E d)"]
  show ?case using Cons.IH [OF ok] cw by (cases ds) (simp_all add: sfr.deliver_def)
qed simp

lemma frames_count: "8 * length ds \<le> length (concat (map frame ds))"
  by (induction ds) auto

text \<open>
  C8. Whatever complete packages a client has sent, each non-empty, at most 10240 bytes long and
  parsable, followed by an incomplete one, and at most 2048000 bytes in all, the stream
  application hands every one of them, in order and exactly once, to the script thread's
  queue, leaves the incomplete rest in the receive buffer, keeps the connection open and the
  worker consistent, and leaves no handed-over byte unwatched.
\<close>

theorem stream_packages_delivered:
  assumes "ctx_ok i w" "ctx_buf i w = concat (map frame ds) @ tail" "incomplete 10240 tail"
    "\<forall>d\<in>set ds. d \<noteq> [] \<and> length d \<le> 10240 \<and> parse_package E d \<noteq> None"
    "length (ctx_buf i w) \<le> 2048000"
  shows "ctx_ok i (stream_on_process_connection E i w) \<and>
         ctx_buf i (stream_on_process_connection E i w) = tail \<and>
         tunnel_stream (stream_on_process_connection E i w) = tunnel_stream w @
           concat (map (\<lambda>d. luavm_wire E (worker_idx w) (gid (w_conn i w)) (the (parse_package E d))) ds) \<and>
         is_close (w_conn i (stream_on_process_connection E i w)) = is_close (w_conn i w) \<and>
         (ds \<noteq> [] \<longrightarrow> tunnel_watched (stream_on_process_connection E i w))"
proof -
  have k: "length ds < INT32_MAX" using frames_count [of ds] assms(2,5) by (simp add: INT32_MAX_def)
  have wf: "sfr.well_formed E ds" using assms(4) by (simp add: sfr.well_formed_def)
  have "stream_process_loop INT32_MAX E i w = fold (sfr.deliver E i) ds w \<and>
      ctx_ok i (fold (sfr.deliver E i) ds w) \<and> ctx_buf i (fold (sfr.deliver E i) ds w) = tail"
    using sfr.drains [OF assms(1,2) wf assms(3) k] assms(5) by simp
  then show ?thesis
    using stream_deliver_all [OF assms(1), of E ds] assms(5)
    by (simp add: stream_on_process_connection_def ctx_buf_def)
qed

theorem stream_packages_delivered_witness:
  "let w = demo_worker (Some demo_ctx) (frame [7, 1, 2] @ frame [8] @ [0, 0, 0]) [] [Tx_accept 20];
       w' = stream_on_process_connection demo_params 1 w
   in ctx_ok 1 w' \<and> ctx_buf 1 w' = [0, 0, 0] \<and>
      tunnel_stream w' = tunnel_stream w @
        luavm_wire demo_params 0 4096 \<lparr>cmd = 7, protocol = [1, 2]\<rparr> @ luavm_wire demo_params 0 4096 \<lparr>cmd = 8, protocol = []\<rparr>"
proof -
  let ?w = "demo_worker (Some demo_ctx) (frame [7, 1, 2] @ frame [8] @ [0, 0, 0]) [] [Tx_accept 20]"
  have g: "gid (w_conn 1 ?w) = 4096" "worker_idx ?w = 0"
    by (simp_all add: demo_worker_def demo_mgr_def conn_at_def)
  show ?thesis
    using stream_packages_delivered [OF demo_ctx_ok, of "frame [7, 1, 2] @ frame [8] @ [0, 0, 0]" "[]" "[Tx_accept 20]"
        "[[7, 1, 2], [8]]" "[0, 0, 0]" demo_params]
    unfolding Let_def by (simp add: demo_ctx_buf incomplete_def g del: One_nat_def)
qed

section \<open>What the script thread hears of a client\<close>

text \<open>
  A step in which the script thread hears of the packages \<open>ds\<close> of a live client and of nothing else.
\<close>

definition client_said :: "params \<Rightarrow> nat \<Rightarrow> bytes list \<Rightarrow> stream_worker \<Rightarrow> stream_worker \<Rightarrow> bool" where
  "client_said E i ds w w' \<longleftrightarrow>
     ctx_run i w w' \<and> is_ready (w_conn i w') = is_ready (w_conn i w) \<and>
     m_ssl_accepted (socket_obj (w_conn i w')) = m_ssl_accepted (socket_obj (w_conn i w)) \<and>
     tunnel_stream w' = tunnel_stream w @
       concat (map (\<lambda>d. luavm_wire E (worker_idx w) (gid (w_conn i w)) (the (parse_package E d))) ds)"

lemma ctx_run_ids:
  assumes "ctx_run i w w'"
  shows "gid (w_conn i w') = gid (w_conn i w)" "fd (w_conn i w') = fd (w_conn i w)" "worker_idx w' = worker_idx w" "os_closed w' = os_closed w"
  using assms same_rest_id(1,2) [of i w w'] by (simp_all add: ctx_run_def same_rest_def)

lemma client_said_refl: "ctx_live i w \<Longrightarrow> client_said E i [] w w"
  by (simp add: client_said_def ctx_run_refl)

lemma client_said_trans: "client_said E i ds w w' \<Longrightarrow> client_said E i ds' w' w'' \<Longrightarrow> client_said E i (ds @ ds') w w''"
  using ctx_run_trans [of i w w' w''] ctx_run_ids [of i w w'] by (simp add: client_said_def)

lemma client_said_live: "client_said E i ds w w' \<Longrightarrow> ctx_live i w'"
  using ctx_run_live [of i w w'] by (simp add: client_said_def)

lemma client_said_upd:
  assumes "client_said E i ds w0 w" "same_id (w_conn i w) (h (w_conn i w))" "ctx_ptr (h (w_conn i w)) = ctx_ptr (w_conn i w)"
    "is_ready (h (w_conn i w)) = is_ready (w_conn i w)" "m_ssl_accepted (socket_obj (h (w_conn i w))) = m_ssl_accepted (socket_obj (w_conn i w))"
  shows "client_said E i ds w0 (upd_wconn i h w)"
proof -
  have r: "ctx_run i w0 w" using assms(1) by (simp add: client_said_def)
  have u: "ctx_run i w0 (upd_wconn i h w)" "w_conn i (upd_wconn i h w) = h (w_conn i w)"
    using ctx_run_upd_id [where h = h, OF r assms(2,3)] by simp_all
  show ?thesis using assms u tunnel_stream_upd [OF ctx_run_live [OF r], of h] by (simp add: client_said_def)
qed

lemma client_said_event_mod: "client_said E i ds w0 w \<Longrightarrow> client_said E i ds w0 (ctx_event_mod i ev w)"
  by (simp add: client_said_def ctx_run_event_mod)

lemma client_said_close: "client_said E i ds w0 w \<Longrightarrow> client_said E i ds w0 (set_conn_is_close i v w)"
  unfolding set_conn_is_close_def by (rule client_said_upd) (simp_all add: same_id_def)

lemma client_said_move: "client_said E i ds w0 w \<Longrightarrow> client_said E i ds w0 (recv_buffer_move_read_ptr_n i n w)"
  unfolding recv_buffer_move_read_ptr_n_def by (rule client_said_upd) (simp_all add: same_id_def)

lemma client_said_forward:
  assumes "client_said E i ds w0 w" "parse_package E d = Some p"
  shows "client_said E i (ds @ [d]) w0 (app_forward_package E i p w)"
proof -
  have l: "ctx_live i w" by (rule client_said_live [OF assms(1)])
  then have ok: "ctx_ok i w" "worker_inv w" by (simp_all add: ctx_live_def ctx_ok_def)
  note f = app_forward_package_facts [OF ok(1), of E p]
  have "client_said E i [d] w (app_forward_package E i p w)"
    using ctx_run_recv_package [OF ctx_run_refl [OF l], of E p] tunnel_only_conn(2,7) [OF f(2) ok(2), of i] f(5) assms(2)
    by (simp add: client_said_def)
  then show ?thesis by (rule client_said_trans [OF assms(1)])
qed

lemma client_said_flush:
  assumes "client_said E i ds w0 w"
  shows "client_said E i ds w0 (ctx_try_send_flush i w)"
proof -
  have l: "ctx_live i w" by (rule client_said_live [OF assms])
  obtain b s c where "w_conn i (ctx_try_send_flush i w) = (w_conn i w)\<lparr>send_buffer := b, socket_obj := s, is_close := c\<rparr>"
    using ctx_flush_conn(1) [OF l] by blast
  then show ?thesis
    using assms ctx_flush_conn(2-4) [OF l] by (simp add: client_said_def ctx_run_flush)
qed

lemmas client_said_ops = client_said_event_mod client_said_close client_said_move client_said_flush

text \<open>A complete frame at the front of the buffer.\<close>

lemma frame_front:
  assumes "8 \<le> length buf" "unat (toh64_from_buffer buf) + 8 \<le> length buf"
  shows "buf = frame (take (unat (toh64_from_buffer buf)) (drop 8 buf)) @ drop (8 + unat (toh64_from_buffer buf)) buf"
proof -
  let ?n = "unat (toh64_from_buffer buf)"
  have "length (take ?n (drop 8 buf)) = ?n" using assms by simp
  then have "frame (take ?n (drop 8 buf)) = mem_of_u64 (ton64 (toh64_from_buffer buf)) @ take ?n (drop 8 buf)"
    by (simp add: frame_def)
  also have "mem_of_u64 (ton64 (toh64_from_buffer buf)) = take 8 buf" using assms(1) by (simp add: toh64_from_buffer_def)
  finally show ?thesis by (metis append.assoc append_take_drop_id drop_drop add.commute)
qed

lemma process_loop_said:
  assumes "ctx_live i w" "length (ctx_buf i w) < 2 ^ 63"
  shows "\<exists>ds rest. ctx_buf i w = concat (map frame ds) @ rest \<and> list_all (\<lambda>d. parse_package E d \<noteq> None) ds \<and>
    client_said E i ds w (stream_process_loop k E i w)"
  using assms
proof (induction k arbitrary: w)
  case 0
  then show ?case using client_said_refl [of i w E] by (intro exI [of _ "[]"] exI [of _ "ctx_buf i w"]) simp
next
  case (Suc k)
  let ?buf = "ctx_buf i w"
  let ?w' = "stream_process_loop (Suc k) E i w"
  let ?n = "toh64_from_buffer ?buf"
  let ?d = "take (unat ?n) (drop 8 ?buf)"
  have r: "client_said E i [] w w" by (rule client_said_refl [OF Suc.prems(1)])
  have quiet: ?case if "client_said E i [] w ?w'"
    using that by (intro exI [of _ "[]"] exI [of _ ?buf]) simp
  show ?case
  proof (cases "length ?buf \<ge> 8 \<and> on_recved_packsize ?n \<and> \<not> ?n + 8 > of_nat (length ?buf) \<and> ?n \<noteq> 0 \<and> parse_package E ?d \<noteq> None")
    case False
    have b: "get_read_ptr (recv_buffer (w_conn i w)) = ?buf" by (simp add: ctx_buf_def)
    have "?w' \<in> {w, ctx_event_mod i RWE (set_conn_is_close i True w), recv_buffer_move_read_ptr_n i 8 w,
        recv_buffer_move_read_ptr_n i (8 + unat ?n) w}"
      using False unfolding stream_process_loop.simps b Let_def by (auto split: option.splits)
    then have "client_said E i [] w ?w'" using r client_said_ops(1-3) [of E i "[]" w] by (auto simp del: stream_process_loop.simps)
    then show ?thesis by (rule quiet)
  next
    case True
    then obtain p where p: "parse_package E ?d = Some p" by auto
    let ?w1 = "recv_buffer_move_read_ptr_n i (8 + unat ?n) w"
    let ?w2 = "app_forward_package E i p ?w1"
    have n: "unat ?n + 8 \<le> length ?buf"
      using True u64_sum_gt [of ?n "length ?buf"] Suc.prems(2) by (simp add: on_recved_packsize_unat)
    have s2: "client_said E i [?d] w ?w2"
      using client_said_forward [OF client_said_move [OF r], of ?d p "8 + unat ?n"] p by simp
    have ok: "ctx_ok i w" "ctx_ok i ?w1" using Suc.prems(1) ctx_live_move [OF Suc.prems(1), of "8 + unat ?n"] by (simp_all add: ctx_live_def)
    have b2: "ctx_buf i ?w2 = drop (8 + unat ?n) ?buf"
      using app_forward_package_facts(3) [OF ok(2)] ctx_move_facts(2) [OF ok(1)] by simp
    have l2: "ctx_live i ?w2" "length (ctx_buf i ?w2) < 2 ^ 63" using client_said_live [OF s2] b2 Suc.prems(2) by simp_all
    obtain ds rest where IH: "ctx_buf i ?w2 = concat (map frame ds) @ rest" "list_all (\<lambda>d. parse_package E d \<noteq> None) ds"
        "client_said E i ds ?w2 (stream_process_loop k E i ?w2)"
      using Suc.IH [OF l2] by blast
    have e: "?w' = stream_process_loop k E i ?w2"
    proof -
      have "?buf \<noteq> []" using True by auto
      then show ?thesis using True p by (simp add: Let_def ctx_buf_def)
    qed
    have "?buf = frame ?d @ ctx_buf i ?w2" using frame_front [of ?buf] True n b2 by simp
    then have "?buf = concat (map frame (?d # ds)) @ rest" using IH(1) by simp
    moreover have "client_said E i (?d # ds) w ?w'" using client_said_trans [OF s2 IH(3)] e by simp
    moreover have "list_all (\<lambda>d. parse_package E d \<noteq> None) (?d # ds)" using IH(2) p by simp
    ultimately show ?thesis by blast
  qed
qed

lemma process_said:
  assumes "ctx_live i w"
  shows "\<exists>ds rest. ctx_buf i w = concat (map frame ds) @ rest \<and> list_all (\<lambda>d. parse_package E d \<noteq> None) ds \<and>
    client_said E i ds w (stream_on_process_connection E i w)"
proof (cases "vsb_size (recv_buffer (w_conn i w)) > 2048000")
  case True
  have "client_said E i [] w (ctx_event_mod i RWE (set_conn_is_close i True w))"
    by (intro client_said_ops client_said_refl assms)
  then show ?thesis using True
    by (intro exI [of _ "[]"] exI [of _ "ctx_buf i w"]) (simp add: stream_on_process_connection_def)
next
  case False
  then show ?thesis
    using process_loop_said [OF assms, of E INT32_MAX] by (simp add: stream_on_process_connection_def ctx_buf_def del: stream_process_loop.simps)
qed

lemma ctx_read_loop_bytes:
  "ctx_read_loop k buffer e s = (buffer', fatal, s') \<Longrightarrow>
     buffer' @ rx_bytes (k_rx s') = buffer @ rx_bytes (k_rx s) \<and> m_ssl_accepted s' = m_ssl_accepted s"
proof (induction k arbitrary: buffer e s)
  case (Suc k)
  obtain n bs e' s1 where r: "socket_recv (10240 - length buffer) e s = (n, bs, e', s1)" by (metis prod_cases4)
  note f = socket_recv_bytes [OF r] socket_recv_facts(4,5) [OF r]
  from Suc.prems show ?case
    using f Suc.IH [of "buffer" e' s1] Suc.IH [of "buffer @ bs" e' s1]
    unfolding ctx_read_loop.simps r by (auto split: if_splits)
qed (simp add: ctx_read_loop.simps)

text \<open>
  What one event may tell the scripts of a client: packages that are complete frames at the front of
  what was buffered and what the client sent, in that order.
\<close>

definition sent_by :: "params \<Rightarrow> nat \<Rightarrow> bytes list \<Rightarrow> stream_worker \<Rightarrow> bool" where
  "sent_by E i ds w \<longleftrightarrow>
     prefix (concat (map frame ds)) (ctx_buf i w @ rx_bytes (k_rx (socket_obj (w_conn i w)))) \<and>
     list_all (\<lambda>d. parse_package E d \<noteq> None) ds"

lemma sent_by_nil: "sent_by E i [] w"
  by (simp add: sent_by_def)

lemma client_said_socket:
  assumes "client_said E i ds w0 w" "m_sockfd s = m_sockfd (socket_obj (w_conn i w))" "m_ssl_accepted s = m_ssl_accepted (socket_obj (w_conn i w))"
  shows "client_said E i ds w0 (upd_wconn i (socket_obj_update (\<lambda>_. s)) w)"
  by (rule client_said_upd [OF assms(1)]) (simp_all add: same_id_def assms(2,3))

lemma io_said:
  assumes "ctx_live i w"
  shows "\<exists>ds. sent_by E i ds w \<and> client_said E i ds w (stream_io E i ev w)"
proof -
  let ?s = "socket_obj (w_conn i w)"
  define r where "r = (if ev AND READ \<noteq> 0 then ctx_read_loop (Suc (rx_weight (k_rx ?s))) [] 0 ?s else ([], False, ?s))"
  obtain buffer fatal s' where rr: "r = (buffer, fatal, s')" by (metis prod_cases3)
  have f: "m_sockfd s' = m_sockfd ?s" "buffer @ rx_bytes (k_rx s') = rx_bytes (k_rx ?s)" "m_ssl_accepted s' = m_ssl_accepted ?s"
    using rr ctx_read_loop_facts [of "Suc (rx_weight (k_rx ?s))" "[]" 0 ?s buffer fatal s']
      ctx_read_loop_bytes [of "Suc (rx_weight (k_rx ?s))" "[]" 0 ?s buffer fatal s']
    by (auto simp: r_def split: if_splits)
  have c0: "client_said E i [] w w" by (rule client_said_refl [OF assms])
  define w1 where "w1 = upd_wconn i (socket_obj_update (\<lambda>_. s')) w"
  have c1: "client_said E i [] w w1" unfolding w1_def by (rule client_said_socket [OF c0 f(1,3)])
  have b1: "w_conn i w1 = (w_conn i w)\<lparr>socket_obj := s'\<rparr>"
    unfolding w1_def using ctx_live_upd_id(2) [OF assms, of "socket_obj_update (\<lambda>_. s')"] f(1) by (simp add: same_id_def)
  let ?h = "\<lambda>c. c\<lparr>recv_buffer := vsb_append buffer (recv_buffer c)\<rparr>"
  define w2 where "w2 = (if length buffer > 0 then upd_wconn i ?h w1 else w1)"
  have c2: "client_said E i [] w w2" unfolding w2_def using c1 client_said_upd [OF c1, of ?h] by (simp add: same_id_def)
  have b2: "ctx_buf i w2 = ctx_buf i w @ buffer"
    using b1 ctx_live_upd_id(2) [OF client_said_live [OF c1], of ?h] by (simp add: w2_def ctx_buf_def same_id_def)
  define w3 where "w3 = (if vsb_size (recv_buffer (w_conn i w2)) > 0 then stream_on_process_connection E i w2 else w2)"
  obtain ds where ds: "prefix (concat (map frame ds)) (ctx_buf i w2)" "list_all (\<lambda>d. parse_package E d \<noteq> None) ds" "client_said E i ds w2 w3"
  proof (cases "vsb_size (recv_buffer (w_conn i w2)) > 0")
    case True
    then have "w3 = stream_on_process_connection E i w2" by (simp add: w3_def)
    then show ?thesis using process_said [OF client_said_live [OF c2], of E] that by (metis prefixI)
  next
    case False
    then have "w3 = w2" by (simp add: w3_def)
    then show ?thesis using client_said_refl [OF client_said_live [OF c2], of E] that [of "[]"] by simp
  qed
  have c3: "client_said E i ds w w3" using client_said_trans [OF c2 ds(3)] by simp
  have sb: "sent_by E i ds w"
    using ds(1,2) f(2) unfolding sent_by_def b2 by (metis append.assoc prefix_prefix)
  have e: "stream_io E i ev w = (if fatal then ctx_event_mod i RWE (set_conn_is_close i True w1)
      else if ev AND WRITE \<noteq> 0 then ctx_try_send_flush i w3 else w3)"
    using rr by (simp add: stream_io_def r_def [symmetric] w1_def w2_def w3_def Let_def)
  show ?thesis
  proof (cases fatal)
    case True
    then show ?thesis using e c1 sent_by_nil [of E i w] by (intro exI [of _ "[]"]) (simp add: client_said_ops)
  next
    case False
    then show ?thesis using e c3 sb by (intro exI [of _ ds]) (simp add: client_said_ops)
  qed
qed

text \<open>The announcement makes the connection ready and reports it.\<close>

lemma announce_said:
  assumes "ctx_live i w"
  shows "ctx_run i w (stream_announce E i w)" "is_ready (w_conn i (stream_announce E i w))"
    "socket_obj (w_conn i (stream_announce E i w)) = socket_obj (w_conn i w)" "ctx_buf i (stream_announce E i w) = ctx_buf i w"
    "tunnel_stream (stream_announce E i w) = tunnel_stream w @ new_wire E (worker_idx w) (gid (w_conn i w)) (p_peer E (fd (w_conn i w)))"
proof -
  define w1 where "w1 = upd_wconn i (is_ready_update (\<lambda>_. True)) w"
  define w2 where "w2 = ctx_mark_notified i True w1"
  define w3 where "w3 = mark_delete_timeout_timer (gid (w_conn i w2)) w2"
  have r: "ctx_run i w w1" "ctx_run i w w2" "ctx_run i w w3"
    using ctx_run_refl [OF assms] by (simp_all add: w1_def w2_def w3_def ctx_run_ops)
  note l = ctx_run_live [OF r(1)] ctx_run_live [OF r(2)] ctx_run_live [OF r(3)]
  have c1: "w_conn i w1 = (w_conn i w)\<lparr>is_ready := True\<rparr>"
    using ctx_live_upd_id(2) [OF assms, of "is_ready_update (\<lambda>_. True)"] by (simp add: w1_def same_id_def)
  have c2: "w_conn i w2 = (w_conn i w1)\<lparr>ctx_ptr := map_option (app_layer_notified_update (\<lambda>_. True)) (ctx_ptr (w_conn i w1))\<rparr>"
    unfolding w2_def ctx_mark_notified_def
    using ctx_live_upd(2) [OF l(1), of "ctx_ptr_update (map_option (app_layer_notified_update (\<lambda>_. True)))" "app_layer_notified_update (\<lambda>_. True)"]
    by (simp add: same_id_def)
  have c3: "w_conn i w3 = w_conn i w2" by (simp add: w3_def)
  have t: "tunnel_stream w3 = tunnel_stream w" "worker_idx w3 = worker_idx w"
    using tunnel_stream_upd [OF assms] tunnel_stream_upd [OF l(1)] by (simp_all add: w3_def w2_def w1_def ctx_mark_notified_def)
  have e: "stream_announce E i w = app_on_new_connection E i w3"
    by (simp add: stream_announce_def w1_def w2_def w3_def Let_def)
  note a = app_on_new_facts [OF l(3), of E]
  show "ctx_run i w (stream_announce E i w)" by (simp add: stream_announce_def Let_def ctx_run_ops ctx_run_refl assms)
  show "is_ready (w_conn i (stream_announce E i w))" "socket_obj (w_conn i (stream_announce E i w)) = socket_obj (w_conn i w)"
    "ctx_buf i (stream_announce E i w) = ctx_buf i w"
    "tunnel_stream (stream_announce E i w) = tunnel_stream w @ new_wire E (worker_idx w) (gid (w_conn i w)) (p_peer E (fd (w_conn i w)))"
    unfolding e using a c1 c2 c3 t by (simp_all add: ctx_buf_def)
qed

lemma stream_run_process_loop: "ctx_run i w0 w \<Longrightarrow> ctx_run i w0 (stream_process_loop k E i w)"
  by (induction k arbitrary: w) (auto simp: Let_def ctx_run_ops split: option.splits)

lemma stream_run_process: "ctx_run i w0 w \<Longrightarrow> ctx_run i w0 (stream_on_process_connection E i w)"
  by (simp add: stream_on_process_connection_def stream_run_process_loop ctx_run_ops)

declare stream_process_loop.simps [simp del]

lemma stream_run_announce: "ctx_run i w0 w \<Longrightarrow> ctx_run i w0 (stream_announce E i w)"
  by (simp add: stream_announce_def Let_def ctx_run_ops)

lemma stream_run_io:
  assumes "ctx_run i w0 w"
  shows "ctx_run i w0 (stream_io E i ev w)"
proof -
  let ?s = "socket_obj (w_conn i w)"
  define r where "r = (if ev AND READ \<noteq> 0 then ctx_read_loop (Suc (rx_weight (k_rx ?s))) [] 0 ?s else ([], False, ?s))"
  obtain buffer fatal s' where rr: "r = (buffer, fatal, s')" by (metis prod_cases3)
  have fd: "m_sockfd s' = m_sockfd ?s"
    using rr ctx_read_loop_facts [of "Suc (rx_weight (k_rx ?s))" "[]" 0 ?s buffer fatal s']
    by (auto simp: r_def split: if_splits)
  define w1 where "w1 = upd_wconn i (socket_obj_update (\<lambda>_. s')) w"
  have l1: "ctx_run i w0 w1" unfolding w1_def by (rule ctx_run_socket [OF assms fd])
  define w2 where "w2 = (if length buffer > 0
      then upd_wconn i (\<lambda>c. c\<lparr>recv_buffer := vsb_append buffer (recv_buffer c)\<rparr>) w1 else w1)"
  have l2: "ctx_run i w0 w2" using l1 by (simp add: w2_def ctx_run_ops)
  define w3 where "w3 = (if vsb_size (recv_buffer (w_conn i w2)) > 0 then stream_on_process_connection E i w2 else w2)"
  have l3: "ctx_run i w0 w3" using l2 stream_run_process by (simp add: w3_def)
  have "stream_io E i ev w = (if fatal then ctx_event_mod i RWE (set_conn_is_close i True w1)
      else if ev AND WRITE \<noteq> 0 then ctx_try_send_flush i w3 else w3)"
    using rr by (simp add: stream_io_def r_def [symmetric] w1_def w2_def w3_def Let_def)
  then show ?thesis using l1 l3 by (simp add: ctx_run_ops)
qed

lemma stream_on_event_open:
  assumes "ctx_live i w" "\<not> ctx_closing i ev w"
  shows "ctx_run i w (stream_on_event E i ev w)"
proof -
  have at: "ctx_attached i w" using assms(1) by (simp add: ctx_live_def ctx_ok_def)
  have r: "ctx_run i w w" by (rule ctx_run_refl [OF assms(1)])
  obtain h s' where ha: "ssl_accept (socket_obj (w_conn i w)) = (h, s')" by fastforce
  have fd: "m_sockfd s' = m_sockfd (socket_obj (w_conn i w))"
    using ha by (auto simp: ssl_accept_def split: list.splits)
  let ?w2 = "upd_wconn i (socket_obj_update (\<lambda>_. s')) w"
  have l2: "ctx_run i w ?w2" by (rule ctx_run_socket [OF r fd])
  have l3: "ctx_run i w (upd_wconn i (socket_obj_update (set_ssl_accepted True)) ?w2)"
    by (rule ctx_run_upd_id(1) [OF l2]) (simp_all add: same_id_def set_ssl_accepted_def)
  have nc: "ev AND ERR = 0" "\<not> is_close (w_conn i w)" using assms(2) by (auto simp: ctx_closing_def)
  have "stream_on_event E i ev w =
      (if p_use_ssl E \<and> \<not> m_ssl_accepted (socket_obj (w_conn i w))
       then (case h of
               Hs_done \<Rightarrow> stream_io E i ev (stream_announce E i (upd_wconn i (socket_obj_update (set_ssl_accepted True)) ?w2))
             | Hs_zero \<Rightarrow> ctx_event_mod i RWE ?w2 | Hs_want_read \<Rightarrow> ctx_event_mod i RE ?w2
             | Hs_want_write \<Rightarrow> ctx_event_mod i RWE ?w2
             | Hs_fail \<Rightarrow> ctx_event_mod i RWE (set_conn_is_close i True ?w2))
       else stream_io E i ev w)"
    using at nc ha by (simp add: stream_on_event_def Let_def)
  then show ?thesis
    using l2 l3 r by (auto simp: ctx_run_ops stream_run_io stream_run_announce split: hs_event.splits)
qed

lemma stream_on_event_closing:
  assumes "ctx_live i w" "ctx_closing i ev w"
  shows "ctx_gone E i w (stream_on_event E i ev w)"
proof -
  have "ctx_attached i w" using assms(1) by (simp add: ctx_live_def ctx_ok_def)
  then show ?thesis
    using ctx_closing_gone(1) [OF assms(1), of E ev] ctx_closing_gone(2) [OF assms] by (simp add: stream_on_event_def Let_def split del: if_split)
qed

text \<open>A message for the client is queued on the connection; the script thread hears nothing of it.\<close>

lemma forward_said:
  assumes "ctx_live i w"
  shows "client_said E i [] w (stream_on_client_forward_message E i m w)"
proof -
  have c0: "client_said E i [] w w" by (rule client_said_refl [OF assms])
  have "client_said E i [] w (upd_wconn i (\<lambda>c. c\<lparr>send_buffer := vsb_append d (send_buffer c)\<rparr>) w)" for d
    by (rule client_said_upd [OF c0]) (simp_all add: same_id_def)
  then show ?thesis
    using c0 by (simp add: stream_on_client_forward_message_def stream_send_sync_package_def ctx_send_data_def Let_def client_said_ops)
qed

section \<open>What an event reports\<close>

text \<open>The event that completes the TLS handshake; without TLS a connection is announced when it is created.\<close>

definition completes_handshake :: "params \<Rightarrow> nat \<Rightarrow> stream_worker \<Rightarrow> bool" where
  "completes_handshake E i w \<longleftrightarrow>
     p_use_ssl E \<and> \<not> m_ssl_accepted (socket_obj (w_conn i w)) \<and> fst (ssl_accept (socket_obj (w_conn i w))) = Hs_done"

text \<open>
  The report of an open connection: it becomes ready exactly when the opening is reported, and behind
  that report come the packages of the client; a connection in the handshake reports nothing.
\<close>

definition event_report :: "params \<Rightarrow> nat \<Rightarrow> stream_worker \<Rightarrow> stream_worker \<Rightarrow> bool" where
  "event_report E i w w' \<longleftrightarrow>
     (is_ready (w_conn i w') \<longleftrightarrow> is_ready (w_conn i w) \<or> completes_handshake E i w) \<and>
     (m_ssl_accepted (socket_obj (w_conn i w')) \<longleftrightarrow> m_ssl_accepted (socket_obj (w_conn i w)) \<or> completes_handshake E i w) \<and>
     (\<exists>ds. sent_by E i ds w \<and>
        (p_use_ssl E \<and> \<not> m_ssl_accepted (socket_obj (w_conn i w')) \<longrightarrow> ds = []) \<and>
        tunnel_stream w' = tunnel_stream w @
          (if completes_handshake E i w
           then new_wire E (worker_idx w) (gid (w_conn i w)) (p_peer E (fd (w_conn i w))) else []) @
          concat (map (\<lambda>d. luavm_wire E (worker_idx w) (gid (w_conn i w)) (the (parse_package E d))) ds))"

lemma handshake_report:
  assumes c2: "client_said E i [] w (upd_wconn i (socket_obj_update (\<lambda>_. s')) w)"
    and "ctx_live i w" "completes_handshake E i w" "m_sockfd s' = m_sockfd (socket_obj (w_conn i w))"
    "k_rx s' = k_rx (socket_obj (w_conn i w))" "m_ssl_accepted s' = m_ssl_accepted (socket_obj (w_conn i w))"
  shows "event_report E i w (stream_io E i ev (stream_announce E i (upd_wconn i (socket_obj_update (set_ssl_accepted True))
    (upd_wconn i (socket_obj_update (\<lambda>_. s')) w))))"
proof -
  let ?w2 = "upd_wconn i (socket_obj_update (\<lambda>_. s')) w"
  let ?w3 = "upd_wconn i (socket_obj_update (set_ssl_accepted True)) ?w2"
  let ?w4 = "stream_announce E i ?w3"
  have b2: "w_conn i ?w2 = (w_conn i w)\<lparr>socket_obj := s'\<rparr>"
    using ctx_live_upd_id(2) [OF assms(2), of "socket_obj_update (\<lambda>_. s')"] assms(4) by (simp add: same_id_def)
  note u3 = ctx_live_upd_id [OF client_said_live [OF c2], of "socket_obj_update (set_ssl_accepted True)"]
  have l3: "ctx_live i ?w3" and b3: "w_conn i ?w3 = (w_conn i w)\<lparr>socket_obj := set_ssl_accepted True s'\<rparr>"
    using u3 b2 by (simp_all add: same_id_def set_ssl_accepted_def)
  have t3: "tunnel_stream ?w3 = tunnel_stream w" "worker_idx ?w3 = worker_idx w"
    using tunnel_stream_upd [OF assms(2)] tunnel_stream_upd [OF client_said_live [OF c2]] by simp_all
  note a = announce_said [OF l3, of E]
  obtain ds where ds: "sent_by E i ds ?w4" "client_said E i ds ?w4 (stream_io E i ev ?w4)"
    using io_said [OF ctx_run_live [OF a(1)]] by blast
  have "ctx_buf i ?w4 = ctx_buf i w" using a(4) b3 by (simp add: ctx_buf_def)
  then have "sent_by E i ds w" using ds(1) a(3) b3 assms(5) by (simp add: sent_by_def set_ssl_accepted_def)
  then show ?thesis
    using ds(2) a(2,3,5) ctx_run_ids [OF a(1)] b3 t3 assms(3)
    by (auto simp: event_report_def client_said_def set_ssl_accepted_def)
qed

lemma stream_on_event_report:
  assumes "ctx_live i w" "\<not> ctx_closing i ev w"
  shows "event_report E i w (stream_on_event E i ev w)"
proof -
  let ?s = "socket_obj (w_conn i w)" and ?w' = "stream_on_event E i ev w"
  have at: "ctx_attached i w" using assms(1) by (simp add: ctx_live_def ctx_ok_def)
  have nc: "ev AND ERR = 0" "\<not> is_close (w_conn i w)" using assms(2) by (auto simp: ctx_closing_def)
  have c0: "client_said E i [] w w" by (rule client_said_refl [OF assms(1)])
  show ?thesis
  proof (cases "p_use_ssl E \<and> \<not> m_ssl_accepted ?s")
    case False
    then have "?w' = stream_io E i ev w" using at nc by (auto simp: stream_on_event_def Let_def)
    then show ?thesis
      using io_said [OF assms(1), of E ev] False by (auto simp: event_report_def completes_handshake_def client_said_def)
  next
    case tls: True
    obtain h s' where ha: "ssl_accept ?s = (h, s')" by fastforce
    have s': "m_sockfd s' = m_sockfd ?s" "k_rx s' = k_rx ?s" "m_ssl_accepted s' = m_ssl_accepted ?s"
      using ha by (auto simp: ssl_accept_def split: list.splits)
    let ?w2 = "upd_wconn i (socket_obj_update (\<lambda>_. s')) w"
    have c2: "client_said E i [] w ?w2" by (rule client_said_socket [OF c0 s'(1,3)])
    show ?thesis
    proof (cases "h = Hs_done")
      case False
      then have "?w' \<in> {ctx_event_mod i RWE ?w2, ctx_event_mod i RE ?w2, ctx_event_mod i RWE (set_conn_is_close i True ?w2)}"
        using at nc tls ha by (cases h) (simp_all add: stream_on_event_def Let_def)
      then have "client_said E i [] w ?w'" using client_said_ops(1,2) c2 by auto
      then show ?thesis
        using False ha sent_by_nil [of E i w] by (auto simp: event_report_def completes_handshake_def client_said_def)
    next
      case True
      then have "?w' = stream_io E i ev (stream_announce E i (upd_wconn i (socket_obj_update (set_ssl_accepted True)) ?w2))"
        "completes_handshake E i w"
        using at nc tls ha by (simp_all add: stream_on_event_def completes_handshake_def Let_def)
      then show ?thesis using handshake_report [OF c2 assms(1) _ s', of ev] by simp
    qed
  qed
qed

text \<open>
  C9. The handler of a client event. A connection that is open stays live, whatever the client
  and the kernel do. Its event reports the opening to the script thread exactly when it makes the
  connection ready (the event that completes the TLS handshake), and after that only packages
  the client has sent, as complete frames in their order; during the handshake it reports
  nothing. A connection in error or marked for closing is closed for good: its descriptor leaves
  the registry, the kernel's interest table and the process exactly once, the tables of the worker
  stay consistent, and the closing is reported exactly when the connection is ready.
\<close>

theorem stream_on_event_safe:
  assumes "ctx_live i w"
  shows "let w' = stream_on_event E i ev w
    in if ev AND ERR \<noteq> 0 \<or> is_close (w_conn i w) then ctx_gone E i w w'
       else ctx_live i w' \<and> event_report E i w w'"
  using ctx_run_live [OF stream_on_event_open [OF assms]] stream_on_event_report [OF assms] stream_on_event_closing [OF assms]
  by (simp add: ctx_closing_def)

theorem stream_on_event_safe_witness:
  "ctx_live 1 (demo_worker (Some demo_ctx) [] [] []) \<and>
   event_report demo_params 1 (demo_worker (Some demo_ctx) [] [] [])
     (stream_on_event demo_params 1 READ (demo_worker (Some demo_ctx) [] [] [])) \<and>
   worker_inv (stream_on_event demo_params 1 ERR (demo_worker (Some demo_ctx) [] [] [])) \<and>
   os_closed (stream_on_event demo_params 1 ERR (demo_worker (Some demo_ctx) [] [] [])) = [9]"
proof -
  let ?w = "demo_worker (Some demo_ctx) [] [] []"
  have l: "ctx_live 1 ?w"
    using demo_ctx_ok [of "[]" "[]" "[]"]
    by (simp add: ctx_live_def) (simp add: demo_worker_def demo_mgr_def conn_at_def)
  have c: "fd (w_conn 1 ?w) = 9" "os_closed ?w = []" "\<not> is_close (w_conn 1 ?w)"
    by (simp_all add: demo_worker_def demo_mgr_def conn_at_def on_alloc_def)
  have e: "ERR AND ERR \<noteq> 0" "READ AND ERR = 0" by code_simp+
  show ?thesis
    using stream_on_event_safe [OF l, of demo_params ERR] stream_on_event_safe [OF l, of demo_params READ] l c e
    by (simp add: Let_def ctx_gone_def del: One_nat_def)
qed

end
