(* ===== verification/Base64.thy ===== *)
theory Base64
  imports Prelude
begin

text \<open>
  Base 64 (src/utility/base64.cpp), used for the handshake of the websocket protocol. A
  \<^verbatim>\<open>std::string\<close> is a list of bytes; the two exceptions of the decoder are values of
  \<^typ>\<open>cpp_error\<close>. The encoder's position is a 32-bit integer, as in the source, so its loop is
  a partial function.
\<close>

section \<open>The alphabet\<close>

definition BASE64_CHARS :: "bool \<Rightarrow> bytes" where
  "BASE64_CHARS url =
     bytes_of (''ABCDEFGHIJKLMNOPQRSTUVWXYZ'' @ ''abcdefghijklmnopqrstuvwxyz'' @ ''0123456789'' @
               (if url then ''-_'' else ''+/''))"

abbreviation bad_base64 :: cpp_error where
  "bad_base64 \<equiv> runtime_error ''Input is not valid base64-encoded data.''"

definition pos_of_char :: "byte \<Rightarrow> cpp_error + u32" where
  "pos_of_char chr =
     (if byte_of CHR ''A'' \<le> chr \<and> chr \<le> byte_of CHR ''Z'' then Inr (ucast (chr - byte_of CHR ''A''))
      else if byte_of CHR ''a'' \<le> chr \<and> chr \<le> byte_of CHR ''z'' then Inr (ucast (chr - byte_of CHR ''a'') + 25 + 1)
      else if byte_of CHR ''0'' \<le> chr \<and> chr \<le> byte_of CHR ''9'' then Inr (ucast (chr - byte_of CHR ''0'') + 25 + 25 + 2)
      else if chr = byte_of CHR ''+'' \<or> chr = byte_of CHR ''-'' then Inr 62
      else if chr = byte_of CHR ''/'' \<or> chr = byte_of CHR ''_'' then Inr 63
      else Inl bad_base64)"

section \<open>Encoding\<close>

text \<open>The bytes are promoted to 32 bits before they are masked and shifted.\<close>

definition base64_chunk :: "bool \<Rightarrow> bytes \<Rightarrow> u32 \<Rightarrow> bytes" where
  "base64_chunk url bytes_to_encode pos =
     (let chars = BASE64_CHARS url;
          trailing_char = byte_of (if url then CHR ''.'' else CHR ''='');
          at = (\<lambda>k. ucast (bytes_to_encode ! unat (pos + k)) :: u32)
      in chars ! unat (drop_bit 2 (at 0 AND 0xfc)) #
         (if unat (pos + 1) < length bytes_to_encode
          then chars ! unat (push_bit 4 (at 0 AND 0x03) + drop_bit 4 (at 1 AND 0xf0)) #
               (if unat (pos + 2) < length bytes_to_encode
                then [chars ! unat (push_bit 2 (at 1 AND 0x0f) + drop_bit 6 (at 2 AND 0xc0)),
                      chars ! unat (at 2 AND 0x3f)]
                else [chars ! unat (push_bit 2 (at 1 AND 0x0f)), trailing_char])
          else [chars ! unat (push_bit 4 (at 0 AND 0x03)), trailing_char, trailing_char]))"

partial_function (option) base64_loop :: "bool \<Rightarrow> bytes \<Rightarrow> u32 \<Rightarrow> bytes \<Rightarrow> bytes option" where
  "base64_loop url bytes_to_encode pos ret =
     (if unat pos < length bytes_to_encode
      then base64_loop url bytes_to_encode (pos + 3) (ret @ base64_chunk url bytes_to_encode pos)
      else Some ret)"

definition base64_encode :: "bytes \<Rightarrow> bool \<Rightarrow> bytes option" where
  "base64_encode s url = (if length s = 0 then Some [] else base64_loop url s 0 [])"

partial_function (option) linebreaks_loop :: "nat \<Rightarrow> nat \<Rightarrow> bytes \<Rightarrow> bytes option" where
  "linebreaks_loop distance pos str =
     (if pos < length str
      then linebreaks_loop distance (pos + (distance + 1)) (take pos str @ byte_of CHR 0x0A # drop pos str)
      else Some str)"

definition insert_linebreaks :: "bytes \<Rightarrow> nat \<Rightarrow> bytes option" where
  "insert_linebreaks str distance = (if length str = 0 then Some [] else linebreaks_loop distance distance str)"

definition encode_with_line_breaks :: "nat \<Rightarrow> bytes \<Rightarrow> bytes option" where
  "encode_with_line_breaks line_length s =
     Option.bind (base64_encode s False) (\<lambda>e. insert_linebreaks e line_length)"

definition base64_encode_pem :: "bytes \<Rightarrow> bytes option" where
  "base64_encode_pem s = encode_with_line_breaks 64 s"

definition base64_encode_mime :: "bytes \<Rightarrow> bytes option" where
  "base64_encode_mime s = encode_with_line_breaks 76 s"

section \<open>Decoding\<close>

text \<open>
  The loop of \<^verbatim>\<open>decode\<close> by chunks of four: \<^verbatim>\<open>at(pos + 1)\<close> is the first access, so a chunk of one
  character raises before anything of it is looked at.
\<close>

definition is_pad :: "byte \<Rightarrow> bool" where
  "is_pad c \<longleftrightarrow> c = byte_of CHR ''='' \<or> c = byte_of CHR ''.''"

definition decode_byte1 :: "u32 \<Rightarrow> u64 \<Rightarrow> byte" where
  "decode_byte1 p0 p1 = ucast (ucast (push_bit 2 p0) + drop_bit 4 (p1 AND 0x30) :: u64)"

definition decode_byte2 :: "u64 \<Rightarrow> u32 \<Rightarrow> byte" where
  "decode_byte2 p1 p2 = ucast (push_bit 4 (p1 AND 0x0f) + ucast (drop_bit 2 (p2 AND 0x3c)) :: u64)"

definition decode_byte3 :: "u32 \<Rightarrow> u32 \<Rightarrow> byte" where
  "decode_byte3 p2 p3 = ucast (push_bit 6 (p2 AND 0x03) + p3)"

definition decode_tail :: "u64 \<Rightarrow> bytes \<Rightarrow> cpp_error + bytes" where
  "decode_tail p1 rest =
     (case rest of
        [] \<Rightarrow> Inr []
      | c2 # rest' \<Rightarrow>
          if is_pad c2 then Inr []
          else
            (case pos_of_char c2 of
               Inl e \<Rightarrow> Inl e
             | Inr p2 \<Rightarrow>
                 (case rest' of
                    [] \<Rightarrow> Inr [decode_byte2 p1 p2]
                  | c3 # _ \<Rightarrow>
                      if is_pad c3 then Inr [decode_byte2 p1 p2]
                      else (case pos_of_char c3 of
                              Inl e \<Rightarrow> Inl e
                            | Inr p3 \<Rightarrow> Inr [decode_byte2 p1 p2, decode_byte3 p2 p3]))))"

fun decode_loop :: "bytes \<Rightarrow> bytes \<Rightarrow> cpp_error + bytes" where
  "decode_loop [] ret = Inr ret"
| "decode_loop [c0] ret = Inl (out_of_range ''basic_string::at'')"
| "decode_loop (c0 # c1 # rest) ret =
     (case pos_of_char c1 of
        Inl e \<Rightarrow> Inl e
      | Inr p1 \<Rightarrow>
          (case pos_of_char c0 of
             Inl e \<Rightarrow> Inl e
           | Inr p0 \<Rightarrow>
               (case decode_tail (ucast p1) (take 2 rest) of
                  Inl e \<Rightarrow> Inl e
                | Inr out \<Rightarrow> decode_loop (drop 2 rest) (ret @ decode_byte1 p0 (ucast p1) # out))))"

text \<open>
  \<^verbatim>\<open>decode\<close> and \<^verbatim>\<open>base64_decode\<close> call each other once: with the line breaks removed the call is
  made again without that option. \<open>decode_plain\<close> is the branch of \<^verbatim>\<open>decode\<close> without it.
\<close>

definition decode_plain :: "bytes \<Rightarrow> cpp_error + bytes" where
  "decode_plain s = (if s = [] then Inr [] else decode_loop s [])"

definition base64_decode :: "bytes \<Rightarrow> bool \<Rightarrow> cpp_error + bytes" where
  "base64_decode s remove_linebreaks =
     (if length s < 4 then Inr []
      else if remove_linebreaks
      then (let copy = filter (\<lambda>c. c \<noteq> byte_of CHR 0x0A) s
            in if length copy < 4 then Inr [] else decode_plain copy)
      else decode_plain s)"

section \<open>What encoding computes\<close>

text \<open>
  The reference: three bytes are one 24-bit number, written as four digits to the base 64, most
  significant digit first; the digits of a last incomplete group that carry no bit of the input
  are padding.
\<close>

definition digits64 :: "nat \<Rightarrow> nat list" where
  "digits64 n = [n div 64 ^ 3 mod 64, n div 64 ^ 2 mod 64, n div 64 mod 64, n mod 64]"

definition group24 :: "nat \<Rightarrow> nat \<Rightarrow> nat \<Rightarrow> nat" where
  "group24 a b c = a * 256 ^ 2 + b * 256 + c"

definition digit_chars :: "bool \<Rightarrow> nat list \<Rightarrow> bytes" where
  "digit_chars url ds = map (\<lambda>d. BASE64_CHARS url ! d) ds"

definition pad_char :: "bool \<Rightarrow> byte" where
  "pad_char url = byte_of (if url then CHR ''.'' else CHR ''='')"

fun base64_spec :: "bool \<Rightarrow> bytes \<Rightarrow> bytes" where
  "base64_spec url [] = []"
| "base64_spec url [a] = digit_chars url (take 2 (digits64 (group24 (unat a) 0 0))) @ [pad_char url, pad_char url]"
| "base64_spec url [a, b] = digit_chars url (take 3 (digits64 (group24 (unat a) (unat b) 0))) @ [pad_char url]"
| "base64_spec url (a # b # c # rest) =
     digit_chars url (digits64 (group24 (unat a) (unat b) (unat c))) @ base64_spec url rest"



lemma nat_masks:
  fixes x :: nat
  shows "x AND 3 = x mod 4" "x AND 15 = x mod 16" "x AND 63 = x mod 64"
    "drop_bit 2 (x AND 252) = x div 4 mod 64" "drop_bit 4 (x AND 240) = x div 16 mod 16"
    "drop_bit 6 (x AND 192) = x div 64 mod 4" "drop_bit 4 (x AND 48) = x div 16 mod 4"
    "drop_bit 2 (x AND 60) = x div 4 mod 16"
proof -
  have m: "(x :: nat) AND 3 = x mod 4" "x AND 15 = x mod 16" "x AND 63 = x mod 64" for x
    using take_bit_eq_mask [of 2 x] take_bit_eq_mask [of 4 x] take_bit_eq_mask [of 6 x]
    by (simp_all add: take_bit_eq_mod mask_eq_exp_minus_1)
  show "x AND 3 = x mod 4" "x AND 15 = x mod 16" "x AND 63 = x mod 64" by (simp_all add: m)
  have "drop_bit 2 (x AND 252) = x div 4 AND 63" "drop_bit 4 (x AND 240) = x div 16 AND 15"
      "drop_bit 6 (x AND 192) = x div 64 AND 3" "drop_bit 4 (x AND 48) = x div 16 AND 3"
      "drop_bit 2 (x AND 60) = x div 4 AND 15"
    by (simp_all add: drop_bit_and) (simp_all add: drop_bit_eq_div)
  then show "drop_bit 2 (x AND 252) = x div 4 mod 64" "drop_bit 4 (x AND 240) = x div 16 mod 16"
    "drop_bit 6 (x AND 192) = x div 64 mod 4" "drop_bit 4 (x AND 48) = x div 16 mod 4"
    "drop_bit 2 (x AND 60) = x div 4 mod 16"
    by (simp_all only: m)
qed

lemma index_bits:
  fixes a :: byte
  shows "unat (drop_bit 2 (ucast a AND 0xfc :: u32)) = unat a div 4"
    "unat (push_bit 4 (ucast a AND 0x03 :: u32)) = 16 * (unat a mod 4)"
    "unat (drop_bit 4 (ucast a AND 0xf0 :: u32)) = unat a div 16"
    "unat (push_bit 2 (ucast a AND 0x0f :: u32)) = 4 * (unat a mod 16)"
    "unat (drop_bit 6 (ucast a AND 0xc0 :: u32)) = unat a div 64"
    "unat (ucast a AND 0x3f :: u32) = unat a mod 64"
proof -
  have l: "unat a < 256" by simp
  have t: "take_bit 32 (unat a) = unat a"
    by (rule take_bit_nat_eq_self) (rule less_trans [OF l], simp)
  have dm: "unat a div 4 mod 64 = unat a div 4" "unat a div 16 mod 16 = unat a div 16" "unat a div 64 mod 4 = unat a div 64"
    using l by (simp_all add: mod_less div_less_iff_less_mult) 
  show "unat (drop_bit 2 (ucast a AND 0xfc :: u32)) = unat a div 4"
    "unat (drop_bit 4 (ucast a AND 0xf0 :: u32)) = unat a div 16"
    "unat (drop_bit 6 (ucast a AND 0xc0 :: u32)) = unat a div 64"
    "unat (ucast a AND 0x3f :: u32) = unat a mod 64"
    using dm by (simp_all add: unsigned_drop_bit_eq unsigned_and_eq nat_masks t del: drop_bit_and)
  have "unat a mod 4 < 4" "unat a mod 16 < 16" by simp_all
  then have "16 * (unat a mod 4) < 64" "4 * (unat a mod 16) < 64" by simp_all
  then have "16 * (unat a mod 4) < 2 ^ 32" "4 * (unat a mod 16) < 2 ^ 32" by simp_all
  then show "unat (push_bit 4 (ucast a AND 0x03 :: u32)) = 16 * (unat a mod 4)"
    "unat (push_bit 2 (ucast a AND 0x0f :: u32)) = 4 * (unat a mod 16)"
    by (simp_all add: push_bit_eq_mult unat_word_ariths unsigned_and_eq nat_masks mult.commute)
qed
lemma digits64_horner:
  assumes "p < 64" "q < 64" "r < 64" "s < 64"
  shows "digits64 (((p * 64 + q) * 64 + r) * 64 + s) = [p, q, r, s]"
proof -
  have h: "(x * 64 + y) div 64 = x" "(x * 64 + y) mod 64 = y" if "y < 64" for x y :: nat using that by simp_all
  have "n div 64 ^ 2 = n div 64 div 64" "n div 64 ^ 3 = n div 64 div 64 div 64" for n :: nat
    by (simp_all add: div_mult2_eq [symmetric])
  with assms show ?thesis by (simp only: digits64_def h) simp
qed

lemma digits64_group:
  assumes "a < 256" "b < 256" "c < 256"
  shows "digits64 (group24 a b c) = [a div 4, 16 * (a mod 4) + b div 16, 4 * (b mod 16) + c div 64, c mod 64]"
proof -
  have "a = 4 * (a div 4) + a mod 4" "b = 16 * (b div 16) + b mod 16" "c = 64 * (c div 64) + c mod 64" by simp_all
  moreover have "group24 (4 * x + y) (16 * u + v) (64 * s + t) = ((x * 64 + (16 * y + u)) * 64 + (4 * v + s)) * 64 + t"
    for x y u v s t by (simp add: group24_def)
  ultimately have "group24 a b c =
      (((a div 4) * 64 + (16 * (a mod 4) + b div 16)) * 64 + (4 * (b mod 16) + c div 64)) * 64 + c mod 64"
    by metis
  moreover have "a div 4 < 64" "b div 16 < 16" "c div 64 < 4" using assms by (simp_all add: div_less_iff_less_mult)
  moreover have "a mod 4 < 4" "b mod 16 < 16" by simp_all
  ultimately show ?thesis using digits64_horner [of "a div 4" "16 * (a mod 4) + b div 16" "4 * (b mod 16) + c div 64" "c mod 64"]
    by simp
qed

lemma alphabet_ok:
  "list_all2 (\<lambda>c d. pos_of_char c = Inr d \<and> \<not> is_pad c \<and> c \<noteq> byte_of CHR 0x0A) (BASE64_CHARS url)
     (map word_of_int [0..63])"
  by (induction url) code_simp+

lemma pos_of_char_digit:
  assumes "d < 64"
  shows "pos_of_char (BASE64_CHARS url ! d) = Inr (of_nat d)" "\<not> is_pad (BASE64_CHARS url ! d)"
    "BASE64_CHARS url ! d \<noteq> byte_of CHR 0x0A"
proof -
  have l: "length (BASE64_CHARS url) = 64" using list_all2_lengthD [OF alphabet_ok [of url]] by simp
  then have "d < length (BASE64_CHARS url)" using assms by simp
  from list_all2_nthD [OF alphabet_ok this] assms
  show "pos_of_char (BASE64_CHARS url ! d) = Inr (of_nat d)" "\<not> is_pad (BASE64_CHARS url ! d)"
    "BASE64_CHARS url ! d \<noteq> byte_of CHR 0x0A" by simp_all
qed

lemma digit_bits:
  assumes "d < 64"
  shows "drop_bit 4 (of_nat d AND 0x30 :: u64) = of_nat (d div 16)"
    "(of_nat d AND 0x0f :: u64) = of_nat (d mod 16)"
    "drop_bit 2 (of_nat d AND 0x3c :: u32) = of_nat (d div 4)"
    "(of_nat d AND 0x03 :: u32) = of_nat (d mod 4)"
proof -
  have u: "unat (of_nat n :: u64) = n" "unat (of_nat n :: u32) = n" if "n < 64" for n
    using that by (simp_all add: unat_of_nat)
  have "d div 16 < 64" "d mod 16 < 64" "d div 4 < 64" "d mod 4 < 64" "d div 16 mod 4 = d div 16" "d div 4 mod 16 = d div 4"
    using assms by (simp_all add: div_less_iff_less_mult mod_less less_trans [OF mod_less_divisor])
  with assms show "drop_bit 4 (of_nat d AND 0x30 :: u64) = of_nat (d div 16)"
    "(of_nat d AND 0x0f :: u64) = of_nat (d mod 16)"
    "drop_bit 2 (of_nat d AND 0x3c :: u32) = of_nat (d div 4)"
    "(of_nat d AND 0x03 :: u32) = of_nat (d mod 4)"
    by (simp_all add: word_unat_eq_iff unsigned_drop_bit_eq unsigned_and_eq u nat_masks take_bit_nat_eq_self del: drop_bit_and)
qed

lemma unat_add_small:
  fixes x y :: "'a :: len word"
  assumes "unat x + unat y < 2 ^ LENGTH('a)"
  shows "unat (x + y) = unat x + unat y"
  using assms by (simp add: unat_word_ariths)

section \<open>The encoder\<close>

lemma base64_chunk_eq:
  assumes "length pre = unat pos" "unat pos + 3 < 2 ^ 32"
  shows "base64_chunk url (pre @ [a]) pos = base64_spec url [a]"
    "base64_chunk url (pre @ [a, b]) pos = base64_spec url [a, b]"
    "base64_chunk url (pre @ a # b # c # rest) pos = base64_spec url [a, b, c]"
proof -
  have u: "unat (pos + 1) = length pre + 1" "unat (pos + 2) = length pre + 2"
    using assms by (simp_all add: unat_add_small)
  have s: "unat (push_bit 4 (ucast x AND 0x03 :: u32) + drop_bit 4 (ucast y AND 0xf0)) = 16 * (unat x mod 4) + unat y div 16"
    "unat (push_bit 2 (ucast x AND 0x0f :: u32) + drop_bit 6 (ucast y AND 0xc0)) = 4 * (unat x mod 16) + unat y div 64" for x y :: byte
  proof -
    have "unat x mod 4 < 4" "unat x mod 16 < 16" "unat y div 16 < 16" "unat y div 64 < 4"
      by (simp_all add: div_less_iff_less_mult)
    then have "16 * (unat x mod 4) + unat y div 16 < 64" "4 * (unat x mod 16) + unat y div 64 < 64" by linarith+
    then show "unat (push_bit 4 (ucast x AND 0x03 :: u32) + drop_bit 4 (ucast y AND 0xf0)) = 16 * (unat x mod 4) + unat y div 16"
    "unat (push_bit 2 (ucast x AND 0x0f :: u32) + drop_bit 6 (ucast y AND 0xc0)) = 4 * (unat x mod 16) + unat y div 64"
      by (simp_all add: unat_add_small index_bits del: drop_bit_and push_bit_and)
  qed
  note d = digits64_group [of "unat a"]
  have a0: "(pre @ [a]) ! unat pos = a" "(pre @ [a, b]) ! unat pos = a" "(pre @ [a, b]) ! (length pre + 1) = b"
     "(pre @ a # b # c # rest) ! unat pos = a" "(pre @ a # b # c # rest) ! (length pre + 1) = b"
     "(pre @ a # b # c # rest) ! (length pre + 2) = c"
    using assms(1) by (simp_all add: nth_append)
  show "base64_chunk url (pre @ [a]) pos = base64_spec url [a]"
    using a0(1) d [of 0 0] by (simp add: base64_chunk_def Let_def u index_bits digit_chars_def pad_char_def del: drop_bit_and push_bit_and)
  show "base64_chunk url (pre @ [a, b]) pos = base64_spec url [a, b]"
    using a0(2,3) d [of "unat b" 0] by (simp add: base64_chunk_def Let_def u index_bits s digit_chars_def pad_char_def del: drop_bit_and push_bit_and)
  show "base64_chunk url (pre @ a # b # c # rest) pos = base64_spec url [a, b, c]"
    using a0(4-6) d [of "unat b" "unat c"] by (simp add: base64_chunk_def Let_def u index_bits s digit_chars_def del: drop_bit_and push_bit_and)
qed

declare base64_loop.simps [code]

lemma base64_loop_spec:
  assumes "length pre = unat pos" "length (pre @ bs) + 2 < 2 ^ 32"
  shows "base64_loop url (pre @ bs) pos ret = Some (ret @ base64_spec url bs)"
  using assms
proof (induction bs arbitrary: pre pos ret rule: length_induct)
  case (1 bs)
  have n: "unat (pos + 3) = unat pos + 3" if "bs \<noteq> []"
    using "1.prems" that by (cases bs) (simp_all add: unat_add_small)
  consider "bs = []" | a where "bs = [a]" | a b where "bs = [a, b]" | a b c rest where "bs = a # b # c # rest"
    by (metis neq_Nil_conv)
  then show ?case
  proof cases
    case 4
    have "base64_loop url ((pre @ [a, b, c]) @ rest) (pos + 3) (ret @ base64_spec url [a, b, c]) =
        Some ((ret @ base64_spec url [a, b, c]) @ base64_spec url rest)"
      by (rule "1.IH" [rule_format]) (use "1.prems" n 4 in simp_all)
    with "1.prems" 4 base64_chunk_eq(3) [of pre pos url a b c rest] show ?thesis
      by (subst base64_loop.simps) simp
  qed (use "1.prems" n base64_chunk_eq(1,2) [of pre pos url] in \<open>simp_all add: base64_loop.simps\<close>)
qed

section \<open>The decoder undoes it\<close>

lemma ucast_of_nat:
  "ucast (of_nat n :: u64) = (of_nat n :: byte)" "ucast (of_nat n :: u32) = (of_nat n :: byte)"
  by (simp_all add: word_unat_eq_iff unsigned_ucast_eq unat_of_nat take_bit_eq_mod mod_mod_cancel)

lemma ucast_digit: "d < 256 \<Longrightarrow> ucast (of_nat d :: u32) = (of_nat d :: u64)"
  by (simp add: word_unat_eq_iff unsigned_ucast_eq unat_of_nat take_bit_nat_eq_self)

lemma decode_digits:
  assumes "d0 < 64" "d1 < 64" "d2 < 64" "d3 < 64"
  shows "decode_byte1 (of_nat d0) (ucast (of_nat d1 :: u32)) = of_nat (4 * d0 + d1 div 16)"
    "decode_byte2 (ucast (of_nat d1 :: u32)) (of_nat d2) = of_nat (16 * (d1 mod 16) + d2 div 4)"
    "decode_byte3 (of_nat d2) (of_nat d3) = of_nat (64 * (d2 mod 4) + d3)"
proof -
  have "push_bit 2 (of_nat d0 :: u32) = of_nat (4 * d0)" by (simp add: push_bit_eq_mult mult.commute)
  then have p: "ucast (push_bit 2 (of_nat d0 :: u32)) = (of_nat (4 * d0) :: u64)"
    using assms ucast_digit [of "4 * d0"] by (simp del: of_nat_mult)
  have c: "ucast (of_nat d1 :: u32) = (of_nat d1 :: u64)" using assms by (simp add: ucast_digit)
  have q: "ucast (of_nat (d2 div 4) :: u32) = (of_nat (d2 div 4) :: u64)"
    using assms by (simp add: ucast_digit div_less_iff_less_mult)
  show "decode_byte1 (of_nat d0) (ucast (of_nat d1 :: u32)) = of_nat (4 * d0 + d1 div 16)"
    unfolding decode_byte1_def c digit_bits [OF assms(2)] p of_nat_add [symmetric] by (rule ucast_of_nat)
  show "decode_byte2 (ucast (of_nat d1 :: u32)) (of_nat d2) = of_nat (16 * (d1 mod 16) + d2 div 4)"
    unfolding decode_byte2_def c digit_bits [OF assms(2)] digit_bits [OF assms(3)] q push_bit_of_nat
      of_nat_add [symmetric] by (simp add: ucast_of_nat push_bit_eq_mult mult.commute del: of_nat_add of_nat_mult)
  show "decode_byte3 (of_nat d2) (of_nat d3) = of_nat (64 * (d2 mod 4) + d3)"
    unfolding decode_byte3_def digit_bits [OF assms(3)] push_bit_of_nat of_nat_add [symmetric]
    by (simp add: ucast_of_nat push_bit_eq_mult mult.commute del: of_nat_add of_nat_mult)
qed

lemma group_digits:
  fixes a b c :: byte
  shows "unat a div 4 < 64" "16 * (unat a mod 4) + unat b div 16 < 64" "4 * (unat b mod 16) + unat c div 64 < 64"
    "unat c mod 64 < 64" "4 * (unat a div 4) + (16 * (unat a mod 4) + unat b div 16) div 16 = unat a"
    "16 * ((16 * (unat a mod 4) + unat b div 16) mod 16) + (4 * (unat b mod 16) + unat c div 64) div 4 = unat b"
    "64 * ((4 * (unat b mod 16) + unat c div 64) mod 4) + unat c mod 64 = unat c"
proof -
  have l: "unat b div 16 < 16" "unat c div 64 < 4" "unat a mod 4 < 4" "unat b mod 16 < 16"
    by (simp_all add: div_less_iff_less_mult)
  show "unat a div 4 < 64" by (simp add: div_less_iff_less_mult)
  show "16 * (unat a mod 4) + unat b div 16 < 64" "4 * (unat b mod 16) + unat c div 64 < 64" using l by linarith+
  show "unat c mod 64 < 64" by simp
  show "4 * (unat a div 4) + (16 * (unat a mod 4) + unat b div 16) div 16 = unat a"
    "16 * ((16 * (unat a mod 4) + unat b div 16) mod 16) + (4 * (unat b mod 16) + unat c div 64) div 4 = unat b"
    "64 * ((4 * (unat b mod 16) + unat c div 64) mod 4) + unat c mod 64 = unat c"
    using l by simp_all
qed

lemma decode_loop_spec: "decode_loop (base64_spec url bs) ret = Inr (ret @ bs)"
proof (induction url bs arbitrary: ret rule: base64_spec.induct)
  case (2 url a)
  have "is_pad (pad_char url)" by (simp add: is_pad_def pad_char_def)
  then show ?case
    using group_digits(1) [of a] group_digits(2,5) [of a 0]
    by (simp add: digits64_group [of _ 0 0, simplified] digit_chars_def pos_of_char_digit decode_tail_def decode_digits(1)
        del: of_nat_mult of_nat_add)
next
  case (3 url a b)
  have "is_pad (pad_char url)" by (simp add: is_pad_def pad_char_def)
  then show ?case
    using group_digits(1) [of a] group_digits(2,5) [of a b] group_digits(3) [of b 0] group_digits(6) [of a b 0]
    by (simp add: digits64_group [of _ _ 0, simplified] digit_chars_def pos_of_char_digit decode_tail_def decode_digits(1,2)
        del: of_nat_mult of_nat_add)
next
  case (4 url a b c rest)
  then show ?case
    using group_digits(1) [of a] group_digits(2,5) [of a b] group_digits(3,7) [of b c] group_digits(4) [of c]
      group_digits(6) [of a b c]
    by (simp add: digits64_group digit_chars_def pos_of_char_digit decode_tail_def decode_digits
        del: of_nat_mult of_nat_add)
qed simp

lemma base64_encode_spec:
  "length s + 2 < 2 ^ 32 \<Longrightarrow> base64_encode s url = Some (base64_spec url s)"
  using base64_loop_spec [of "[]" 0 s url "[]"] by (cases s) (simp_all add: base64_encode_def)

lemma length_base64_spec: "length (base64_spec url s) = (length s + 2) div 3 * 4"
proof (induction url s rule: base64_spec.induct)
  case (4 url a b c rest)
  have "(length (a # b # c # rest) + 2) div 3 = Suc ((length rest + 2) div 3)" by simp
  with 4 show ?case by (simp add: digit_chars_def digits64_def)
qed (simp_all add: digit_chars_def digits64_def)

lemma base64_spec_chars:
  "set (base64_spec url s) \<subseteq> set (BASE64_CHARS url) \<union> {pad_char url}" "byte_of CHR 0x0A \<notin> set (base64_spec url s)"
proof -
  have l: "length (BASE64_CHARS url) = 64" for url by (simp add: BASE64_CHARS_def)
  have d: "set (digit_chars url (take k (digits64 n))) \<subseteq> set (BASE64_CHARS url)" for k n url
    by (auto simp: digit_chars_def digits64_def l take_Cons split: nat.splits intro!: nth_mem)
  have d4: "set (digit_chars url (digits64 n)) \<subseteq> set (BASE64_CHARS url)" for n url using d [of url 4 n] by (simp add: digits64_def)
  show s: "set (base64_spec url s) \<subseteq> set (BASE64_CHARS url) \<union> {pad_char url}"
  proof (induction url s rule: base64_spec.induct)
    case (4 url a b c rest)
    then show ?case using d4 [of url "group24 (unat a) (unat b) (unat c)"] by auto
  qed (use d in fastforce)+
  have "byte_of CHR 0x0A \<notin> set (BASE64_CHARS url)"
    using pos_of_char_digit(3) [of _ url] by (auto simp: in_set_conv_nth l)
  moreover have "pad_char url \<noteq> byte_of CHR 0x0A" by (simp add: pad_char_def byte_of_def)
  ultimately show "byte_of CHR 0x0A \<notin> set (base64_spec url s)" using s by auto
qed

lemma base64_decode_spec: "base64_decode (base64_spec url s) False = Inr s"
proof (cases s)
  case (Cons a t)
  then have "(length s + 2) div 3 \<ge> 1" by simp
  then have "length (base64_spec url s) \<ge> 4" unfolding length_base64_spec by simp
  then show ?thesis using decode_loop_spec [of url s "[]"] by (auto simp: base64_decode_def decode_plain_def)
qed (simp add: base64_decode_def)

lemma linebreaks_loop_total:
  assumes "distance > 0"
  shows "\<exists>out. linebreaks_loop distance pos str = Some out \<and> length str \<le> length out \<and>
    filter (\<lambda>c. c \<noteq> byte_of CHR 0x0A) out = filter (\<lambda>c. c \<noteq> byte_of CHR 0x0A) str"
proof (induction "length str - pos" arbitrary: pos str rule: less_induct)
  case less
  let ?str = "take pos str @ byte_of CHR 0x0A # drop pos str"
  show ?case
  proof (cases "pos < length str")
    case True
    then have "length ?str - (pos + (distance + 1)) < length str - pos" using assms by simp
    from less [OF this] obtain out where o: "linebreaks_loop distance (pos + (distance + 1)) ?str = Some out"
        "length ?str \<le> length out"
        "filter (\<lambda>c. c \<noteq> byte_of CHR 0x0A) out = filter (\<lambda>c. c \<noteq> byte_of CHR 0x0A) ?str"
      by blast
    have "filter (\<lambda>c. c \<noteq> byte_of CHR 0x0A) ?str = filter (\<lambda>c. c \<noteq> byte_of CHR 0x0A) (take pos str @ drop pos str)"
      by (simp only: filter_append filter.simps) simp
    with o True show ?thesis by (subst linebreaks_loop.simps) simp
  qed (subst linebreaks_loop.simps, simp)
qed

lemma encode_with_line_breaks_decodes:
  assumes "length s + 2 < 2 ^ 32" "distance > 0"
  shows "\<exists>e. encode_with_line_breaks distance s = Some e \<and> base64_decode e True = Inr s"
proof (cases s)
  case Nil
  then show ?thesis
    by (simp add: encode_with_line_breaks_def base64_encode_def insert_linebreaks_def base64_decode_def)
next
  case (Cons a t)
  let ?e = "base64_spec False s"
  have "(length s + 2) div 3 \<ge> 1" using Cons by simp
  then have l: "length ?e \<ge> 4" unfolding length_base64_spec by simp
  obtain out where o: "linebreaks_loop distance distance ?e = Some out" "length ?e \<le> length out"
      "filter (\<lambda>c. c \<noteq> byte_of CHR 0x0A) out = filter (\<lambda>c. c \<noteq> byte_of CHR 0x0A) ?e"
    using linebreaks_loop_total [OF assms(2)] by blast
  have "filter (\<lambda>c. c \<noteq> byte_of CHR 0x0A) ?e = ?e"
    using base64_spec_chars(2) [of False s] by (auto intro: filter_True)
  with o(3) have f: "filter (\<lambda>c. c \<noteq> byte_of CHR 0x0A) out = ?e" by simp
  have "base64_decode out True = Inr s"
    using l o(2) f decode_loop_spec [of False s "[]"]
    by (auto simp: base64_decode_def decode_plain_def Let_def)
  moreover have "encode_with_line_breaks distance s = Some out"
    using base64_encode_spec [OF assms(1), of False] o(1) l
    by (auto simp: encode_with_line_breaks_def insert_linebreaks_def)
  ultimately show ?thesis by blast
qed

section \<open>Properties\<close>

text \<open>
  C15. The encoder computes base 64: on every string of length n with n + 2 below 2^32 it ends, and its output
  is the string read as 24-bit numbers written to the base 64, padded to whole groups.
\<close>

theorem base64_encode_is_base64:
  assumes "length s + 2 < 2 ^ 32"
  shows "base64_encode s url = Some (base64_spec url s)"
  using assms by (rule base64_encode_spec)

theorem base64_encode_is_base64_witness:
  "length (bytes_of ''any carnal pleas'') + 2 < 2 ^ 32 \<and>
   base64_encode (bytes_of ''any carnal pleas'') False = Some (base64_spec False (bytes_of ''any carnal pleas''))"
  using base64_encode_is_base64 [of "bytes_of ''any carnal pleas''" False] by simp

text \<open>
  C16. Decoding undoes encoding, in both alphabets, and for the two formats with line breaks
  when the breaks are removed.
\<close>

theorem base64_round_trip:
  assumes "length s + 2 < 2 ^ 32"
  shows "(\<exists>e. base64_encode s url = Some e \<and> base64_decode e False = Inr s) \<and>
    (\<exists>e. base64_encode_pem s = Some e \<and> base64_decode e True = Inr s) \<and>
    (\<exists>e. base64_encode_mime s = Some e \<and> base64_decode e True = Inr s)"
  using base64_encode_spec [OF assms] base64_decode_spec encode_with_line_breaks_decodes [OF assms]
  by (simp add: base64_encode_pem_def base64_encode_mime_def)

theorem base64_round_trip_witness:
  "length ([0, 255, 16, 7] :: bytes) + 2 < 2 ^ 32 \<and>
   (\<exists>e. base64_encode [0, 255, 16, 7] True = Some e \<and> base64_decode e False = Inr [0, 255, 16, 7])"
  using base64_round_trip [of "[0, 255, 16, 7]" True] by simp

text \<open>
  C17. The output of the encoder has exactly the length that is reserved for it, a multiple of
  four, and consists of characters of the chosen alphabet and of the padding character.
\<close>

theorem base64_encode_bounds:
  assumes "base64_encode s url = Some e" "length s + 2 < 2 ^ 32"
  shows "length e = (length s + 2) div 3 * 4 \<and> set e \<subseteq> set (BASE64_CHARS url) \<union> {byte_of (if url then CHR ''.'' else CHR ''='')}"
  using assms(1) base64_encode_spec [OF assms(2), of url] base64_spec_chars(1) [of url s] length_base64_spec [of url s]
  by (simp add: pad_char_def)

theorem base64_encode_bounds_witness:
  "\<exists>e. base64_encode [1, 2, 3, 4] False = Some e \<and> length ([1, 2, 3, 4] :: bytes) + 2 < 2 ^ 32 \<and> length e = 8"
proof -
  obtain e where e: "base64_encode [1, 2, 3, 4] False = Some e"
    using base64_encode_spec [of "[1, 2, 3, 4]" False] by simp
  with base64_encode_bounds [OF e] show ?thesis by simp
qed

text \<open>
  C18. The position of the encoder is a 32-bit integer. On a string of 4 GiB or more it wraps
  around before it reaches the end and the loop never ends.
\<close>

theorem base64_encode_diverges:
  assumes "2 ^ 32 \<le> length s"
  shows "base64_encode s url = None"
proof -
  have "length bs < 2 ^ 32" if "base64_loop u bs pos ret = Some y" for u bs pos ret y
  proof (rule base64_loop.raw_induct [where P = "\<lambda>u bs pos ret y. length bs < 2 ^ 32", OF _ that])
    fix f :: "bool \<Rightarrow> bytes \<Rightarrow> u32 \<Rightarrow> bytes \<Rightarrow> bytes option" and u bs pos ret y
    assume 1: "\<And>u bs pos ret y. f u bs pos ret = Some y \<Longrightarrow> length bs < 2 ^ 32"
      "(if unat pos < length bs then f u bs (pos + 3) (ret @ base64_chunk u bs pos) else Some ret) = Some y"
    have "unat pos < 2 ^ 32" using unsigned_less [where ?'a = nat and w = pos] by simp
    then show "length bs < 2 ^ 32" using 1 by (cases "length bs < 2 ^ 32") auto
  qed
  then have "base64_loop url s 0 [] = None" using assms by (metis leD not_None_eq)
  moreover have "length s \<noteq> 0" using assms by (metis not_le zero_less_numeral zero_less_power)
  ultimately show ?thesis unfolding base64_encode_def by simp
qed

theorem base64_encode_diverges_witness:
  "2 ^ 32 \<le> length (replicate (2 ^ 32) (0 :: byte)) \<and> base64_encode (replicate (2 ^ 32) 0) False = None"
  using base64_encode_diverges [of "replicate (2 ^ 32) 0" False] unfolding length_replicate by blast

end
