(* ===== verification/Sha1.thy ===== *)
theory Sha1
  imports Prelude
begin

text \<open>
  SHA-1 (src/utility/sha1.h), used for the handshake of the websocket protocol: the object with
  its running digest, its buffer of less than one block and its count of blocks, and the
  reference of FIPS 180-4 it implements.
\<close>

section \<open>The code\<close>

record sha1 =
  digest :: "u32 list"
  sha_buffer :: bytes
  transforms :: u64

definition BLOCK_INTS :: nat where "BLOCK_INTS = 16"
definition BLOCK_BYTES :: nat where "BLOCK_BYTES = BLOCK_INTS * 4"

definition sha1_reset :: sha1 where
  "sha1_reset = \<lparr>digest = [0x67452301, 0xefcdab89, 0x98badcfe, 0x10325476, 0xc3d2e1f0],
                 sha_buffer = [], transforms = 0\<rparr>"

definition rol :: "u32 \<Rightarrow> nat \<Rightarrow> u32" where
  "rol v bits = (if bits = 0 \<or> bits \<ge> 32 then v else push_bit bits v OR drop_bit (32 - bits) v)"

definition blk :: "u32 list \<Rightarrow> nat \<Rightarrow> u32" where
  "blk block i =
     rol (block ! ((i + 13) mod BLOCK_INTS) XOR block ! ((i + 8) mod BLOCK_INTS) XOR
          block ! ((i + 2) mod BLOCK_INTS) XOR block ! i) 1"

text \<open>
  The five operations. They take two of the working variables by reference, so the five working
  variables are a list and the arguments are positions in it; the block is updated by all but
  the first.
\<close>

type_synonym working = "u32 list \<times> u32 list"

definition R_step :: "(u32 \<Rightarrow> u32 \<Rightarrow> u32 \<Rightarrow> u32) \<Rightarrow> u32 \<Rightarrow> nat \<Rightarrow> nat \<Rightarrow> nat \<Rightarrow> nat \<Rightarrow> nat \<Rightarrow> nat \<Rightarrow> working \<Rightarrow> working" where
  "R_step f k v w x y z i st =
     (case st of (block, vs) \<Rightarrow>
        (let z' = vs ! z + (f (vs ! w) (vs ! x) (vs ! y) + block ! i + k + rol (vs ! v) 5);
             vs1 = vs[z := z']
         in (block, vs1[w := rol (vs1 ! w) 30])))"

definition R_update :: "nat \<Rightarrow> working \<Rightarrow> working" where
  "R_update i st = (case st of (block, vs) \<Rightarrow> (block[i := blk block i], vs))"

definition R0 :: "nat \<Rightarrow> nat \<Rightarrow> nat \<Rightarrow> nat \<Rightarrow> nat \<Rightarrow> nat \<Rightarrow> working \<Rightarrow> working" where
  "R0 v w x y z i st = R_step (\<lambda>w x y. (w AND (x XOR y)) XOR y) 0x5a827999 v w x y z i st"

definition R1 :: "nat \<Rightarrow> nat \<Rightarrow> nat \<Rightarrow> nat \<Rightarrow> nat \<Rightarrow> nat \<Rightarrow> working \<Rightarrow> working" where
  "R1 v w x y z i st = R_step (\<lambda>w x y. (w AND (x XOR y)) XOR y) 0x5a827999 v w x y z i (R_update i st)"

definition R2 :: "nat \<Rightarrow> nat \<Rightarrow> nat \<Rightarrow> nat \<Rightarrow> nat \<Rightarrow> nat \<Rightarrow> working \<Rightarrow> working" where
  "R2 v w x y z i st = R_step (\<lambda>w x y. w XOR x XOR y) 0x6ed9eba1 v w x y z i (R_update i st)"

definition R3 :: "nat \<Rightarrow> nat \<Rightarrow> nat \<Rightarrow> nat \<Rightarrow> nat \<Rightarrow> nat \<Rightarrow> working \<Rightarrow> working" where
  "R3 v w x y z i st = R_step (\<lambda>w x y. ((w OR x) AND y) OR (w AND x)) 0x8f1bbcdc v w x y z i (R_update i st)"

definition R4 :: "nat \<Rightarrow> nat \<Rightarrow> nat \<Rightarrow> nat \<Rightarrow> nat \<Rightarrow> nat \<Rightarrow> working \<Rightarrow> working" where
  "R4 v w x y z i st = R_step (\<lambda>w x y. w XOR x XOR y) 0xca62c1d6 v w x y z i (R_update i st)"

text \<open>The unrolled loop, call by call; 0 to 4 are the variables \<^verbatim>\<open>a\<close> to \<^verbatim>\<open>e\<close>.\<close>

definition transform_calls :: "(working \<Rightarrow> working) list" where
  "transform_calls =
         [
          R0 0 1 2 3 4 0, R0 4 0 1 2 3 1, R0 3 4 0 1 2 2, R0 2 3 4 0 1 3, R0 1 2 3 4 0 4,
          R0 0 1 2 3 4 5, R0 4 0 1 2 3 6, R0 3 4 0 1 2 7, R0 2 3 4 0 1 8, R0 1 2 3 4 0 9,
          R0 0 1 2 3 4 10, R0 4 0 1 2 3 11, R0 3 4 0 1 2 12, R0 2 3 4 0 1 13, R0 1 2 3 4 0 14,
          R0 0 1 2 3 4 15, R1 4 0 1 2 3 0, R1 3 4 0 1 2 1, R1 2 3 4 0 1 2, R1 1 2 3 4 0 3,
          R2 0 1 2 3 4 4, R2 4 0 1 2 3 5, R2 3 4 0 1 2 6, R2 2 3 4 0 1 7, R2 1 2 3 4 0 8,
          R2 0 1 2 3 4 9, R2 4 0 1 2 3 10, R2 3 4 0 1 2 11, R2 2 3 4 0 1 12, R2 1 2 3 4 0 13,
          R2 0 1 2 3 4 14, R2 4 0 1 2 3 15, R2 3 4 0 1 2 0, R2 2 3 4 0 1 1, R2 1 2 3 4 0 2,
          R2 0 1 2 3 4 3, R2 4 0 1 2 3 4, R2 3 4 0 1 2 5, R2 2 3 4 0 1 6, R2 1 2 3 4 0 7,
          R3 0 1 2 3 4 8, R3 4 0 1 2 3 9, R3 3 4 0 1 2 10, R3 2 3 4 0 1 11, R3 1 2 3 4 0 12,
          R3 0 1 2 3 4 13, R3 4 0 1 2 3 14, R3 3 4 0 1 2 15, R3 2 3 4 0 1 0, R3 1 2 3 4 0 1,
          R3 0 1 2 3 4 2, R3 4 0 1 2 3 3, R3 3 4 0 1 2 4, R3 2 3 4 0 1 5, R3 1 2 3 4 0 6,
          R3 0 1 2 3 4 7, R3 4 0 1 2 3 8, R3 3 4 0 1 2 9, R3 2 3 4 0 1 10, R3 1 2 3 4 0 11,
          R4 0 1 2 3 4 12, R4 4 0 1 2 3 13, R4 3 4 0 1 2 14, R4 2 3 4 0 1 15, R4 1 2 3 4 0 0,
          R4 0 1 2 3 4 1, R4 4 0 1 2 3 2, R4 3 4 0 1 2 3, R4 2 3 4 0 1 4, R4 1 2 3 4 0 5,
          R4 0 1 2 3 4 6, R4 4 0 1 2 3 7, R4 3 4 0 1 2 8, R4 2 3 4 0 1 9, R4 1 2 3 4 0 10,
          R4 0 1 2 3 4 11, R4 4 0 1 2 3 12, R4 3 4 0 1 2 13, R4 2 3 4 0 1 14, R4 1 2 3 4 0 15
         ]"

text \<open>\<^verbatim>\<open>block\<close> is an array of the caller and the operations leave it changed.\<close>

definition transform :: "u32 list \<Rightarrow> u32 list \<Rightarrow> u64 \<Rightarrow> u32 list \<times> u32 list \<times> u64" where
  "transform dig block n =
     (case fold (\<lambda>r. r) transform_calls (block, dig) of
        (block', vs) \<Rightarrow> (map2 (+) dig vs, block', n + 1))"

definition buffer_to_block :: "bytes \<Rightarrow> u32 list" where
  "buffer_to_block buf =
     map (\<lambda>i. ucast (buf ! (4 * i + 3)) OR push_bit 8 (ucast (buf ! (4 * i + 2))) OR
              push_bit 16 (ucast (buf ! (4 * i + 1))) OR push_bit 24 (ucast (buf ! (4 * i + 0)))) [0..<BLOCK_INTS]"

text \<open>
  \<^verbatim>\<open>update\<close>: the stream is the bytes that are left in it. A read at the end of the stream
  gives no bytes.
\<close>

function sha1_update :: "bytes \<Rightarrow> sha1 \<Rightarrow> sha1" where
  "sha1_update is st =
     (let got = take (BLOCK_BYTES - length (sha_buffer st)) is;
          buf = sha_buffer st @ got
      in if length buf \<noteq> BLOCK_BYTES then st\<lparr>sha_buffer := buf\<rparr>
         else (let (dig, _, n) = transform (digest st) (buffer_to_block buf) (transforms st)
               in sha1_update (drop (BLOCK_BYTES - length (sha_buffer st)) is) \<lparr>digest = dig, sha_buffer = [], transforms = n\<rparr>))"
  by pat_completeness auto
termination
  by (relation "measure (\<lambda>(is, st). length is + length (sha_buffer st))")
    (auto simp: BLOCK_BYTES_def BLOCK_INTS_def min_def split: if_splits)

definition hex_digit :: "nat \<Rightarrow> char" where
  "hex_digit n = ''0123456789abcdef'' ! n"

text \<open>\<^verbatim>\<open>std::hex << std::setfill('0') << std::setw(8)\<close>\<close>

definition hex8 :: "u32 \<Rightarrow> string" where
  "hex8 w = map (\<lambda>k. hex_digit (unat (drop_bit (28 - 4 * k) w AND 0xf))) [0..<8]"

definition sha1_final :: "sha1 \<Rightarrow> string \<times> sha1" where
  "sha1_final st =
     (let total_bits = (transforms st * of_nat BLOCK_BYTES + of_nat (length (sha_buffer st))) * 8;
          buf = sha_buffer st @ [0x80];
          orig_size = length buf;
          buf' = buf @ replicate (BLOCK_BYTES - length buf) 0;
          block = buffer_to_block buf';
          (dig, block1, n) =
            (if orig_size > BLOCK_BYTES - 8
             then (let (d1, b1, n1) = transform (digest st) block (transforms st)
                   in (d1, replicate (BLOCK_INTS - 2) 0 @ drop (BLOCK_INTS - 2) b1, n1))
             else (digest st, block, transforms st));
          block2 = block1[BLOCK_INTS - 1 := ucast total_bits, BLOCK_INTS - 2 := ucast (drop_bit 32 total_bits)];
          (dig', _, _) = transform dig block2 n
      in (concat (map hex8 dig'), sha1_reset))"

definition hex_nibble :: "char \<Rightarrow> cpp_error + u32" where
  "hex_nibble c =
     (let n = (of_char c :: nat)
      in if of_char CHR ''0'' \<le> n \<and> n \<le> of_char CHR ''9'' then Inr (of_nat (n - of_char CHR ''0''))
         else if of_char CHR ''a'' \<le> n \<and> n \<le> of_char CHR ''f'' then Inr (of_nat (n - of_char CHR ''a'' + 10))
         else if of_char CHR ''A'' \<le> n \<and> n \<le> of_char CHR ''F'' then Inr (of_nat (n - of_char CHR ''A'' + 10))
         else Inl (runtime_error ''SHA1::to_binary: invalid hex digit''))"

fun to_binary_loop :: "string \<Rightarrow> cpp_error + bytes" where
  "to_binary_loop (c # d # rest) =
     (case hex_nibble c of
        Inl e \<Rightarrow> Inl e
      | Inr h \<Rightarrow>
          (case hex_nibble d of
             Inl e \<Rightarrow> Inl e
           | Inr l \<Rightarrow>
               (case to_binary_loop rest of
                  Inl e \<Rightarrow> Inl e
                | Inr out \<Rightarrow> Inr (ucast (push_bit 4 h OR l) # out))))"
| "to_binary_loop _ = Inr []"

definition to_binary :: "string \<Rightarrow> cpp_error + bytes" where
  "to_binary str =
     (if length str mod 2 \<noteq> 0 then Inl (runtime_error ''SHA1::to_binary: odd-length hex string'')
      else to_binary_loop str)"

text \<open>The digest of a file is the digest of what is read from it.\<close>

definition from_file :: "bytes \<Rightarrow> string" where
  "from_file content = fst (sha1_final (sha1_update content sha1_reset))"

section \<open>FIPS 180-4\<close>

definition ROTL :: "nat \<Rightarrow> u32 \<Rightarrow> u32" where
  "ROTL n x = push_bit n x OR drop_bit (32 - n) x"

definition Ch :: "u32 \<Rightarrow> u32 \<Rightarrow> u32 \<Rightarrow> u32" where "Ch x y z = (x AND y) XOR (NOT x AND z)"
definition Parity :: "u32 \<Rightarrow> u32 \<Rightarrow> u32 \<Rightarrow> u32" where "Parity x y z = x XOR y XOR z"
definition Maj :: "u32 \<Rightarrow> u32 \<Rightarrow> u32 \<Rightarrow> u32" where "Maj x y z = (x AND y) XOR (x AND z) XOR (y AND z)"

definition f_t :: "nat \<Rightarrow> u32 \<Rightarrow> u32 \<Rightarrow> u32 \<Rightarrow> u32" where
  "f_t t = (if t < 20 then Ch else if t < 40 then Parity else if t < 60 then Maj else Parity)"

definition K_t :: "nat \<Rightarrow> u32" where
  "K_t t = (if t < 20 then 0x5a827999 else if t < 40 then 0x6ed9eba1 else if t < 60 then 0x8f1bbcdc else 0xca62c1d6)"

fun W_t :: "u32 list \<Rightarrow> nat \<Rightarrow> u32" where
  "W_t M t = (if t < 16 then M ! t else ROTL 1 (W_t M (t - 3) XOR W_t M (t - 8) XOR W_t M (t - 14) XOR W_t M (t - 16)))"

declare W_t.simps [simp del]

type_synonym hash5 = "u32 \<times> u32 \<times> u32 \<times> u32 \<times> u32"

definition sha_round :: "u32 list \<Rightarrow> nat \<Rightarrow> hash5 \<Rightarrow> hash5" where
  "sha_round M t = (\<lambda>(a, b, c, d, e). (ROTL 5 a + f_t t b c d + e + K_t t + W_t M t, a, ROTL 30 b, c, d))"

definition sha_block :: "u32 list \<Rightarrow> hash5 \<Rightarrow> hash5" where
  "sha_block M H =
     (case H of (h0, h1, h2, h3, h4) \<Rightarrow>
      case fold (sha_round M) [0..<80] H of (a, b, c, d, e) \<Rightarrow> (h0 + a, h1 + b, h2 + c, h3 + d, h4 + e))"

definition be_word :: "byte \<Rightarrow> byte \<Rightarrow> byte \<Rightarrow> byte \<Rightarrow> u32" where
  "be_word a b c d = of_nat (((unat a * 256 + unat b) * 256 + unat c) * 256 + unat d)"

fun words_of :: "bytes \<Rightarrow> u32 list" where
  "words_of (a # b # c # d # rest) = be_word a b c d # words_of rest"
| "words_of _ = []"

text \<open>The padded message: a one bit, zeros up to a whole number of blocks, the length in bits.\<close>

definition be_bytes64 :: "nat \<Rightarrow> bytes" where
  "be_bytes64 n = rev (nat_le 8 n)"

definition sha_pad :: "bytes \<Rightarrow> bytes" where
  "sha_pad m = m @ 0x80 # replicate ((119 - length m mod 64) mod 64) 0 @ be_bytes64 (8 * length m)"

function sha_blocks :: "bytes \<Rightarrow> hash5 \<Rightarrow> hash5" where
  "sha_blocks m H = (if length m < 64 then H else sha_blocks (drop 64 m) (sha_block (words_of (take 64 m)) H))"
  by pat_completeness auto
termination by (relation "measure (\<lambda>(m, _). length m)") auto

definition H0 :: hash5 where
  "H0 = (0x67452301, 0xefcdab89, 0x98badcfe, 0x10325476, 0xc3d2e1f0)"

definition sha1_spec :: "bytes \<Rightarrow> hash5" where
  "sha1_spec m = sha_blocks (sha_pad m) H0"

definition hash_list :: "hash5 \<Rightarrow> u32 list" where
  "hash_list H = (case H of (a, b, c, d, e) \<Rightarrow> [a, b, c, d, e])"

declare sha1_update.simps [simp del] sha_blocks.simps [simp del]

section \<open>One block\<close>

text \<open>The unrolled calls follow one scheme: before call \<open>k\<close> role \<open>j\<close> is played by variable \<open>j - k\<close>.\<close>

abbreviation role :: "nat \<Rightarrow> nat \<Rightarrow> nat" where
  "role k j \<equiv> (j + 4 * k) mod 5"

definition gen_call :: "nat \<Rightarrow> working \<Rightarrow> working" where
  "gen_call k =
     (if k < 16 then R0 else if k < 20 then R1 else if k < 40 then R2 else if k < 60 then R3 else R4)
       (role k 0) (role k 1) (role k 2) (role k 3) (role k 4) (k mod 16)"

lemma transform_calls_gen: "transform_calls = map gen_call [0..<80]"
proof -
  have "map gen_call [0..<80] = transform_calls"
    by (simp add: upt_conv_Cons gen_call_def transform_calls_def) (simp add: numeral_2_eq_2)
  then show ?thesis by simp
qed

definition view :: "nat \<Rightarrow> u32 list \<Rightarrow> hash5" where
  "view k vs = (vs ! role k 0, vs ! role k 1, vs ! role k 2, vs ! role k 3, vs ! role k 4)"

lemma code_functions:
  "(w AND (x XOR y)) XOR y = Ch w x y" "w XOR x XOR y = Parity w x y" "((w OR x) AND y) OR (w AND x) = Maj w x y"
  unfolding Ch_def Parity_def Maj_def by (rule bit_word_eqI, auto simp: bit_simps)+

lemma rol_ROTL: "rol v 5 = ROTL 5 v" "rol v 30 = ROTL 30 v" "rol v (Suc 0) = ROTL (Suc 0) v"
  by (simp_all add: rol_def ROTL_def)

lemma gen_call_eq:
  "gen_call k st =
     R_step (f_t k) (K_t k) (role k 0) (role k 1) (role k 2) (role k 3) (role k 4) (k mod 16)
       (if k < 16 then st else R_update (k mod 16) st)"
  by (auto simp: gen_call_def R0_def R1_def R2_def R3_def R4_def f_t_def K_t_def code_functions)

lemma R_step_view:
  assumes "length vs = 5"
  shows "case R_step f c (role k 0) (role k 1) (role k 2) (role k 3) (role k 4) i (block, vs) of
    (block', vs') \<Rightarrow> block' = block \<and> length vs' = 5 \<and>
      view (Suc k) vs' = (case view k vs of (a, b, c', d, e) \<Rightarrow> (ROTL 5 a + f b c' d + e + c + block ! i, a, ROTL 30 b, c', d))"
proof -
  obtain v0 v1 v2 v3 v4 where vs: "vs = [v0, v1, v2, v3, v4]"
    using assms by (auto simp: numeral_eq_Suc length_Suc_conv)
  have r: "role k j = (j + 4 * (k mod 5)) mod 5" for j k by (metis mod_add_right_eq mod_mult_right_eq)
  have r': "role (Suc k) j = (j + 4 + 4 * (k mod 5)) mod 5" for j
    using r [of "j + 4" k] by (simp add: add.assoc)
  have "k mod 5 < 5" by simp
  then consider "k mod 5 = 0" | "k mod 5 = 1" | "k mod 5 = 2" | "k mod 5 = 3" | "k mod 5 = 4" by linarith
  then show ?thesis
    by cases (simp_all only: view_def R_step_def r [of _ k] r' vs Let_def rol_ROTL, simp_all add: ac_simps)
qed

lemma R_step_blocks: "R_step f c v w x y z i (block, vs) = (block', vs') \<Longrightarrow> block' = block"
  by (auto simp: R_step_def Let_def)

text \<open>What the sixteen words of the block hold before call \<open>k\<close>: the last sixteen of the schedule.\<close>

definition window :: "u32 list \<Rightarrow> nat \<Rightarrow> u32 list \<Rightarrow> bool" where
  "window M k block \<longleftrightarrow> length block = 16 \<and> (\<forall>t < max 16 k. max 16 k \<le> t + 16 \<longrightarrow> block ! (t mod 16) = W_t M t)"

lemma window_update:
  assumes "window M k block" "k \<ge> 16"
  shows "window M (Suc k) (block[k mod 16 := blk block (k mod 16)])"
    "blk block (k mod 16) = W_t M k"
proof -
  have b: "block ! (t mod 16) = W_t M t" if "t < k" "k \<le> t + 16" for t
    using assms that by (simp add: window_def max_def)
  obtain j where k: "k = 16 + j" using assms(2) le_iff_add by blast
  have m: "(k mod 16 + 13) mod 16 = (k - 3) mod 16" "(k mod 16 + 8) mod 16 = (k - 8) mod 16"
      "(k mod 16 + 2) mod 16 = (k - 14) mod 16" "k mod 16 = (k - 16) mod 16"
    using mod_add_left_eq [of j 16 13] mod_add_left_eq [of j 16 8] mod_add_left_eq [of j 16 2]
    by (simp_all add: k add.commute)
  have g: "block ! ((k - n) mod 16) = W_t M (k - n)" if "n \<in> {3, 8, 14, 16}" for n
    by (rule b) (use that assms(2) in auto)
  have "block ! (k mod 16) = W_t M (k - 16)" using g [of 16] unfolding m(4) by simp
  then show w: "blk block (k mod 16) = W_t M k"
    using g [of 3] g [of 8] g [of 14] assms(2) unfolding blk_def BLOCK_INTS_def m(1-3)
    by (simp only: W_t.simps [of M k] rol_ROTL One_nat_def) simp
  have ne: "k mod 16 \<noteq> t mod 16" if "t < k" "Suc k \<le> t + 16" for t
  proof
    assume "k mod 16 = t mod 16"
    then have "16 dvd k - t" using mod_eq_dvd_iff_nat [of t k 16] that(1) by (simp only: less_imp_le)
    then have "16 \<le> k - t" by (rule dvd_imp_le) (use that in simp)
    then show False using that by simp
  qed
  have len: "k mod 16 < length block" using assms(1) by (simp add: window_def)
  have "block[k mod 16 := blk block (k mod 16)] ! (t mod 16) = W_t M t" if t: "t < Suc k" "Suc k \<le> t + 16" for t
  proof (cases "t = k")
    case True
    show ?thesis unfolding True nth_list_update_eq [OF len] by (rule w)
  next
    case False
    then have "t < k" using t by simp
    then show ?thesis unfolding nth_list_update_neq [OF ne [OF \<open>t < k\<close> t(2)]] using b t(2) by simp
  qed
  then show "window M (Suc k) (block[k mod 16 := blk block (k mod 16)])"
    using assms by (simp add: window_def max_def)
qed

lemma gen_call_step:
  assumes "window M k block" "length vs = 5"
  shows "case gen_call k (block, vs) of
    (block', vs') \<Rightarrow> window M (Suc k) block' \<and> length vs' = 5 \<and> view (Suc k) vs' = sha_round M k (view k vs)"
proof (cases "k < 16")
  case True
  then have "block ! (k mod 16) = W_t M k" "window M (Suc k) block"
    using assms(1) by (auto simp: window_def max_def)
  with True R_step_view [OF assms(2), where f = "f_t k" and c = "K_t k" and k = k and i = "k mod 16" and block = block] show ?thesis
    by (auto simp: gen_call_eq sha_round_def split: prod.splits)
next
  case False
  let ?b = "block[k mod 16 := blk block (k mod 16)]"
  have w: "window M (Suc k) ?b" "?b ! (k mod 16) = W_t M k"
    using window_update [OF assms(1)] False assms(1) by (auto simp: window_def)
  with False R_step_view [OF assms(2), where f = "f_t k" and c = "K_t k" and k = k and i = "k mod 16" and block = ?b] show ?thesis
    by (auto simp: gen_call_eq sha_round_def R_update_def split: prod.splits)
qed

lemma calls_compute_rounds:
  assumes "length M = 16" "length vs = 5"
  shows "case fold gen_call [0..<n] (M, vs) of
    (block', vs') \<Rightarrow> window M n block' \<and> length vs' = 5 \<and> view n vs' = fold (sha_round M) [0..<n] (view 0 vs)"
proof (induction n)
  case 0
  have "W_t M t = M ! t" if "t < 16" for t using that by (simp add: W_t.simps)
  then show ?case using assms by (simp add: window_def)
next
  case (Suc n)
  then show ?case using gen_call_step [of M n] by (fastforce split: prod.splits)
qed

lemma transform_is_sha_block:
  assumes "length M = 16"
  shows "\<exists>b. length b = 16 \<and> transform (hash_list H) M n = (hash_list (sha_block M H), b, n + 1)"
proof -
  obtain h0 h1 h2 h3 h4 where H: "H = (h0, h1, h2, h3, h4)" by (metis prod_cases5)
  obtain b vs where f: "fold gen_call [0..<80] (M, hash_list H) = (b, vs)" by fastforce
  have c: "window M 80 b" "length vs = 5" "view 80 vs = fold (sha_round M) [0..<80] (view 0 (hash_list H))"
    using calls_compute_rounds [OF assms, of "hash_list H" 80] f by (simp_all add: H hash_list_def)
  obtain v0 v1 v2 v3 v4 where vs: "vs = [v0, v1, v2, v3, v4]"
    using c(2) by (auto simp: numeral_eq_Suc length_Suc_conv)
  have "fold (sha_round M) [0..<80] H = (v0, v1, v2, v3, v4)"
    using c(3) by (simp add: view_def vs H hash_list_def)
  moreover have "fold (\<lambda>r. r) transform_calls (M, hash_list H) = (b, vs)"
    using f by (simp add: transform_calls_gen fold_map comp_def)
  ultimately show ?thesis
    using c(1) by (simp add: transform_def sha_block_def H hash_list_def vs window_def)
qed

section \<open>Bytes and words\<close>

lemma be_word_bits:
  fixes a b c d :: byte
  shows "ucast d OR push_bit 8 (ucast c) OR push_bit 16 (ucast b) OR push_bit 24 (ucast a) = (be_word a b c d :: u32)"
proof -
  let ?a = "push_bit 24 (ucast a) :: u32" and ?b = "push_bit 16 (ucast b) :: u32"
    and ?c = "push_bit 8 (ucast c) :: u32" and ?d = "ucast d :: u32"
  have 1: "?b + ?a = ?b OR ?a"
    by (rule disjunctive_add) (auto simp: bit_simps dest: bit_imp_le_length)
  have 2: "?c + (?b OR ?a) = ?c OR (?b OR ?a)"
    by (rule disjunctive_add) (auto simp: bit_simps dest: bit_imp_le_length)
  have 3: "?d + (?c OR (?b OR ?a)) = ?d OR (?c OR (?b OR ?a))"
    by (rule disjunctive_add) (auto simp: bit_simps dest: bit_imp_le_length)
  have x: "?d OR (?c OR (?b OR ?a)) = ?d + (?c + (?b + ?a))" unfolding 1 2 3 ..
  show ?thesis unfolding x by (simp add: be_word_def push_bit_eq_mult algebra_simps)
qed

lemma be_word_le_nat: "be_word a b c d = of_nat (le_nat [d, c, b, a])"
  by (simp add: be_word_def algebra_simps)

lemma words_of_map:
  "length m = 4 * n \<Longrightarrow>
     words_of m = map (\<lambda>i. be_word (m ! (4 * i + 0)) (m ! (4 * i + 1)) (m ! (4 * i + 2)) (m ! (4 * i + 3))) [0..<n]"
proof (induction n arbitrary: m)
  case (Suc n)
  then obtain a b c d r where m: "m = a # b # c # d # r" "length r = 4 * n"
    by (auto simp: length_Suc_conv numeral_eq_Suc)
  show ?case using Suc.IH [OF m(2)]
    by (simp add: m(1) upt_conv_Cons map_Suc_upt [symmetric] comp_def add.commute [of 3] del: upt_Suc)
qed simp

lemma buffer_to_block_words: "length m = 64 \<Longrightarrow> buffer_to_block m = words_of m"
  using words_of_map [of m 16] by (simp only: buffer_to_block_def be_word_bits BLOCK_INTS_def mult_numeral_1 numeral_times_numeral semiring_norm)

lemma words_of_append: "length m = 4 * n \<Longrightarrow> words_of (m @ m') = words_of m @ words_of m'"
proof (induction n arbitrary: m)
  case (Suc n)
  then obtain a b c d r where m: "m = a # b # c # d # r" "length r = 4 * n"
    by (auto simp: length_Suc_conv numeral_eq_Suc)
  show ?case using Suc.IH [OF m(2)] by (simp add: m(1))
qed simp

lemma length_words_of: "length m = 4 * n \<Longrightarrow> length (words_of m) = n"
  by (simp add: words_of_map)

lemma halves_of_u64:
  "[of_nat (n div 256 ^ 4 mod 256 ^ 4), of_nat (n mod 256 ^ 4)] = [ucast (drop_bit 32 (of_nat n :: u64)), ucast (of_nat n :: u64) :: u32]"
proof -
  have p: "(256 :: nat) ^ 4 = 2 ^ 32" by simp
  have "n mod 2 ^ 64 = 2 ^ 32 * (n div 2 ^ 32 mod 2 ^ 32) + n mod 2 ^ 32"
    using mod_mult2_eq [of n "2 ^ 32" "2 ^ 32"] by (simp only: power_add [symmetric]) simp
  then have h: "n mod 2 ^ 64 div 2 ^ 32 = n div 2 ^ 32 mod 2 ^ 32" by simp
  have l: "n mod 2 ^ 64 mod 2 ^ 32 = n mod 2 ^ 32" by (rule mod_mod_cancel) (simp add: le_imp_power_dvd)
  have u: "unat (of_nat k :: u64) = k mod 2 ^ 64" "unat (of_nat k :: u32) = k mod 2 ^ 32" for k by (simp_all add: unat_of_nat)
  have c: "unat (ucast w :: u32) = unat w mod 2 ^ 32" for w :: u64
    by (simp add: unsigned_ucast_eq unsigned_take_bit_eq take_bit_eq_mod)
  have d: "unat (drop_bit 32 w) = unat w div 2 ^ 32" for w :: u64
    unfolding unsigned_drop_bit_eq using unsigned_less [where ?'a = nat and w = w]
    by (simp add: drop_bit_eq_div take_bit_nat_eq_self)
  show ?thesis unfolding p list.inject word_unat_eq_iff u c d h l by simp
qed

lemma words_of_be64:
  "words_of (be_bytes64 n) = [ucast (drop_bit 32 (of_nat n :: u64)), ucast (of_nat n :: u64)]"
proof -
  have "nat_le 8 n = nat_le 4 n @ nat_le 4 (n div 256 ^ 4)" using nat_le_add [of 4 4 n] by simp
  moreover obtain a b c d where l: "nat_le 4 n = [a, b, c, d]"
    using length_nat_le by (rule length_4E)
  moreover obtain e f g h where h: "nat_le 4 (n div 256 ^ 4) = [e, f, g, h]"
    using length_nat_le by (rule length_4E)
  ultimately have "words_of (be_bytes64 n) = [of_nat (le_nat (nat_le 4 (n div 256 ^ 4))), of_nat (le_nat (nat_le 4 n))]"
    by (simp add: be_bytes64_def be_word_le_nat)
  also have "\<dots> = [ucast (drop_bit 32 (of_nat n :: u64)), ucast (of_nat n :: u64)]"
    unfolding le_nat_nat_le by (rule halves_of_u64)
  finally show ?thesis .
qed

lemma words_of_zeros: "words_of (replicate (4 * n) 0) = replicate n 0"
proof (induction n)
  case (Suc n)
  have "replicate (4 * Suc n) (0 :: byte) = 0 # 0 # 0 # 0 # replicate (4 * n) 0" by (simp add: numeral_eq_Suc)
  with Suc show ?case by (simp add: be_word_def del: mult_Suc_right)
qed simp

section \<open>Whole messages\<close>

lemma sha_blocks_append:
  "length p mod 64 = 0 \<Longrightarrow> sha_blocks (p @ q) H = sha_blocks q (sha_blocks p H)"
proof (induction p H rule: sha_blocks.induct)
  case (1 p H)
  show ?case
  proof (cases "length p < 64")
    case True
    then show ?thesis using 1 by (simp add: sha_blocks.simps [of "[]"])
  next
    case False
    then have "length (drop 64 p) mod 64 = 0" using "1.prems" by (simp add: le_mod_geq)
    with False "1.IH" show ?thesis by (subst (1 3) sha_blocks.simps) simp
  qed
qed

lemma sha_blocks_one: "length b = 64 \<Longrightarrow> sha_blocks b H = sha_block (words_of b) H"
  by (simp add: sha_blocks.simps [of b] sha_blocks.simps [of "[]"])

text \<open>The state of the object after the message \<open>m\<close>.\<close>

definition sha_rep :: "bytes \<Rightarrow> sha1 \<Rightarrow> bool" where
  "sha_rep m st \<longleftrightarrow>
     length (sha_buffer st) < 64 \<and>
     (\<exists>p. m = p @ sha_buffer st \<and> length p mod 64 = 0 \<and> digest st = hash_list (sha_blocks p H0) \<and>
          transforms st = of_nat (length p div 64))"

lemma sha_rep_reset: "sha_rep [] sha1_reset"
  by (simp add: sha_rep_def sha1_reset_def H0_def hash_list_def sha_blocks.simps [of "[]"])

lemma sha_rep_update: "sha_rep m st \<Longrightarrow> sha_rep (m @ is) (sha1_update is st)"
proof (induction "length is" arbitrary: "is" st m rule: less_induct)
  case less
  let ?k = "64 - length (sha_buffer st)"
  let ?buf = "sha_buffer st @ take ?k is"
  obtain p where p: "m = p @ sha_buffer st" "length p mod 64 = 0" "digest st = hash_list (sha_blocks p H0)"
      "transforms st = of_nat (length p div 64)" and l: "length (sha_buffer st) < 64"
    using less.prems by (auto simp: sha_rep_def)
  have bb: "BLOCK_BYTES = 64" by (simp add: BLOCK_BYTES_def BLOCK_INTS_def)
  show ?case
  proof (cases "length ?buf = 64")
    case False
    then have "length is < ?k" using l by (auto simp: min_def split: if_splits)
    then have t: "take ?k is = is" and "length ?buf < 64" by simp_all
    moreover have "sha1_update is st = st\<lparr>sha_buffer := ?buf\<rparr>"
      using False by (subst sha1_update.simps) (simp add: bb Let_def)
    ultimately show ?thesis using p by (auto simp: sha_rep_def)
  next
    case True
    let ?H = "sha_blocks p H0"
    have w: "length (buffer_to_block ?buf) = 16" by (simp add: buffer_to_block_def BLOCK_INTS_def)
    obtain b where t: "transform (digest st) (buffer_to_block ?buf) (transforms st) =
        (hash_list (sha_block (words_of ?buf) ?H), b, transforms st + 1)"
      using transform_is_sha_block [OF w, of ?H "transforms st"] p(3) buffer_to_block_words [OF True] by auto
    let ?st = "\<lparr>digest = hash_list (sha_block (words_of ?buf) ?H), sha_buffer = [], transforms = transforms st + 1\<rparr>"
    have n: "length (p @ ?buf) = length p + 64" using True by simp
    have d: "(length p + 64) div 64 = Suc (length p div 64)" by simp
    have r: "sha_rep (p @ ?buf) ?st"
      using p(2,4) True sha_blocks_append [OF p(2), of ?buf H0] sha_blocks_one [OF True]
      unfolding sha_rep_def by (intro conjI exI [of _ "p @ ?buf"]) (simp_all add: n d del: length_append)
    have "sha_rep ((p @ ?buf) @ drop ?k is) (sha1_update (drop ?k is) ?st)"
      by (rule less.hyps [OF _ r]) (use True l in \<open>auto simp: min_def split: if_splits\<close>)
    moreover have "(p @ ?buf) @ drop ?k is = m @ is" using p(1) by simp
    moreover have "sha1_update is st = sha1_update (drop ?k is) ?st"
      using True t by (subst sha1_update.simps) (simp add: bb Let_def)
    ultimately show ?thesis by metis
  qed
qed

lemma sha_rep_updates: "sha_rep m st \<Longrightarrow> sha_rep (m @ concat ms) (fold sha1_update ms st)"
proof (induction ms arbitrary: m st)
  case (Cons x ms)
  from Cons.IH [OF sha_rep_update [OF Cons.prems]] show ?case by simp
qed simp

lemma total_bits:
  assumes "length p mod 64 = 0"
  shows "(of_nat (length p div 64) * of_nat 64 + of_nat (length b)) * 8 = (of_nat (8 * length (p @ b)) :: u64)"
proof -
  have "length p div 64 * 64 = length p" using assms by (simp add: mod_0_imp_dvd)
  then have "of_nat (length p div 64 * 64) = (of_nat (length p) :: u64)" by (rule arg_cong)
  then show ?thesis by (simp add: algebra_simps)
qed

text \<open>The last two words of the block that ends the message are the number of its bits.\<close>

lemma last_block:
  assumes "length z = 56" "length t = 8"
  shows "(words_of (z @ t))[15 := ucast (of_nat n :: u64), 14 := ucast (drop_bit 32 (of_nat n :: u64))] = words_of (z @ be_bytes64 n)"
proof -
  have z: "length (words_of z) = 14" "words_of (z @ x) = words_of z @ words_of x" for x
    using assms(1) length_words_of [of z 14] words_of_append [of z 14 x] by simp_all
  have "length (words_of t) = 2" using assms(2) length_words_of [of t 2] by simp
  then obtain u v where "words_of t = [u, v]" by (auto simp: length_Suc_conv numeral_eq_Suc)
  then show ?thesis by (simp add: z words_of_be64 list_update_append)
qed

lemma block_sizes: "BLOCK_BYTES = 64" "BLOCK_INTS = 16" "length (buffer_to_block x) = 16" "length (be_bytes64 n) = 8"
  by (simp_all add: BLOCK_BYTES_def BLOCK_INTS_def buffer_to_block_def be_bytes64_def)

text \<open>
  \<^verbatim>\<open>final\<close> with \<open>b\<close> in the buffer, \<open>H\<close> the digest so far and \<open>n\<close> the number of bits: one block when
  the length still fits behind the buffer, two otherwise.
\<close>

lemma sha1_final_short:
  assumes "length b \<le> 55" "sha_buffer st = b" "digest st = hash_list H"
    and tot: "(transforms st * of_nat BLOCK_BYTES + of_nat (length (sha_buffer st))) * 8 = of_nat n"
  shows "sha1_final st =
    (concat (map hex8 (hash_list (sha_blocks (b @ 0x80 # replicate ((119 - length b) mod 64) 0 @ be_bytes64 n) H))), sha1_reset)"
proof -
  let ?T = "of_nat n :: u64" and ?z = "b @ 0x80 # replicate (55 - length b) 0" and ?buf = "b @ 0x80 # replicate (63 - length b) 0"
  have z: "length ?z = 56" "length ?buf = 64" using assms(1) by simp_all
  have buf: "?buf = ?z @ replicate 8 0" using assms(1) by (simp add: replicate_add [symmetric])
  have "(119 - length b) mod 64 = 55 - length b" using assms(1) by (simp add: le_mod_geq)
  then have sp: "sha_blocks (b @ 0x80 # replicate ((119 - length b) mod 64) 0 @ be_bytes64 n) H =
      sha_block (words_of (?z @ be_bytes64 n)) H"
    using sha_blocks_one [of "?z @ be_bytes64 n" H] z by (simp add: block_sizes)
  have w: "(buffer_to_block ?buf)[15 := ucast ?T, 14 := ucast (drop_bit 32 ?T)] = words_of (?z @ be_bytes64 n)"
    using last_block [OF z(1), of "replicate 8 0" n] buffer_to_block_words [OF z(2)] unfolding buf by simp
  obtain b' where "transform (hash_list H) (words_of (?z @ be_bytes64 n)) (transforms st) =
      (hash_list (sha_block (words_of (?z @ be_bytes64 n)) H), b', transforms st + 1)"
    using transform_is_sha_block [of "words_of (?z @ be_bytes64 n)" H "transforms st"] length_words_of [of "?z @ be_bytes64 n" 16] z
    by (auto simp: block_sizes)
  then show ?thesis
    unfolding sp using assms w by (simp add: sha1_final_def block_sizes Let_def)
qed

lemma sha1_final_long:
  assumes "55 < length b" "length b < 64" "sha_buffer st = b" "digest st = hash_list H"
    and tot: "(transforms st * of_nat BLOCK_BYTES + of_nat (length (sha_buffer st))) * 8 = of_nat n"
  shows "sha1_final st =
    (concat (map hex8 (hash_list (sha_blocks (b @ 0x80 # replicate ((119 - length b) mod 64) 0 @ be_bytes64 n) H))), sha1_reset)"
proof -
  let ?T = "of_nat n :: u64" and ?z = "replicate 56 0 :: bytes" and ?buf = "b @ 0x80 # replicate (63 - length b) 0"
  let ?H1 = "sha_block (words_of ?buf) H"
  have lb: "length ?buf = 64" using assms(1,2) by simp
  have k: "(119 - length b) mod 64 = (63 - length b) + 56" using assms(1,2) by simp
  have "sha_blocks (b @ 0x80 # replicate ((119 - length b) mod 64) 0 @ be_bytes64 n) H = sha_blocks (?buf @ ?z @ be_bytes64 n) H"
    unfolding k replicate_add by simp
  then have sp: "sha_blocks (b @ 0x80 # replicate ((119 - length b) mod 64) 0 @ be_bytes64 n) H =
      sha_block (words_of (?z @ be_bytes64 n)) ?H1"
    using sha_blocks_append [of ?buf "?z @ be_bytes64 n" H] sha_blocks_one [OF lb] sha_blocks_one [of "?z @ be_bytes64 n"] lb
    by (simp add: block_sizes)
  obtain b1 where t1: "length b1 = 16" "transform (hash_list H) (buffer_to_block ?buf) (transforms st) =
      (hash_list ?H1, b1, transforms st + 1)"
    using transform_is_sha_block [OF block_sizes(3) [of ?buf], of H "transforms st"] buffer_to_block_words [OF lb] by auto
  obtain u v where "drop 14 b1 = [u, v]"
    using t1(1) by (cases "drop 14 b1"; cases "tl (drop 14 b1)") (auto dest!: arg_cong [where f = length])
  then have w: "(replicate 14 0 @ drop 14 b1)[15 := ucast ?T, 14 := ucast (drop_bit 32 ?T)] = words_of (?z @ be_bytes64 n)"
    using words_of_append [of ?z 14] words_of_zeros [of 14] by (simp add: words_of_be64 list_update_append)
  obtain b2 where "transform (hash_list ?H1) (words_of (?z @ be_bytes64 n)) (transforms st + 1) =
      (hash_list (sha_block (words_of (?z @ be_bytes64 n)) ?H1), b2, transforms st + 1 + 1)"
    using transform_is_sha_block [of "words_of (?z @ be_bytes64 n)" ?H1 "transforms st + 1"]
      length_words_of [of "?z @ be_bytes64 n" 16] by (auto simp: block_sizes)
  then show ?thesis
    unfolding sp using assms w t1(2) by (simp add: sha1_final_def block_sizes Let_def)
qed

lemma sha1_final_rep:
  assumes "sha_rep m st"
  shows "sha1_final st = (concat (map hex8 (hash_list (sha1_spec m))), sha1_reset)"
proof -
  obtain p where p: "m = p @ sha_buffer st" "length p mod 64 = 0" "digest st = hash_list (sha_blocks p H0)"
      "transforms st = of_nat (length p div 64)" and l: "length (sha_buffer st) < 64"
    using assms by (auto simp: sha_rep_def)
  let ?b = "sha_buffer st" and ?n = "8 * length m"
  have tot: "(transforms st * of_nat BLOCK_BYTES + of_nat (length (sha_buffer st))) * 8 = of_nat ?n"
    using total_bits [OF p(2), of ?b] p(1,4) by (simp add: block_sizes)
  have "length m mod 64 = length ?b" using p(1,2) l by (simp add: mod_add_left_eq [symmetric] del: mod_add_left_eq)
  then have "sha_pad m = p @ ?b @ 0x80 # replicate ((119 - length ?b) mod 64) 0 @ be_bytes64 ?n"
    by (simp add: sha_pad_def p(1))
  then have "sha1_spec m = sha_blocks (?b @ 0x80 # replicate ((119 - length ?b) mod 64) 0 @ be_bytes64 ?n) (sha_blocks p H0)"
    by (simp add: sha1_spec_def sha_blocks_append [OF p(2)])
  then show ?thesis
    using sha1_final_short [OF _ refl p(3) tot] sha1_final_long [OF _ l refl p(3) tot]
    by (cases "length ?b \<le> 55") simp_all
qed

section \<open>The printed digest\<close>

lemma hex_nibble_digit: "n < 16 \<Longrightarrow> hex_nibble (hex_digit n) = Inr (of_nat n)"
proof -
  have "list_all (\<lambda>n. hex_nibble (hex_digit n) = Inr (of_nat n)) [0..<16]" by code_simp
  then show "n < 16 \<Longrightarrow> ?thesis" by (simp add: list_all_iff)
qed

definition be_bytes32 :: "u32 \<Rightarrow> bytes" where
  "be_bytes32 w = [ucast (drop_bit 24 w), ucast (drop_bit 16 w), ucast (drop_bit 8 w), ucast w]"

lemma nibbles:
  "ucast (push_bit 4 (drop_bit (k + 4) w AND 0xf) OR (drop_bit k w AND 0xf) :: u32) = (ucast (drop_bit k w) :: byte)"
proof -
  have m: "x AND 0xf = take_bit 4 x" for x :: u32 by (simp add: take_bit_eq_mask mask_eq_exp_minus_1)
  show ?thesis unfolding m
    by (rule bit_word_eqI) (auto simp: bit_simps algebra_simps)
qed

lemma to_binary_hex8:
  "to_binary_loop (hex8 w @ rest) = (case to_binary_loop rest of Inl e \<Rightarrow> Inl e | Inr out \<Rightarrow> Inr (be_bytes32 w @ out))"
proof -
  have l: "unat (x AND 0xf) < 16" for x :: u32
  proof -
    have "x AND 0xf = take_bit 4 x" by (simp add: take_bit_eq_mask mask_eq_exp_minus_1)
    then show ?thesis using take_bit_nat_less_exp [of 4 "unat x"] by (simp add: unsigned_take_bit_eq)
  qed
  have h: "hex8 w = map (\<lambda>k. hex_digit (unat (drop_bit k w AND 0xf))) [28, 24, 20, 16, 12, 8, 4, 0]"
    by (simp add: hex8_def upt_conv_Cons numeral_eq_Suc)
  show ?thesis
    using nibbles [of 24 w] nibbles [of 16 w] nibbles [of 8 w] nibbles [of 0 w]
    by (simp add: h hex_nibble_digit [OF l] be_bytes32_def del: drop_bit_and split: sum.splits)
qed

lemma to_binary_digest: "to_binary (concat (map hex8 ws)) = Inr (concat (map be_bytes32 ws))"
proof -
  have "to_binary_loop (concat (map hex8 ws)) = Inr (concat (map be_bytes32 ws))"
    by (induction ws) (simp_all add: to_binary_hex8)
  moreover have "length (hex8 w) = 8" for w by (simp add: hex8_def)
  then have "length (concat (map hex8 ws)) = 8 * length ws" by (induction ws) simp_all
  ultimately show ?thesis by (simp add: to_binary_def mod_mult_self1_is_0)
qed

section \<open>Properties\<close>

text \<open>
  C19. The object computes SHA-1. Whatever pieces a message is fed in, \<^verbatim>\<open>final\<close> returns the
  hexadecimal form of the digest FIPS 180-4 gives of the whole message, and leaves the object as
  it was when new. The eighty unrolled calls on a block of sixteen words that is overwritten as
  it is used compute the eighty rounds over the schedule of eighty words.
\<close>

theorem sha1_is_sha1:
  "sha1_final (fold sha1_update ms sha1_reset) = (concat (map hex8 (hash_list (sha1_spec (concat ms)))), sha1_reset)"
  using sha1_final_rep [OF sha_rep_updates [OF sha_rep_reset]] by simp

text \<open>
  C20. Reading a printed digest back gives its twenty bytes, most significant byte of each word
  first, without an error.
\<close>

theorem to_binary_of_digest:
  "to_binary (fst (sha1_final (fold sha1_update ms sha1_reset))) =
     Inr (concat (map be_bytes32 (hash_list (sha1_spec (concat ms))))) \<and>
   length (concat (map be_bytes32 (hash_list (sha1_spec (concat ms))))) = 20"
proof -
  have "sha1_final (fold sha1_update ms sha1_reset) = (concat (map hex8 (hash_list (sha1_spec (concat ms)))), sha1_reset)"
    using sha1_final_rep [OF sha_rep_updates [OF sha_rep_reset]] by simp
  moreover have "length (concat (map be_bytes32 (hash_list H))) = 20" for H
    by (simp add: hash_list_def be_bytes32_def split: prod.splits)
  ultimately show ?thesis by (simp add: to_binary_digest)
qed

end
