(* ===== verification/Ws_Frame.thy ===== *)
theory Ws_Frame
  imports Prelude
begin

text \<open>
  Frames of the websocket protocol (src/app/websocket\_app.cpp): how the application reads a
  frame off the front of the receive buffer, how it writes one, and the frames of RFC 6455.
\<close>

section \<open>Kinds of frames\<close>

datatype websocket_frame_type =
    CONNECTION_CLOSE_FRAME | TEXT_FRAME | BINARY_FRAME | PONG | PING | CONTINUATION_FRAME
  | FURTHER_NON_CONTROL | FURTHER_CONTROL | ERROR

definition n_2_websocket_frame_type :: "byte \<Rightarrow> websocket_frame_type" where
  "n_2_websocket_frame_type n0 =
     (let n = n0 AND 0x0f
      in if n = 0x1 then TEXT_FRAME
         else if n = 0x2 then BINARY_FRAME
         else if n = 0x0 then CONTINUATION_FRAME
         else if n \<ge> 0x3 \<and> n \<le> 0x7 then FURTHER_NON_CONTROL
         else if n \<ge> 0xb \<and> n \<le> 0xf then FURTHER_CONTROL
         else if n = 0x8 then CONNECTION_CLOSE_FRAME
         else if n = 0x9 then PING
         else if n = 0xa then PONG
         else ERROR)"

definition websocket_frame_type_2_n :: "websocket_frame_type \<Rightarrow> byte \<Rightarrow> byte" where
  "websocket_frame_type_2_n t idx =
     (if t = TEXT_FRAME then 0x1
      else if t = BINARY_FRAME then 0x2
      else if t = CONTINUATION_FRAME then 0x0
      else if t = FURTHER_NON_CONTROL \<and> idx \<le> 0x4 then 0x3 + idx
      else if t = FURTHER_CONTROL \<and> idx \<le> 0x5 then 0xb + idx
      else if t = CONNECTION_CLOSE_FRAME then 0x8
      else if t = PING then 0x9
      else if t = PONG then 0xa
      else 0x8)"

section \<open>Reading a frame\<close>

record websocket_frame =
  fin :: bool
  opcode :: byte
  mask_flag :: bool
  payload_length :: u64
  masking_key :: bytes
  payload_data :: bytes

text \<open>
  One iteration of the loop of \<^verbatim>\<open>on_process_connection\<close> up to the point where the frame is
  complete: more bytes are needed, the kind of frame is refused, constructing the payload
  string raises \<^verbatim>\<open>std::length_error\<close>, or a frame of \<open>n\<close> bytes was read.
\<close>

datatype ws_read = Ws_need | Ws_refused | Ws_throws | Ws_frame websocket_frame nat

definition string_max_size :: nat where "string_max_size = 2 ^ 63 - 1"

text \<open>The extended length behind the second byte: its value and the index behind it.\<close>

definition ws_length :: "bytes \<Rightarrow> (u64 \<times> nat) option" where
  "ws_length data =
     (let len7 = ucast (data ! 1 AND 0x7f) :: u64;
          index = 2
      in if len7 = 126 then
           (if index + 1 \<ge> length data then None
            else Some (of_nat (be_nat [data ! index, data ! (index + 1)]), index + 2))
         else if len7 = 127 then
           (if index + 7 \<ge> length data then None
            else
              (let high = of_nat (be_nat (map (\<lambda>k. data ! (index + k)) [0, 1, 2, 3])) :: u32;
                   low = of_nat (be_nat (map (\<lambda>k. data ! (index + k)) [4, 5, 6, 7])) :: u32
               in Some (push_bit 32 (ucast high) OR ucast low, index + 8)))
         else Some (len7, index))"

definition ws_unmask :: "bytes \<Rightarrow> bytes \<Rightarrow> bytes" where
  "ws_unmask key payload = map (\<lambda>i. payload ! i XOR key ! (i mod 4)) [0..<length payload]"

definition ws_payload :: "bytes \<Rightarrow> bool \<Rightarrow> byte \<Rightarrow> bool \<Rightarrow> u64 \<Rightarrow> bytes \<Rightarrow> nat \<Rightarrow> ws_read" where
  "ws_payload data f op m plen key index =
     (if of_nat index + plen - 1 \<ge> (of_nat (length data) :: u64) then Ws_need
      else if plen \<noteq> 0 \<and> unat plen > string_max_size then Ws_throws
      else
        (let raw = (if plen \<noteq> 0 then take (unat plen) (drop index data) else []);
             payload = (if m then ws_unmask key raw else raw)
         in Ws_frame \<lparr>fin = f, opcode = op, mask_flag = m, payload_length = plen, masking_key = key,
                      payload_data = payload\<rparr> (index + unat plen)))"

definition ws_read_frame :: "bytes \<Rightarrow> ws_read" where
  "ws_read_frame data =
     (if length data = 0 then Ws_need
      else
        (let op = data ! 0 AND 0x0f; t = n_2_websocket_frame_type op
         in if t \<noteq> TEXT_FRAME \<and> t \<noteq> BINARY_FRAME \<and> t \<noteq> CONTINUATION_FRAME then Ws_refused
            else if 1 \<ge> length data then Ws_need
            else
              (let f = data ! 0 AND 0x80 \<noteq> 0; m = data ! 1 AND 0x80 \<noteq> 0
               in case ws_length data of
                    None \<Rightarrow> Ws_need
                  | Some (plen, index) \<Rightarrow>
                      if m then
                        (if index + 3 \<ge> length data then Ws_need
                         else ws_payload data f op m plen (map (\<lambda>k. data ! (index + k)) [0, 1, 2, 3]) (index + 4))
                      else ws_payload data f op m plen [] index)))"

section \<open>Writing a frame\<close>

definition ws_frame_header :: "byte \<Rightarrow> nat \<Rightarrow> bytes" where
  "ws_frame_header first_byte message_length =
     first_byte #
     (if message_length \<le> 125 then [of_nat message_length]
      else if message_length \<le> 0xFFFF
      then [126, ucast (drop_bit 8 (of_nat message_length :: u64) AND 0xFF), ucast ((of_nat message_length :: u64) AND 0xFF)]
      else 127 # map (\<lambda>i. ucast (drop_bit (8 * i) (of_nat message_length :: u64) AND 0xFF)) [7, 6, 5, 4, 3, 2, 1, 0])"

definition ws_frame_bytes :: "byte \<Rightarrow> bytes \<Rightarrow> bytes" where
  "ws_frame_bytes first_byte data = ws_frame_header first_byte (length data) @ data"

section \<open>The frames of RFC 6455\<close>

text \<open>
  A frame with its final bit, opcode, masking key (none or four bytes) and application data, the
  length in the shortest of the three forms.
\<close>

definition rfc_length :: "nat \<Rightarrow> byte \<times> bytes" where
  "rfc_length n =
     (if n \<le> 125 then (of_nat n, [])
      else if n < 2 ^ 16 then (126, be_bytes 2 n)
      else (127, be_bytes 8 n))"

definition rfc_frame :: "bool \<Rightarrow> byte \<Rightarrow> bytes option \<Rightarrow> bytes \<Rightarrow> bytes" where
  "rfc_frame f op key data =
     (case rfc_length (length data) of
        (len7, ext) \<Rightarrow>
          ((if f then 0x80 else 0) OR op) # ((if key = None then 0 else 0x80) OR len7) # ext @
          (case key of None \<Rightarrow> data | Some k \<Rightarrow> k @ map (\<lambda>i. data ! i XOR k ! (i mod 4)) [0..<length data]))"

section \<open>Bits of the header\<close>

lemma flag_bits:
  assumes "n < 128"
  shows "((if b then 0x80 else 0) OR of_nat n :: byte) AND 0x7f = of_nat n"
    "((if b then 0x80 else 0) OR of_nat n :: byte) AND 0x80 \<noteq> 0 \<longleftrightarrow> b"
proof -
  have m: "(of_nat n :: byte) AND 0x7f = of_nat n"
  proof -
    have "(of_nat n :: byte) AND mask 7 = of_nat (take_bit 7 n)"
      by (simp add: take_bit_eq_mask [symmetric] take_bit_of_nat)
    then show ?thesis using assms by (simp add: mask_eq_exp_minus_1 take_bit_nat_eq_self)
  qed
  have "(of_nat n :: byte) AND 0x80 = (of_nat n AND 0x7f) AND 0x80" unfolding m ..
  also have "\<dots> = 0" unfolding and.assoc by simp
  finally have z: "(of_nat n :: byte) AND 0x80 = 0" .
  show "((if b then 0x80 else 0) OR of_nat n :: byte) AND 0x7f = of_nat n"
    unfolding bit.conj_disj_distrib2 m by simp
  show "((if b then 0x80 else 0) OR of_nat n :: byte) AND 0x80 \<noteq> 0 \<longleftrightarrow> b"
    unfolding bit.conj_disj_distrib2 z by simp
qed

lemma opcode_bits:
  assumes "op \<in> {0, 1, 2}"
  shows "((if f then 0x80 else 0) OR op :: byte) AND 0x0f = op" "((if f then 0x80 else 0) OR op :: byte) AND 0x80 \<noteq> 0 \<longleftrightarrow> f"
    "n_2_websocket_frame_type op \<in> {TEXT_FRAME, BINARY_FRAME, CONTINUATION_FRAME}"
  using assms by (auto simp: n_2_websocket_frame_type_def)

lemma u64_halves:
  assumes "hi < 2 ^ 32" "lo < 2 ^ 32"
  shows "push_bit 32 (ucast (of_nat hi :: u32)) OR ucast (of_nat lo :: u32) = (of_nat (hi * 2 ^ 32 + lo) :: u64)"
proof -
  have u: "ucast (of_nat x :: u32) = (of_nat x :: u64)" if "x < 2 ^ 32" for x
    using that by (simp add: word_unat_eq_iff unsigned_ucast_eq unat_of_nat take_bit_nat_eq_self)
  have "push_bit 32 (ucast (of_nat hi :: u32)) OR ucast (of_nat lo :: u32) =
      (push_bit 32 (ucast (of_nat hi :: u32)) + ucast (of_nat lo :: u32) :: u64)"
    by (rule disjunctive_add [symmetric]) (auto simp: bit_simps dest: bit_imp_le_length)
  then show ?thesis using assms by (simp add: u push_bit_eq_mult)
qed

lemma rfc_length_cases:
  obtains "rfc_length n = (of_nat n, [])" "n < 126"
  | "rfc_length n = (126, be_bytes 2 n)" "n < 2 ^ 16"
  | "rfc_length n = (127, be_bytes 8 n)"
  by (cases "n \<le> 125"; cases "n < 2 ^ 16") (auto simp: rfc_length_def)

lemma length_8E:
  assumes "length xs = 8"
  obtains a b c d e f g h where "xs = [a, b, c, d, e, f, g, h]"
  using assms by (auto simp: length_Suc_conv numeral_eq_Suc)

text \<open>The three forms of the length, read back.\<close>

lemma ws_length_forms:
  fixes b0 b1 :: byte
  shows "ucast (b1 AND 0x7f) = (l :: u64) \<Longrightarrow> l \<noteq> 126 \<Longrightarrow> l \<noteq> 127 \<Longrightarrow> ws_length (b0 # b1 # rest) = Some (l, 2)"
    "ucast (b1 AND 0x7f) = (126 :: u64) \<Longrightarrow> ws_length (b0 # b1 # x # y # rest) = Some (of_nat (be_nat [x, y]), 4)"
    "ucast (b1 AND 0x7f) = (127 :: u64) \<Longrightarrow> ws_length (b0 # b1 # a # b # c # d # p # q # r # s # rest) =
       Some (of_nat (be_nat [a, b, c, d, p, q, r, s]), 10)"
proof -
  have "be_nat [a, b, c, d] < 2 ^ 32" "be_nat [p, q, r, s] < 2 ^ 32"
    using be_nat_bound [of "[a, b, c, d]"] be_nat_bound [of "[p, q, r, s]"] by simp_all
  note h = u64_halves [OF this]
  have "be_nat [a, b, c, d, p, q, r, s] = be_nat [a, b, c, d] * 2 ^ 32 + be_nat [p, q, r, s]"
    using be_nat_append [of "[a, b, c, d]" "[p, q, r, s]"] by simp
  then show "ucast (b1 AND 0x7f) = (127 :: u64) \<Longrightarrow> ws_length (b0 # b1 # a # b # c # d # p # q # r # s # rest) =
       Some (of_nat (be_nat [a, b, c, d, p, q, r, s]), 10)"
    using h by (simp add: ws_length_def Let_def del: of_nat_add of_nat_mult)
qed (simp_all add: ws_length_def Let_def)

lemma len7_read:
  assumes "k < 128"
  shows "ucast (((if m then 0x80 else 0) OR of_nat k :: byte) AND 0x7f) = (of_nat k :: u64)"
    "(of_nat k :: u64) = 126 \<longleftrightarrow> k = 126" "(of_nat k :: u64) = 127 \<longleftrightarrow> k = 127"
proof -
  have "unat (ucast (of_nat k :: byte) :: u64) = k"
    using assms(1) by (simp add: unsigned_ucast_eq unat_of_nat take_bit_nat_eq_self)
  then show "ucast (((if m then 0x80 else 0) OR of_nat k :: byte) AND 0x7f) = (of_nat k :: u64)"
    unfolding flag_bits(1) [OF assms(1)] using assms(1)
    by (intro word_unat_eq_iff [THEN iffD2]) (simp add: unat_of_nat)
  show "(of_nat k :: u64) = 126 \<longleftrightarrow> k = 126" "(of_nat k :: u64) = 127 \<longleftrightarrow> k = 127"
    using assms(1) by (simp_all add: word_unat_eq_iff unat_of_nat)
qed

lemma ws_length_rfc:
  assumes "n < 2 ^ 63"
  shows "ws_length (b0 # ((if m then 0x80 else 0) OR fst (rfc_length n)) # snd (rfc_length n) @ rest) =
    Some (of_nat n, 2 + length (snd (rfc_length n)))"
proof (cases n rule: rfc_length_cases)
  case 1
  then have n: "n < 128" by simp
  then show ?thesis
    using 1 ws_length_forms(1) [OF len7_read(1) [OF n, of m], of b0 rest] len7_read(2,3) [OF n] by simp
next
  case 2
  obtain x y where xy: "be_bytes 2 n = [x, y]"
    using length_be_bytes [of 2 n] by (cases "be_bytes 2 n"; cases "tl (be_bytes 2 n)") auto
  have "be_nat [x, y] = n" using be_nat_be_bytes [of 2 n] 2(2) by (simp add: xy)
  moreover have "ucast (((if m then 0x80 else 0) OR 126 :: byte) AND 0x7f) = (126 :: u64)" using len7_read(1) [of 126 m] by simp
  ultimately show ?thesis using 2(1) by (simp only: fst_conv snd_conv xy append.simps ws_length_forms(2)) simp
next
  case 3
  obtain a b c d p q r s where x: "be_bytes 8 n = [a, b, c, d, p, q, r, s]"
    by (rule length_8E [OF length_be_bytes])
  have "be_nat [a, b, c, d, p, q, r, s] = n" using be_nat_be_bytes [of 8 n] assms(1) by (simp add: x)
  moreover have "ucast (((if m then 0x80 else 0) OR 127 :: byte) AND 0x7f) = (127 :: u64)" using len7_read(1) [of 127 m] by simp
  ultimately show ?thesis using 3 by (simp only: fst_conv snd_conv x append.simps ws_length_forms(3)) simp
qed

section \<open>The payload\<close>

lemma length_ws_unmask [simp]: "length (ws_unmask key d) = length d"
  by (simp add: ws_unmask_def)

lemma ws_unmask_mask: "ws_unmask key (map (\<lambda>i. d ! i XOR key ! (i mod 4)) [0..<length d]) = d"
  by (rule nth_equalityI) (simp_all add: ws_unmask_def xor.assoc)

text \<open>The bound check of the payload, when the arithmetic on 64 bits does not wrap around.\<close>

lemma payload_check:
  assumes "0 < index" "index + unat plen < 2 ^ 64" "n < 2 ^ 64"
  shows "of_nat index + plen - 1 \<ge> (of_nat n :: u64) \<longleftrightarrow> n < index + unat plen"
proof -
  have u: "unat (of_nat index :: u64) = index" "unat (of_nat n :: u64) = n" using assms by (simp_all add: unat_of_nat)
  then have s: "unat (of_nat index + plen) = index + unat plen" using assms(2) by (simp add: unat_word_ariths)
  have "(1 :: u64) \<le> of_nat index + plen" using s assms(1) by (simp add: word_le_nat_alt)
  then have "unat (of_nat index + plen - 1) = index + unat plen - 1" using s by (simp add: unat_sub)
  then show ?thesis using u assms(1) by (simp add: word_le_nat_alt) linarith
qed

lemma ws_payload_ok:
  assumes "0 < index" "index + n \<le> length data" "length data < 2 ^ 63"
  shows "ws_payload data f op m (of_nat n) key index =
    Ws_frame \<lparr>fin = f, opcode = op, mask_flag = m, payload_length = of_nat n, masking_key = key,
              payload_data = (let raw = take n (drop index data) in if m then ws_unmask key raw else raw)\<rparr> (index + n)"
proof -
  have u: "unat (of_nat n :: u64) = n" using assms by (simp add: unat_of_nat)
  have "\<not> of_nat index + of_nat n - 1 \<ge> (of_nat (length data) :: u64)"
    using payload_check [of index "of_nat n" "length data"] assms u by simp
  moreover have "n \<le> string_max_size" using assms by (simp add: string_max_size_def)
  moreover have "(of_nat n :: u64) = 0 \<longleftrightarrow> n = 0" using u by (metis unat_0 unat_eq_zero)
  ultimately show ?thesis using u by (simp add: ws_payload_def Let_def)
qed

lemma ws_payload_bounds:
  assumes "ws_payload data f op m plen key index = Ws_frame fr n" "0 < index" "index \<le> 14" "length data < 2 ^ 63"
  shows "n = index + unat (payload_length fr)" "n \<le> length data" "length (payload_data fr) = unat (payload_length fr)"
proof -
  have c: "\<not> of_nat index + plen - 1 \<ge> (of_nat (length data) :: u64)" "plen = 0 \<or> unat plen \<le> string_max_size"
    and fr: "n = index + unat plen" "payload_length fr = plen"
      "payload_data fr = (let raw = (if plen \<noteq> 0 then take (unat plen) (drop index data) else []) in if m then ws_unmask key raw else raw)"
    using assms(1) by (auto simp: ws_payload_def Let_def split: if_splits)
  have "index + unat plen < 2 ^ 64" using c(2) assms(3) by (auto simp: string_max_size_def)
  then have b: "index + unat plen \<le> length data"
    using payload_check [OF assms(2), of plen "length data"] c(1) assms(4) by simp
  show "n = index + unat (payload_length fr)" "n \<le> length data" using b fr by simp_all
  show "length (payload_data fr) = unat (payload_length fr)" using b fr by (simp add: Let_def)
qed

lemma ws_length_index: "ws_length data = Some (plen, index) \<Longrightarrow> 2 \<le> index \<and> index \<le> 10"
  by (auto simp: ws_length_def Let_def split: if_splits)

section \<open>More bytes do not change a frame\<close>

lemma ws_length_append:
  assumes "ws_length data = Some r" "1 < length data"
  shows "ws_length (data @ x) = Some r"
  using assms by (auto simp: ws_length_def Let_def nth_append split: if_splits)

lemma ws_payload_append:
  assumes "ws_payload data f op m plen key index = r" "r \<noteq> Ws_need" "length (data @ x) < 2 ^ 63" "0 < index" "index \<le> 14"
  shows "ws_payload (data @ x) f op m plen key index = r"
proof -
  have c: "\<not> of_nat index + plen - 1 \<ge> (of_nat (length data) :: u64)"
    using assms(1,2) by (auto simp: ws_payload_def split: if_splits)
  have "(of_nat (length data) :: u64) \<le> of_nat (length (data @ x))"
    using assms(3) by (simp add: word_le_nat_alt unat_of_nat del: length_append) simp
  then have c': "\<not> of_nat index + plen - 1 \<ge> (of_nat (length (data @ x)) :: u64)" using c by (meson order_trans)
  have "take (unat plen) (drop index (data @ x)) = take (unat plen) (drop index data)" if "unat plen \<le> string_max_size"
  proof -
    have "index + unat plen < 2 ^ 64" using that assms(5) by (auto simp: string_max_size_def)
    then have "index + unat plen \<le> length data"
      using payload_check [OF assms(4), of plen "length data"] c assms(3) by simp
    then show ?thesis by simp
  qed
  then show ?thesis using assms(1) c c' unfolding ws_payload_def by (auto simp: Let_def)
qed

lemma ws_read_frame_append:
  assumes "ws_read_frame data \<noteq> Ws_need" "length (data @ x) < 2 ^ 63"
  shows "ws_read_frame (data @ x) = ws_read_frame data"
proof -
  have ne: "data \<noteq> []" using assms(1) by (auto simp: ws_read_frame_def)
  then have h: "(data @ x) ! 0 = data ! 0" by (simp add: nth_append)
  let ?t = "n_2_websocket_frame_type (data ! 0 AND 0x0f)"
  show ?thesis
  proof (cases "?t \<noteq> TEXT_FRAME \<and> ?t \<noteq> BINARY_FRAME \<and> ?t \<noteq> CONTINUATION_FRAME")
    case True
    then show ?thesis using ne by (simp add: ws_read_frame_def h Let_def)
  next
    case False
    have l: "1 < length data" using assms(1) ne False by (simp add: ws_read_frame_def Let_def split: if_splits)
    then obtain plen index where r: "ws_length data = Some (plen, index)"
      using assms(1) ne False by (auto simp: ws_read_frame_def Let_def split: option.splits if_splits)
    note i = ws_length_index [OF r]
    have h1: "(data @ x) ! 1 = data ! 1" using l by (simp add: nth_append)
    have k: "map (\<lambda>k. (data @ x) ! (index + k)) [0, 1, 2, 3] = map (\<lambda>k. data ! (index + k)) [0, 1, 2, 3]"
      if "index + 3 < length data" using that by (simp add: nth_append)
    let ?f = "data ! 0 AND 0x80 \<noteq> 0" and ?op = "data ! 0 AND 0x0f" and ?m = "data ! 1 AND 0x80 \<noteq> 0"
    show ?thesis
    proof (cases ?m)
      case True
      then have li: "index + 3 < length data"
        using assms(1) ne l r False by (auto simp: ws_read_frame_def Let_def split: if_splits)
      have e: "ws_read_frame data = ws_payload data ?f ?op ?m plen (map (\<lambda>k. data ! (index + k)) [0, 1, 2, 3]) (index + 4)"
        using True ne l r li False unfolding ws_read_frame_def Let_def by auto
      have "ws_read_frame (data @ x) = ws_payload (data @ x) ?f ?op ?m plen (map (\<lambda>k. data ! (index + k)) [0, 1, 2, 3]) (index + 4)"
        using True ne l ws_length_append [OF r l, of x] li False h h1 k [OF li] unfolding ws_read_frame_def Let_def by auto
      then show ?thesis using ws_payload_append [OF e [symmetric] assms] i by simp
    next
      case m: False
      have e: "ws_read_frame data = ws_payload data ?f ?op ?m plen [] index"
        using m ne l r False unfolding ws_read_frame_def Let_def by auto
      have "ws_read_frame (data @ x) = ws_payload (data @ x) ?f ?op ?m plen [] index"
        using m ne l ws_length_append [OF r l, of x] False h h1 unfolding ws_read_frame_def Let_def by auto
      then show ?thesis using ws_payload_append [OF e [symmetric] assms] i by simp
    qed
  qed
qed

section \<open>Properties\<close>

lemma rfc_frame_header:
  assumes "length data < 2 ^ 63"
  shows "ws_length (rfc_frame f op key data @ rest) = Some (of_nat (length data), 2 + length (snd (rfc_length (length data))))"
    "rfc_frame f op key data ! 0 = (if f then 0x80 else 0) OR op"
    "rfc_frame f op key data ! 1 AND 0x80 \<noteq> 0 \<longleftrightarrow> key \<noteq> None" "1 < length (rfc_frame f op key data)"
proof -
  let ?n = "length data"
  obtain len7 ext where l: "rfc_length ?n = (len7, ext)" by fastforce
  have "\<exists>body. rfc_frame f op key data =
      ((if f then 0x80 else 0) OR op) # ((if key \<noteq> None then 0x80 else 0) OR fst (rfc_length ?n)) # snd (rfc_length ?n) @ body"
    by (cases key) (auto simp: rfc_frame_def l)
  then obtain body where F: "rfc_frame f op key data =
      ((if f then 0x80 else 0) OR op) # ((if key \<noteq> None then 0x80 else 0) OR fst (rfc_length ?n)) # snd (rfc_length ?n) @ body" ..
  show "ws_length (rfc_frame f op key data @ rest) = Some (of_nat ?n, 2 + length (snd (rfc_length ?n)))"
    unfolding F append.simps append_assoc by (rule ws_length_rfc [OF assms])
  show "rfc_frame f op key data ! 0 = (if f then 0x80 else 0) OR op" "1 < length (rfc_frame f op key data)"
    by (simp_all add: rfc_frame_def l)
  have "\<exists>k < 128. len7 = of_nat k"
  proof (cases ?n rule: rfc_length_cases)
    case 1 then show ?thesis using l by (intro exI [of _ ?n]) simp
  next
    case 2 then show ?thesis using l by (intro exI [of _ 126]) simp
  next
    case 3 then show ?thesis using l by (intro exI [of _ 127]) simp
  qed
  then show "rfc_frame f op key data ! 1 AND 0x80 \<noteq> 0 \<longleftrightarrow> key \<noteq> None"
    using flag_bits(2) [of _ "key \<noteq> None"] by (auto simp: rfc_frame_def l split: if_splits)
qed

lemma ws_read_rfc:
  assumes "op \<in> {0, 1, 2}" "\<forall>k. key = Some k \<longrightarrow> length k = 4" "length (rfc_frame f op key data @ rest) < 2 ^ 63"
  shows "ws_read_frame (rfc_frame f op key data @ rest) =
    Ws_frame \<lparr>fin = f, opcode = op, mask_flag = (key \<noteq> None), payload_length = of_nat (length data),
              masking_key = (case key of None \<Rightarrow> [] | Some k \<Rightarrow> k), payload_data = data\<rparr>
      (length (rfc_frame f op key data))"
proof -
  let ?F = "rfc_frame f op key data" and ?n = "length data"
  obtain len7 ext where l: "rfc_length ?n = (len7, ext)" by fastforce
  have n: "?n < 2 ^ 63" using assms(3) by (auto simp: rfc_frame_def l split: option.splits)
  note h = rfc_frame_header [OF n, of f op key]
  have b0: "(?F @ rest) ! 0 AND 0x0f = op" "(?F @ rest) ! 0 AND 0x80 \<noteq> 0 \<longleftrightarrow> f"
    using h(2) less_trans [OF zero_less_one h(4)] opcode_bits(1,2) [OF assms(1), of f] by (simp_all only: nth_append if_True)
  have b1: "(?F @ rest) ! 1 AND 0x80 \<noteq> 0 \<longleftrightarrow> key \<noteq> None" using h(3,4) by (simp add: nth_append)
  have t: "n_2_websocket_frame_type op \<in> {TEXT_FRAME, BINARY_FRAME, CONTINUATION_FRAME}" by (rule opcode_bits(3) [OF assms(1)])
  have ln: "1 < length (?F @ rest)" using h(4) by simp
  let ?i = "2 + length ext"
  have wl: "ws_length (?F @ rest) = Some (of_nat ?n, ?i)" using h(1) l by simp
  show ?thesis
  proof (cases key)
    case None
    have "ws_read_frame (?F @ rest) = ws_payload (?F @ rest) f op False (of_nat ?n) [] ?i"
      using ln b0 b1 t wl None unfolding ws_read_frame_def Let_def by auto
    moreover have "length ?F = ?i + ?n" "drop ?i (?F @ rest) = data @ rest" by (simp_all add: rfc_frame_def l None)
    ultimately show ?thesis
      using ws_payload_ok [of ?i ?n "?F @ rest" f op False "[]"] assms(3) None by simp
  next
    case (Some k)
    let ?d = "map (\<lambda>i. data ! i XOR k ! (i mod 4)) [0..<?n]"
    have k: "length k = 4" using assms(2) Some by simp
    have F: "length ?F = ?i + 4 + ?n" "drop ?i (?F @ rest) = k @ ?d @ rest" by (simp_all add: rfc_frame_def l Some k)
    obtain a b c d where k4: "k = [a, b, c, d]" using k by (rule length_4E)
    have mk: "map (\<lambda>j. (?F @ rest) ! (?i + j)) [0, 1, 2, 3] = k"
    proof -
      have "(?F @ rest) ! (?i + j) = (k @ ?d @ rest) ! j" for j
        using F(2) nth_drop [of ?i "?F @ rest" j] F(1) by simp
      then show ?thesis by (simp add: k4)
    qed
    have "ws_read_frame (?F @ rest) = ws_payload (?F @ rest) f op True (of_nat ?n) k (?i + 4)"
      using ln b0 b1 t wl Some mk F(1) unfolding ws_read_frame_def Let_def by auto
    moreover have "drop (?i + 4) (?F @ rest) = drop 4 (k @ ?d @ rest)"
      unfolding F(2) [symmetric] drop_drop by (simp add: add.commute)
    then have "take ?n (drop (?i + 4) (?F @ rest)) = ?d" by (simp only: k drop_append) (simp add: k)
    ultimately show ?thesis
      using ws_payload_ok [of "?i + 4" ?n "?F @ rest" f op True k] assms(3) Some F(1) ws_unmask_mask [of k data] by simp
  qed
qed

lemma header_byte:
  assumes "n < 2 ^ 64" "i < 8"
  shows "ucast (drop_bit (8 * i) (of_nat n :: u64) AND 0xFF) = (of_nat (n div 256 ^ i mod 256) :: byte)"
proof -
  have u: "unat (of_nat n :: u64) = n" using assms(1) by (simp add: unat_of_nat)
  have "(drop_bit (8 * i) (of_nat n :: u64) AND 0xFF) = take_bit 8 (drop_bit (8 * i) (of_nat n))"
    by (simp add: take_bit_eq_mask mask_eq_exp_minus_1)
  moreover have "unat (take_bit 8 (drop_bit (8 * i) (of_nat n :: u64))) = n div 256 ^ i mod 256"
  proof -
    have t: "take_bit 64 n = n" using assms(1) by (rule take_bit_nat_eq_self)
    have "(2 :: nat) ^ (8 * i) = 256 ^ i" by (simp add: power_mult)
    then show ?thesis
      by (simp only: unsigned_take_bit_eq unsigned_drop_bit_eq u) (simp add: take_bit_eq_mod drop_bit_eq_div t [unfolded take_bit_eq_mod, simplified])
  qed
  ultimately have "unat (ucast (drop_bit (8 * i) (of_nat n :: u64) AND 0xFF) :: byte) = n div 256 ^ i mod 256"
    by (simp add: unsigned_ucast_eq take_bit_eq_mod)
  then show ?thesis by (simp add: word_unat_eq_iff)
qed

lemma ws_frame_bytes_rfc:
  assumes "length data < 2 ^ 64"
  shows "ws_frame_bytes (0x80 OR op) data = rfc_frame True op None data"
proof -
  have "[ucast (drop_bit 8 (of_nat (length data) :: u64) AND 0xFF), ucast ((of_nat (length data) :: u64) AND 0xFF)] = be_bytes 2 (length data)"
    using header_byte [OF assms, of 1] header_byte [OF assms, of 0] by (simp add: be_bytes_def nat_le_map numeral_2_eq_2)
  moreover have "map (\<lambda>i. ucast (drop_bit (8 * i) (of_nat (length data) :: u64) AND 0xFF)) [7, 6, 5, 4, 3, 2, 1, 0] = be_bytes 8 (length data)"
  proof -
    have "map (\<lambda>i. ucast (drop_bit (8 * i) (of_nat (length data) :: u64) AND 0xFF)) (rev [0..<8]) =
        map (\<lambda>i. of_nat (length data div 256 ^ i mod 256) :: byte) (rev [0..<8])"
      by (rule map_cong [OF refl]) (rule header_byte [OF assms], simp)
    moreover have "rev [0..<8] = [7, 6, 5, 4, 3, 2, 1, 0 :: nat]" by (simp add: upt_rec)
    ultimately show ?thesis by (simp only: be_bytes_def nat_le_map rev_map)
  qed
  ultimately show ?thesis
    by (simp only: ws_frame_bytes_def ws_frame_header_def rfc_frame_def rfc_length_def) simp
qed

text \<open>
  C21. The application reads exactly the frames of RFC 6455: a text, binary or continuation
  frame at the front of the buffer, masked or not, with its length in any of the three forms,
  is read with its final bit and with the data it was made from, and takes exactly its own
  bytes, whatever follows.
\<close>

theorem ws_reads_rfc_frames:
  assumes "op \<in> {0, 1, 2}" "\<forall>k. key = Some k \<longrightarrow> length k = 4" "length (rfc_frame f op key data @ rest) < 2 ^ 63"
  shows "ws_read_frame (rfc_frame f op key data @ rest) =
    Ws_frame \<lparr>fin = f, opcode = op, mask_flag = (key \<noteq> None), payload_length = of_nat (length data),
              masking_key = (case key of None \<Rightarrow> [] | Some k \<Rightarrow> k), payload_data = data\<rparr>
      (length (rfc_frame f op key data))"
  using assms by (rule ws_read_rfc)

theorem ws_reads_rfc_frames_witness:
  "rfc_frame True 2 (Some [1, 2, 3, 4]) [9, 9, 9, 9, 9] = [0x82, 0x85, 1, 2, 3, 4, 8, 11, 10, 13, 8] \<and>
   ws_read_frame [0x82, 0x85, 1, 2, 3, 4, 8, 11, 10, 13, 8, 0x81] =
     Ws_frame \<lparr>fin = True, opcode = 2, mask_flag = True, payload_length = 5, masking_key = [1, 2, 3, 4],
               payload_data = [9, 9, 9, 9, 9]\<rparr> 11"
proof -
  have f: "rfc_frame True 2 (Some [1, 2, 3, 4]) [9, 9, 9, 9, 9] = [0x82, 0x85, 1, 2, 3, 4, 8, 11, 10, 13, 8]"
    by code_simp
  with ws_reads_rfc_frames [of 2 "Some [1, 2, 3, 4]" True "[9, 9, 9, 9, 9]" "[0x81]"] show ?thesis by simp
qed

text \<open>
  C22. What the application sends is a frame of RFC 6455, final and not masked, and reading it
  gives the data back.
\<close>

theorem ws_frame_round_trip:
  assumes "t \<in> {TEXT_FRAME, BINARY_FRAME}" "length data + length rest + 14 < 2 ^ 63"
  shows "ws_frame_bytes (0x80 OR websocket_frame_type_2_n t 0) data = rfc_frame True (websocket_frame_type_2_n t 0) None data \<and>
    ws_read_frame (ws_frame_bytes (0x80 OR websocket_frame_type_2_n t 0) data @ rest) =
      Ws_frame \<lparr>fin = True, opcode = websocket_frame_type_2_n t 0, mask_flag = False, payload_length = of_nat (length data),
                masking_key = [], payload_data = data\<rparr> (length (ws_frame_bytes (0x80 OR websocket_frame_type_2_n t 0) data))"
proof -
  let ?op = "websocket_frame_type_2_n t 0"
  have op: "?op \<in> {0, 1, 2}" using assms(1) by (auto simp: websocket_frame_type_2_n_def)
  have e: "ws_frame_bytes (0x80 OR ?op) data = rfc_frame True ?op None data"
    using assms(2) by (intro ws_frame_bytes_rfc) simp
  have "length (snd (rfc_length (length data))) \<le> 8" by (simp add: rfc_length_def)
  then have "length (rfc_frame True ?op None data @ rest) < 2 ^ 63"
    using assms(2) by (cases "rfc_length (length data)") (simp add: rfc_frame_def)
  from ws_read_rfc [OF op _ this] show ?thesis by (simp add: e)
qed

theorem ws_frame_round_trip_witness:
  "TEXT_FRAME \<in> {TEXT_FRAME, BINARY_FRAME} \<and>
   ws_read_frame (ws_frame_bytes (0x80 OR websocket_frame_type_2_n TEXT_FRAME 0) (replicate 300 7)) =
     Ws_frame \<lparr>fin = True, opcode = 1, mask_flag = False, payload_length = 300, masking_key = [],
               payload_data = replicate 300 7\<rparr> (length (ws_frame_bytes 0x81 (replicate 300 7)))"
proof -
  have "websocket_frame_type_2_n TEXT_FRAME 0 = 1" "0x80 OR 1 = (0x81 :: byte)" by (simp_all add: websocket_frame_type_2_n_def)
  with ws_frame_round_trip [of TEXT_FRAME "replicate 300 7" "[]"] show ?thesis by auto
qed

text \<open>
  C23. Reading never leaves the buffer. For every content of the buffer, a frame that is read
  lies within it and its payload has the announced length; a length that makes the bound check
  wrap around 64 bits is stopped by the exception of the string constructor and not copied.
\<close>

theorem ws_read_frame_in_bounds:
  assumes "ws_read_frame data = Ws_frame fr n" "length data < 2 ^ 63"
  shows "2 \<le> n \<and> n \<le> length data \<and> length (payload_data fr) = unat (payload_length fr) \<and> unat (payload_length fr) < n"
proof -
  obtain m key index where r: "ws_payload data (data ! 0 AND 0x80 \<noteq> 0) (data ! 0 AND 0x0f) m (payload_length fr) key index = Ws_frame fr n"
      "2 \<le> index" "index \<le> 14"
  proof -
    obtain plen index where l: "ws_length data = Some (plen, index)"
      using assms(1) by (auto simp: ws_read_frame_def Let_def split: option.splits if_splits)
    obtain m key i where p: "ws_payload data (data ! 0 AND 0x80 \<noteq> 0) (data ! 0 AND 0x0f) m plen key i = Ws_frame fr n"
        "index \<le> i" "i \<le> index + 4"
      using assms(1) l by (auto simp: ws_read_frame_def Let_def split: if_splits)
    have "payload_length fr = plen" using p(1) by (auto simp: ws_payload_def Let_def split: if_splits)
    then show thesis using that [of m key i] p ws_length_index [OF l] by simp
  qed
  have "0 < index" using r(2) by simp
  from ws_payload_bounds [OF r(1) this r(3) assms(2)] show ?thesis using r(2) by simp
qed

theorem ws_read_frame_in_bounds_witness:
  "\<exists>fr. ws_read_frame [0x81, 1, 65, 0] = Ws_frame fr 3 \<and> length (payload_data fr) = unat (payload_length fr)"
proof -
  have f: "rfc_frame True 1 None [65] = [0x81, 1, 65]" by code_simp
  obtain fr where r: "ws_read_frame [0x81, 1, 65, 0] = Ws_frame fr 3"
    using ws_read_rfc [of 1 None True "[65]" "[0]"] by (simp add: f)
  from ws_read_frame_in_bounds [OF r] show ?thesis using r by simp
qed

text \<open>
  C24. A frame that has not arrived completely is left alone: on every proper prefix of a frame
  the application waits for more bytes.
\<close>

theorem ws_waits_for_whole_frame:
  assumes "op \<in> {0, 1, 2}" "\<forall>k. key = Some k \<longrightarrow> length k = 4" "length (rfc_frame f op key data) < 2 ^ 63"
    "k < length (rfc_frame f op key data)"
  shows "ws_read_frame (take k (rfc_frame f op key data)) = Ws_need"
proof (rule ccontr)
  let ?F = "rfc_frame f op key data"
  assume n: "ws_read_frame (take k ?F) \<noteq> Ws_need"
  have "ws_read_frame (take k ?F @ drop k ?F) = ws_read_frame (take k ?F)"
    using n assms(3) by (intro ws_read_frame_append) simp_all
  then obtain fr where r: "ws_read_frame (take k ?F) = Ws_frame fr (length ?F)"
    using ws_read_rfc [OF assms(1,2), of f data "[]"] assms(3) by simp
  obtain plen index where l: "ws_length (take k ?F) = Some (plen, index)"
    using r by (auto simp: ws_read_frame_def Let_def split: option.splits if_splits)
  obtain m key' i where p: "ws_payload (take k ?F) (take k ?F ! 0 AND 0x80 \<noteq> 0) (take k ?F ! 0 AND 0x0f) m plen key' i = Ws_frame fr (length ?F)"
      "index \<le> i" "i \<le> index + 4"
    using r l by (auto simp: ws_read_frame_def Let_def split: if_splits)
  have "length ?F \<le> length (take k ?F)"
    by (rule ws_payload_bounds(2) [OF p(1)]) (use p(2,3) ws_length_index [OF l] assms(3) in auto)
  then show False using assms(4) by simp
qed

theorem ws_waits_for_whole_frame_witness:
  "ws_read_frame (take 6 (rfc_frame False 1 (Some [1, 2, 3, 4]) [9, 9, 9])) = Ws_need"
  using ws_waits_for_whole_frame [of 1 "Some [1, 2, 3, 4]" False "[9, 9, 9]" 6]
  by (simp add: rfc_frame_def rfc_length_def)

end
