(* ===== verification/Websocket_Ctx.thy ===== *)
theory Websocket_Ctx
  imports Client_Frame Ws_Frame Sha1 Base64
begin

text \<open>
  The websocket task: the connection context (src/connection/websocket\_ctx.cpp) with its opening
  handshake, and its application (src/app/websocket\_app.cpp), which assembles messages from
  frames and hands each to the script thread. The HTTP parser llhttp is a parameter: for the
  bytes fed to it before and the bytes fed now it gives the callbacks it makes, its result and
  whether it saw a request to upgrade. A callback that returns an error stops it. A
  \<^verbatim>\<open>std::string\<close> is a list of bytes; \<^verbatim>\<open>std::map\<close> is an association list in key order.
\<close>

section \<open>The HTTP parser\<close>

datatype llhttp_event =
    On_message_begin | On_protocol bytes | On_protocol_complete | On_url bytes | On_url_complete
  | On_method bytes | On_method_complete | On_version bytes | On_version_complete
  | On_header_field bytes | On_header_field_complete | On_header_value bytes | On_header_value_complete
  | On_headers_complete | On_chunk_header | On_chunk_complete | On_chunk_extension_name bytes
  | On_chunk_extension_name_complete | On_chunk_extension_value bytes | On_chunk_extension_value_complete
  | On_body bytes | On_message_complete

datatype llhttp_errno = HPE_OK | HPE_PAUSED_UPGRADE | HPE_USER | HPE_OTHER

type_synonym llhttp = "bytes \<Rightarrow> bytes \<Rightarrow> llhttp_event list \<times> llhttp_errno \<times> bool"

section \<open>The context\<close>

record websocket_ctx = client_ctx +
  url :: bytes
  http_method :: bytes
  http_protocol :: bytes
  version :: bytes
  sec_websocket_key :: bytes
  sec_websocket_version :: bytes
  headers :: "(bytes \<times> bytes list) list"
  head_field_tmp :: bytes
  head_value_tmp :: bytes
  http_processed :: bool
  is_upgrade :: bool
  is_connected :: bool
  frame_first_opcode :: byte
  frame_payload_data :: bytes
  http_parser_obj :: bytes

type_synonym ws_worker = "websocket_ctx worker"

text \<open>\<^verbatim>\<open>headers[key].push_back(value)\<close>; strings are ordered by their bytes.\<close>

fun bytes_less :: "bytes \<Rightarrow> bytes \<Rightarrow> bool" where
  "bytes_less _ [] = False"
| "bytes_less [] (_ # _) = True"
| "bytes_less (a # as) (b # bs) = (a < b \<or> a = b \<and> bytes_less as bs)"

fun headers_push :: "bytes \<Rightarrow> bytes \<Rightarrow> (bytes \<times> bytes list) list \<Rightarrow> (bytes \<times> bytes list) list" where
  "headers_push key v [] = [(key, [v])]"
| "headers_push key v ((k, vs) # hs) =
     (if k = key then (k, vs @ [v]) # hs
      else if bytes_less key k then (key, [v]) # (k, vs) # hs
      else (k, vs) # headers_push key v hs)"

definition add_header :: "bytes \<Rightarrow> bytes \<Rightarrow> websocket_ctx \<Rightarrow> websocket_ctx" where
  "add_header key v x = x\<lparr>headers := headers_push key v (headers x)\<rparr>"

text \<open>The callbacks of the parser: whether they return 0, and the context after them.\<close>

fun ws_callback :: "llhttp_event \<Rightarrow> websocket_ctx \<Rightarrow> bool \<times> websocket_ctx" where
  "ws_callback (On_protocol at) x = (let p = http_protocol x @ at in (length p \<le> 10, x\<lparr>http_protocol := p\<rparr>))"
| "ws_callback (On_url at) x = (let u = url x @ at in (length u \<le> 10240, x\<lparr>url := u\<rparr>))"
| "ws_callback (On_method at) x = (let m = http_method x @ at in (length m \<le> 10, x\<lparr>http_method := m\<rparr>))"
| "ws_callback (On_version at) x = (let v = version x @ at in (length v \<le> 10, x\<lparr>version := v\<rparr>))"
| "ws_callback (On_header_field at) x =
     (let f = head_field_tmp x @ at in (length f \<le> 1024, x\<lparr>head_field_tmp := f\<rparr>))"
| "ws_callback On_header_field_complete x = (True, x\<lparr>head_value_tmp := []\<rparr>)"
| "ws_callback (On_header_value at) x =
     (let v = head_value_tmp x @ at in (length v \<le> 20480, x\<lparr>head_value_tmp := v\<rparr>))"
| "ws_callback On_header_value_complete x =
     (True, (add_header (head_field_tmp x) (head_value_tmp x) x)\<lparr>head_field_tmp := [], head_value_tmp := []\<rparr>)"
| "ws_callback On_chunk_header x = (False, x)"
| "ws_callback On_chunk_complete x = (False, x)"
| "ws_callback (On_chunk_extension_name at) x = (False, x)"
| "ws_callback On_chunk_extension_name_complete x = (False, x)"
| "ws_callback (On_chunk_extension_value at) x = (False, x)"
| "ws_callback On_chunk_extension_value_complete x = (False, x)"
| "ws_callback (On_body at) x = (length at = 0, x)"
| "ws_callback On_message_complete x = (True, x\<lparr>http_processed := True\<rparr>)"
| "ws_callback _ x = (True, x)"

fun ws_callbacks :: "llhttp_event list \<Rightarrow> websocket_ctx \<Rightarrow> bool \<times> websocket_ctx" where
  "ws_callbacks [] x = (True, x)"
| "ws_callbacks (e # es) x = (case ws_callback e x of (ok, x') \<Rightarrow> if ok then ws_callbacks es x' else (False, x'))"

definition llhttp_execute :: "llhttp \<Rightarrow> bytes \<Rightarrow> websocket_ctx \<Rightarrow> llhttp_errno \<times> bool \<times> websocket_ctx" where
  "llhttp_execute L data x =
     (let (es, err, upgrade) = L (http_parser_obj x) data;
          (ok, x') = ws_callbacks es x
      in (if ok then err else HPE_USER, upgrade, x'\<lparr>http_parser_obj := http_parser_obj x' @ data\<rparr>))"

definition ws_reset :: "websocket_ctx \<Rightarrow> websocket_ctx" where
  "ws_reset x =
     x\<lparr>url := [], http_method := [], http_protocol := [], version := [], sec_websocket_key := [],
       sec_websocket_version := [], headers := [], head_field_tmp := [], head_value_tmp := [],
       http_processed := False, is_upgrade := False, is_connected := False, frame_first_opcode := 0,
       frame_payload_data := [], http_parser_obj := []\<rparr>"

definition upd_ctx :: "nat \<Rightarrow> (websocket_ctx \<Rightarrow> websocket_ctx) \<Rightarrow> ws_worker \<Rightarrow> ws_worker" where
  "upd_ctx i f w = upd_wconn i (ctx_ptr_update (map_option f)) w"

abbreviation ws_ctx :: "nat \<Rightarrow> ws_worker \<Rightarrow> websocket_ctx" where
  "ws_ctx i w \<equiv> the (ctx_ptr (w_conn i w))"

definition ws_on_create :: "nat \<Rightarrow> ws_worker \<Rightarrow> ws_worker" where
  "ws_on_create i w =
     (let w1 = ctx_mark_notified i False w;
          w2 = upd_ctx i (\<lambda>x. x\<lparr>sc_conn_ptr := Some i, sc_worker_ptr := True\<rparr>) w1
      in upd_ctx i ws_reset w2)"

section \<open>The application\<close>

definition ws_on_process_frame :: "params \<Rightarrow> nat \<Rightarrow> ws_worker \<Rightarrow> ws_worker" where
  "ws_on_process_frame E i w =
     (case parse_package E (frame_payload_data (ws_ctx i w)) of
        None \<Rightarrow>
          ctx_event_mod i RWE (set_conn_is_close i True (upd_ctx i (frame_payload_data_update (\<lambda>_. [])) w))
      | Some protoPackage \<Rightarrow>
          app_forward_package E i protoPackage (upd_ctx i (frame_payload_data_update (\<lambda>_. [])) w))"

text \<open>
  The loop over the frames in the receive buffer. The first argument is fuel: an iteration that
  goes on takes at least two bytes off the buffer. \<open>left\<close> is the number of messages that may
  still be handled in this call. The flag of the result tells that an exception was thrown.
\<close>

definition ws_note_opcode :: "nat \<Rightarrow> ws_worker \<Rightarrow> ws_worker" where
  "ws_note_opcode i w =
     (let data = get_read_ptr (recv_buffer (w_conn i w)); op = data ! 0 AND 0x0f
      in if data \<noteq> [] \<and> n_2_websocket_frame_type op \<in> {TEXT_FRAME, BINARY_FRAME}
         then upd_ctx i (frame_first_opcode_update (\<lambda>_. op)) w else w)"

fun ws_process_loop :: "nat \<Rightarrow> nat \<Rightarrow> params \<Rightarrow> nat \<Rightarrow> ws_worker \<Rightarrow> bool \<times> ws_worker" where
  "ws_process_loop 0 left E i w = (False, w)"
| "ws_process_loop (Suc fuel) left E i w =
     (let w0 = ws_note_opcode i w
      in case ws_read_frame (get_read_ptr (recv_buffer (w_conn i w))) of
           Ws_need \<Rightarrow> (False, w0)
         | Ws_refused \<Rightarrow> (False, ctx_event_mod i RWE (set_conn_is_close i True w0))
         | Ws_throws \<Rightarrow> (True, w0)
         | Ws_frame fr index \<Rightarrow>
             (let w1 = upd_ctx i (\<lambda>x. x\<lparr>frame_payload_data := frame_payload_data x @ payload_data fr\<rparr>) w0;
                  w2 = recv_buffer_move_read_ptr_n i index w1
              in if fin fr
                 then (let w3 = ws_on_process_frame E i w2
                       in if left \<le> 1 then (False, w3) else ws_process_loop fuel (left - 1) E i w3)
                 else ws_process_loop fuel left E i w2))"

definition ws_INT32_MAX :: nat where "ws_INT32_MAX = 2147483647"

definition ws_on_process_connection :: "params \<Rightarrow> nat \<Rightarrow> ws_worker \<Rightarrow> bool \<times> ws_worker" where
  "ws_on_process_connection E i w =
     (case ws_process_loop (Suc (vsb_size (recv_buffer (w_conn i w)))) ws_INT32_MAX E i w of
        (True, w1) \<Rightarrow> (True, w1)
      | (False, w1) \<Rightarrow>
          (False,
           if vsb_size (recv_buffer (w_conn i w1)) > 1024000
           then ctx_event_mod i RWE (set_conn_is_close i True w1)
           else if length (frame_payload_data (ws_ctx i w1)) > 1024000
           then ctx_event_mod i RWE (set_conn_is_close i True w1)
           else w1))"

definition ws_send_sync_package :: "nat \<Rightarrow> byte \<Rightarrow> bytes \<Rightarrow> ws_worker \<Rightarrow> int \<times> ws_worker" where
  "ws_send_sync_package i first_byte data w =
     (if vsb_size (send_buffer (w_conn i w)) > 1024000
      then (- 1, ctx_event_mod i RWE (set_conn_is_close i True w))
      else ctx_send_data i (ws_frame_bytes first_byte data) True w)"

definition ws_on_client_forward_message :: "params \<Rightarrow> nat \<Rightarrow> client_forward_message \<Rightarrow> ws_worker \<Rightarrow> ws_worker" where
  "ws_on_client_forward_message E i message w =
     (if cmd (cf_inner message) = PROTO_CMD_TUNNEL_WEBSOCKET_BROADCAST
      then (case proto_parse (parse_ws_broadcast E) (cf_inner message) of
              None \<Rightarrow> w
            | Some data \<Rightarrow> snd (ws_send_sync_package i (0x80 OR websocket_frame_type_2_n TEXT_FRAME 0) data w))
      else snd (ws_send_sync_package i (0x80 OR websocket_frame_type_2_n BINARY_FRAME 0)
                  (case ser_package E (cf_inner message) of None \<Rightarrow> [] | Some d \<Rightarrow> d) w))"

section \<open>The opening handshake\<close>

definition ws_GUID :: bytes where
  "ws_GUID = bytes_of ''258EAFA5-E914-47DA-95CA-C5AB0DC85B11''"

text \<open>The accept key; \<open>None\<close> if a library call throws or does not end.\<close>

definition ws_accept_key :: "bytes \<Rightarrow> bytes option" where
  "ws_accept_key key =
     (let sha1_str = fst (sha1_final (sha1_update (key @ ws_GUID) sha1_reset))
      in case to_binary sha1_str of Inl _ \<Rightarrow> None | Inr b \<Rightarrow> base64_encode b False)"

definition CRLF :: string where "CRLF = [CHR 0x0D, CHR 0x0A]"

definition ws_response :: "bytes \<Rightarrow> bytes" where
  "ws_response base64_encoded =
     bytes_of (''HTTP/1.1 101 Switching Protocols'' @ CRLF) @
     bytes_of (''Upgrade: websocket'' @ CRLF) @
     bytes_of (''Connection: Upgrade'' @ CRLF) @
     bytes_of ''Sec-WebSocket-Accept: '' @ base64_encoded @ bytes_of (CRLF @ CRLF)"

definition to_lower :: "byte \<Rightarrow> byte" where
  "to_lower c = (if byte_of CHR ''A'' \<le> c \<and> c \<le> byte_of CHR ''Z'' then c + 32 else c)"

fun ws_scan_headers :: "(bytes \<times> bytes list) list \<Rightarrow> websocket_ctx \<Rightarrow> websocket_ctx" where
  "ws_scan_headers [] x = x"
| "ws_scan_headers ((field, values) # hs) x =
     ws_scan_headers hs
       (if values = [] then x
        else if map to_lower field = bytes_of ''sec-websocket-key'' then x\<lparr>sec_websocket_key := hd values\<rparr>
        else if map to_lower field = bytes_of ''sec-websocket-version'' then x\<lparr>sec_websocket_version := hd values\<rparr>
        else x)"

text \<open>
  The handshake proper, behind a completely parsed request for an upgrade; the flag tells that
  the event handler goes on. The application's callback throws nothing.
\<close>

definition ws_handshake :: "params \<Rightarrow> nat \<Rightarrow> ws_worker \<Rightarrow> bool \<times> ws_worker" where
  "ws_handshake E i w =
     (let w1 = upd_ctx i (\<lambda>x. ws_scan_headers (headers x) x) w; x = ws_ctx i w1
      in if sec_websocket_key x = [] \<or> sec_websocket_version x \<noteq> bytes_of ''13''
         then (False, ctx_event_mod i RWE (set_conn_is_close i True w1))
         else
           (case ws_accept_key (sec_websocket_key x) of
              None \<Rightarrow> (False, w1)
            | Some base64_encoded \<Rightarrow>
                (let w2 = upd_wconn i (\<lambda>c. c\<lparr>send_buffer := vsb_append (ws_response base64_encoded) (send_buffer c)\<rparr>) w1;
                     w3 = upd_ctx i (is_connected_update (\<lambda>_. True)) w2;
                     w4 = upd_wconn i (is_ready_update (\<lambda>_. True)) w3;
                     w5 = ctx_try_send_flush i w4;
                     w6 = ctx_mark_notified i True w5;
                     w7 = mark_delete_timeout_timer (gid (w_conn i w6)) w6
                 in (True, app_on_new_connection E i w7))))"

text \<open>
  Reading the request: every piece that arrives is fed to the parser. The result is the context,
  the socket and whether the connection must be closed. \<open>n\<close> is \<^verbatim>\<open>buffer_len\<close>.
\<close>

fun ws_http_loop :: "nat \<Rightarrow> llhttp \<Rightarrow> nat \<Rightarrow> int \<Rightarrow> websocket_ctx \<Rightarrow> socket \<Rightarrow> bool \<times> websocket_ctx \<times> socket" where
  "ws_http_loop 0 L n oper_errno x s = (False, x, s)"
| "ws_http_loop (Suc fuel) L n oper_errno x s =
     (if n < 10240
      then
        (let (len, bs, e, s') = socket_recv (10240 - n) oper_errno s
         in if len = - 1 \<and> (e = COMM_ERRNO_EAGAIN \<or> e = COMM_ERRNO_EWOULDBLOCK) then (False, x, s')
            else if len = - 1 \<and> e = COMM_ERRNO_EINTR then ws_http_loop fuel L n e x s'
            else if len > 0 then
              (let (err, upgrade, x') = llhttp_execute L bs x
               in if err \<noteq> HPE_OK \<and> err \<noteq> HPE_PAUSED_UPGRADE then (True, x', s')
                  else ws_http_loop fuel L (n + length bs) e (if upgrade then x'\<lparr>is_upgrade := True\<rparr> else x') s')
            else (True, x, s'))
      else (False, x, s))"

section \<open>Events of a connection\<close>

text \<open>A connection whose handshake is done: read, parse, write.\<close>

definition ws_io :: "params \<Rightarrow> nat \<Rightarrow> u32 \<Rightarrow> ws_worker \<Rightarrow> ws_worker" where
  "ws_io E i event w =
     (let s = socket_obj (w_conn i w);
          (buffer, fatal, s') = (if event AND READ \<noteq> 0
                                 then ctx_read_loop (Suc (rx_weight (k_rx s))) [] 0 s else ([], False, s));
          w1 = upd_wconn i (socket_obj_update (\<lambda>_. s')) w
      in if fatal then ctx_event_mod i RWE (set_conn_is_close i True w1)
         else
           (let w2 = (if length buffer > 0
                      then upd_wconn i (\<lambda>c. c\<lparr>recv_buffer := vsb_append buffer (recv_buffer c)\<rparr>) w1 else w1);
                (err, w3) = (if vsb_size (recv_buffer (w_conn i w2)) > 0 then ws_on_process_connection E i w2 else (False, w2))
            in if err then ctx_event_mod i RWE (set_conn_is_close i True w3)
               else if event AND WRITE \<noteq> 0 then ctx_try_send_flush i w3 else w3))"

text \<open>The part of the handler that runs until the connection is a websocket.\<close>

definition ws_connect :: "params \<Rightarrow> llhttp \<Rightarrow> nat \<Rightarrow> u32 \<Rightarrow> ws_worker \<Rightarrow> bool \<times> ws_worker" where
  "ws_connect E L i event w =
     (if http_processed (ws_ctx i w) then (False, ctx_event_mod i RWE (set_conn_is_close i True w))
      else
        (let s = socket_obj (w_conn i w);
             (fatal, x, s') = (if event AND READ \<noteq> 0
                               then ws_http_loop (Suc (rx_weight (k_rx s))) L 0 0 (ws_ctx i w) s
                               else (False, ws_ctx i w, s));
             w1 = upd_ctx i (\<lambda>_. x) (upd_wconn i (socket_obj_update (\<lambda>_. s')) w)
         in if fatal then (False, ctx_event_mod i RWE (set_conn_is_close i True w1))
            else if \<not> is_close (w_conn i w1) \<and> \<not> http_processed x then (False, ctx_event_mod i RE w1)
            else if http_processed x \<and> \<not> is_upgrade x
            then (False, ctx_event_mod i RWE (set_conn_is_close i True w1))
            else if \<not> is_connected x \<and> is_upgrade x \<and> http_processed x then ws_handshake E i w1
            else (True, w1)))"

definition ws_ready_event :: "params \<Rightarrow> llhttp \<Rightarrow> nat \<Rightarrow> u32 \<Rightarrow> ws_worker \<Rightarrow> ws_worker" where
  "ws_ready_event E L i event w =
     (let (go_on, w1) = (if \<not> is_connected (ws_ctx i w) then ws_connect E L i event w else (True, w))
      in if \<not> go_on then w1
         else if \<not> is_connected (ws_ctx i w1) then ctx_event_mod i RWE w1
         else ws_io E i event w1)"

definition ws_on_event :: "params \<Rightarrow> llhttp \<Rightarrow> nat \<Rightarrow> u32 \<Rightarrow> ws_worker \<Rightarrow> ws_worker" where
  "ws_on_event E L i event w =
     (if \<not> ctx_attached i w then w
      else
        (let w1 = (if event AND ERR \<noteq> 0 then set_conn_is_close i True w else w)
         in if is_close (w_conn i w1)
            then ctx_close E i w1
            else if p_use_ssl E \<and> \<not> m_ssl_accepted (socket_obj (w_conn i w1))
            then
              (let (h, s') = ssl_accept (socket_obj (w_conn i w1));
                   w2 = upd_wconn i (socket_obj_update (\<lambda>_. s')) w1
               in case h of
                    Hs_done \<Rightarrow> ws_ready_event E L i event (upd_wconn i (socket_obj_update (set_ssl_accepted True)) w2)
                  | Hs_zero \<Rightarrow> ctx_event_mod i RWE w2
                  | Hs_want_read \<Rightarrow> ctx_event_mod i RE w2
                  | Hs_want_write \<Rightarrow> ctx_event_mod i RWE w2
                  | Hs_fail \<Rightarrow> ctx_event_mod i RWE (set_conn_is_close i True w2))
            else ws_ready_event E L i event w1))"

section \<open>Every event keeps the worker consistent\<close>

lemma ctx_live_upd_ctx:
  assumes "ctx_live i w" "\<And>x. sc_conn_ptr x \<noteq> None \<Longrightarrow> sc_conn_ptr (f x) \<noteq> None" "\<And>x. sc_worker_ptr x \<Longrightarrow> sc_worker_ptr (f x)"
  shows "ctx_live i (upd_ctx i f w)" "w_conn i (upd_ctx i f w) = ctx_ptr_update (map_option f) (w_conn i w)"
  unfolding upd_ctx_def
  by (rule ctx_live_upd [OF assms(1) _ _ assms(2,3)]; simp add: same_id_def)+

lemma ctx_live_Some: "ctx_live i w \<Longrightarrow> \<exists>x. ctx_ptr (w_conn i w) = Some x \<and> sc_conn_ptr x \<noteq> None \<and> sc_worker_ptr x"
  by (auto simp: ctx_live_def ctx_ok_def ctx_attached_def split: option.splits)

lemma ctx_run_upd_ctx:
  assumes "ctx_run i w0 w" "\<And>x. sc_conn_ptr x \<noteq> None \<Longrightarrow> sc_conn_ptr (f x) \<noteq> None" "\<And>x. sc_worker_ptr x \<Longrightarrow> sc_worker_ptr (f x)"
    "\<And>x. app_layer_notified x \<Longrightarrow> app_layer_notified (f x)"
  shows "ctx_run i w0 (upd_ctx i f w)"
  unfolding upd_ctx_def
  by (rule ctx_run_upd(1) [OF assms(1) _ _ assms(2-4)]; simp add: same_id_def)

lemma ws_run_note_opcode: "ctx_run i w0 w \<Longrightarrow> ctx_run i w0 (ws_note_opcode i w)"
  by (simp add: ws_note_opcode_def Let_def ctx_run_upd_ctx)

lemma ws_run_process_frame: "ctx_run i w0 w \<Longrightarrow> ctx_run i w0 (ws_on_process_frame E i w)"
  by (simp add: ws_on_process_frame_def ctx_run_upd_ctx ctx_run_ops split: option.splits)

lemma ws_run_process_loop: "ctx_run i w0 w \<Longrightarrow> ctx_run i w0 (snd (ws_process_loop k left E i w))"
proof (induction k arbitrary: left w)
  case (Suc k)
  show ?case
    using Suc
    by (auto simp: Let_def ws_run_note_opcode ws_run_process_frame ctx_run_upd_ctx ctx_run_ops split: ws_read.splits)
qed simp

lemma ws_run_process: "ctx_run i w0 w \<Longrightarrow> ctx_run i w0 (snd (ws_on_process_connection E i w))"
  using ws_run_process_loop [of i w0 w "Suc (vsb_size (recv_buffer (w_conn i w)))" ws_INT32_MAX E]
  by (auto simp: ws_on_process_connection_def ctx_run_ops split: prod.splits bool.splits)

lemma ws_scan_headers_keeps [simp]:
  "sc_conn_ptr (ws_scan_headers hs x) = sc_conn_ptr x" "sc_worker_ptr (ws_scan_headers hs x) = sc_worker_ptr x"
  "app_layer_notified (ws_scan_headers hs x) = app_layer_notified x"
  by (induction hs x rule: ws_scan_headers.induct) auto

lemma ws_run_handshake: "ctx_run i w0 w \<Longrightarrow> ctx_run i w0 (snd (ws_handshake E i w))"
  by (simp add: ws_handshake_def Let_def ctx_run_upd_ctx ctx_run_ops split: option.splits)

lemma ws_callback_keeps:
  "ws_callback e x = (ok, x') \<Longrightarrow> sc_conn_ptr x' = sc_conn_ptr x \<and> sc_worker_ptr x' = sc_worker_ptr x \<and> app_layer_notified x' = app_layer_notified x"
  by (cases e) (auto simp: Let_def add_header_def)

lemma ws_callbacks_keeps:
  "ws_callbacks es x = (ok, x') \<Longrightarrow> sc_conn_ptr x' = sc_conn_ptr x \<and> sc_worker_ptr x' = sc_worker_ptr x \<and> app_layer_notified x' = app_layer_notified x"
proof (induction es arbitrary: x)
  case (Cons e es)
  obtain ok1 x1 where c: "ws_callback e x = (ok1, x1)" by fastforce
  show ?case using Cons ws_callback_keeps [OF c] c by (cases ok1) auto
qed simp

lemma llhttp_execute_keeps:
  "llhttp_execute L bs x = (err, up, x') \<Longrightarrow> sc_conn_ptr x' = sc_conn_ptr x \<and> sc_worker_ptr x' = sc_worker_ptr x \<and> app_layer_notified x' = app_layer_notified x"
  by (auto simp: llhttp_execute_def Let_def split: prod.splits dest: ws_callbacks_keeps)

lemma ws_http_loop_keeps:
  "ws_http_loop k L n e x s = (fatal, x', s') \<Longrightarrow>
     sc_conn_ptr x' = sc_conn_ptr x \<and> sc_worker_ptr x' = sc_worker_ptr x \<and> app_layer_notified x' = app_layer_notified x \<and> m_sockfd s' = m_sockfd s"
proof (induction k arbitrary: n e x s)
  case (Suc k)
  obtain len bs e' s1 where r: "socket_recv (10240 - n) e s = (len, bs, e', s1)" by (metis prod_cases4)
  obtain err up x1 where l: "llhttp_execute L bs x = (err, up, x1)" by (metis prod_cases3)
  note f = socket_recv_facts(3) [OF r] and k = llhttp_execute_keeps [OF l]
  from Suc.prems have "(x', s') \<in> {(x, s), (x, s1), (x1, s1)} \<or>
      (\<exists>m y. (y = x \<or> y = x1 \<or> y = x1\<lparr>is_upgrade := True\<rparr>) \<and> ws_http_loop k L m e' y s1 = (fatal, x', s'))"
    unfolding ws_http_loop.simps r by (auto simp: l split: if_splits simp del: ws_http_loop.simps)
  then show ?case using f k Suc.IH [of _ e' _ s1] by fastforce
qed simp

declare ws_http_loop.simps [simp del] ws_process_loop.simps [simp del]

lemma ws_run_connect:
  assumes "ctx_run i w0 w"
  shows "ctx_run i w0 (snd (ws_connect E L i ev w))"
proof -
  let ?s = "socket_obj (w_conn i w)"
  obtain x0 where x0: "ctx_ptr (w_conn i w) = Some x0" "sc_conn_ptr x0 \<noteq> None" "sc_worker_ptr x0"
    using ctx_live_Some [OF ctx_run_live [OF assms]] by blast
  obtain fatal x s' where r: "(if ev AND READ \<noteq> 0 then ws_http_loop (Suc (rx_weight (k_rx ?s))) L 0 0 (ws_ctx i w) ?s
      else (False, ws_ctx i w, ?s)) = (fatal, x, s')" by (metis prod_cases3)
  have k: "sc_conn_ptr x \<noteq> None" "sc_worker_ptr x" "app_layer_notified x = app_layer_notified x0" "m_sockfd s' = m_sockfd ?s"
    using r ws_http_loop_keeps [of _ L 0 0 "ws_ctx i w" ?s fatal x s'] x0 by (auto split: if_splits)
  let ?wa = "upd_wconn i (socket_obj_update (\<lambda>_. s')) w"
  let ?w1 = "upd_ctx i (\<lambda>_. x) ?wa"
  have ra: "ctx_run i w0 ?wa" by (rule ctx_run_socket [OF assms k(4)])
  have c: "ctx_ptr (w_conn i ?wa) = Some x0"
    using ctx_run_upd_id(2) [OF assms, of "socket_obj_update (\<lambda>_. s')"] x0(1) k(4) by (simp add: same_id_def)
  have e: "?w1 = upd_ctx i (\<lambda>y. if y = x0 then x else y) ?wa"
    unfolding upd_ctx_def using c ctx_run_live [OF ra]
    by (intro upd_wconn_cong) (auto simp: ctx_live_def ctx_ok_def worker_inv_def)
  have "ctx_run i w0 (upd_ctx i (\<lambda>y. if y = x0 then x else y) ?wa)"
    by (rule ctx_run_upd_ctx [OF ra]) (use k x0 in auto)
  then have l1: "ctx_run i w0 ?w1" by (simp only: e)
  show ?thesis
    unfolding ws_connect_def r Let_def
    using l1 assms ws_run_handshake [OF l1, of E] by (simp add: ctx_run_ops)
qed

lemma ws_run_io:
  assumes "ctx_run i w0 w"
  shows "ctx_run i w0 (ws_io E i ev w)"
proof -
  let ?s = "socket_obj (w_conn i w)"
  obtain buffer fatal s' where r: "(if ev AND READ \<noteq> 0 then ctx_read_loop (Suc (rx_weight (k_rx ?s))) [] 0 ?s
      else ([], False, ?s)) = (buffer, fatal, s')" by (metis prod_cases3)
  have fd: "m_sockfd s' = m_sockfd ?s"
    using r ctx_read_loop_facts [of _ "[]" 0 ?s buffer fatal s'] by (auto split: if_splits)
  define w1 where "w1 = upd_wconn i (socket_obj_update (\<lambda>_. s')) w"
  have l1: "ctx_run i w0 w1" unfolding w1_def by (rule ctx_run_socket [OF assms fd])
  define w2 where "w2 = (if length buffer > 0
      then upd_wconn i (\<lambda>c. c\<lparr>recv_buffer := vsb_append buffer (recv_buffer c)\<rparr>) w1 else w1)"
  have l2: "ctx_run i w0 w2" using l1 by (simp add: w2_def ctx_run_ops)
  obtain err w3 where p: "(if vsb_size (recv_buffer (w_conn i w2)) > 0 then ws_on_process_connection E i w2 else (False, w2)) = (err, w3)"
    by fastforce
  have l3: "ctx_run i w0 w3" using p l2 ws_run_process [OF l2, of E] by (auto split: if_splits)
  have "ws_io E i ev w = (if fatal then ctx_event_mod i RWE (set_conn_is_close i True w1)
      else if err then ctx_event_mod i RWE (set_conn_is_close i True w3)
      else if ev AND WRITE \<noteq> 0 then ctx_try_send_flush i w3 else w3)"
    unfolding ws_io_def r Let_def prod.case w1_def [symmetric] w2_def [symmetric] p by simp
  then show ?thesis using l1 l3 by (simp add: ctx_run_ops)
qed

lemma ws_run_ready_event:
  assumes "ctx_run i w0 w"
  shows "ctx_run i w0 (ws_ready_event E L i ev w)"
  using assms ws_run_connect [OF assms, of E L ev]
  by (auto simp: ws_ready_event_def ctx_run_ops ws_run_io split: prod.splits)

lemma ws_on_event_open:
  assumes "ctx_live i w" "\<not> ctx_closing i ev w"
  shows "ctx_run i w (ws_on_event E L i ev w)"
proof -
  have at: "ctx_attached i w" using assms(1) by (simp add: ctx_live_def ctx_ok_def)
  have r: "ctx_run i w w" by (rule ctx_run_refl [OF assms(1)])
  obtain h s' where ha: "ssl_accept (socket_obj (w_conn i w)) = (h, s')" by fastforce
  have fd: "m_sockfd s' = m_sockfd (socket_obj (w_conn i w))"
    using ha by (auto simp: ssl_accept_def split: list.splits)
  let ?w2 = "upd_wconn i (socket_obj_update (\<lambda>_. s')) w"
  have l2: "ctx_run i w ?w2" by (rule ctx_run_socket [OF r fd])
  have l3: "ctx_run i w (upd_wconn i (socket_obj_update (set_ssl_accepted True)) ?w2)"
    by (rule ctx_run_upd_id(1) [OF l2]) (simp_all add: same_id_def set_ssl_accepted_def)
  have nc: "ev AND ERR = 0" "\<not> is_close (w_conn i w)" using assms(2) by (auto simp: ctx_closing_def)
  show ?thesis
    using at nc ha l2 l3 r
    by (simp add: ws_on_event_def Let_def ws_run_ready_event ctx_run_ops split: hs_event.split)
qed

lemma ws_on_event_closing:
  assumes "ctx_live i w" "ctx_closing i ev w"
  shows "ctx_gone E i w (ws_on_event E L i ev w)"
proof -
  have "ctx_attached i w" using assms(1) by (simp add: ctx_live_def ctx_ok_def)
  then show ?thesis
    using ctx_closing_gone(1) [OF assms(1), of E ev] ctx_closing_gone(2) [OF assms]
    by (simp add: ws_on_event_def Let_def split del: if_split)
qed

text \<open>
  C27. The handler of a websocket event, whatever the HTTP parser calls back, the client sends
  and the kernel answers: an open connection stays live in every phase from the TLS handshake to
  the exchange of frames; a connection in error or marked for closing is closed for good.
\<close>

theorem ws_on_event_safe:
  assumes "ctx_live i w"
  shows "let w' = ws_on_event E L i ev w
    in if ev AND ERR \<noteq> 0 \<or> is_close (w_conn i w) then ctx_gone E i w w' else ctx_live i w'"
  using ctx_run_live [OF ws_on_event_open [OF assms]] ws_on_event_closing [OF assms] by (simp add: ctx_closing_def)


theorem ws_on_event_safe_witness:
  "let x = ws_reset \<lparr>app_layer_notified = False, sc_conn_ptr = Some 1, sc_worker_ptr = True,
           url = [], http_method = [], http_protocol = [], version = [], sec_websocket_key = [], sec_websocket_version = [],
           headers = [], head_field_tmp = [], head_value_tmp = [], http_processed = False, is_upgrade = False,
           is_connected = False, frame_first_opcode = 0, frame_payload_data = [], http_parser_obj = []\<rparr>;
       w = demo_worker (Some x) [] [Rx_data [71, 69, 84]] []
   in ctx_live 1 (ws_on_event demo_params (\<lambda>_ _. ([], HPE_OK, False)) 1 READ w) \<and>
      ctx_gone demo_params 1 w (ws_on_event demo_params (\<lambda>_ _. ([], HPE_OK, False)) 1 ERR w)"
proof -
  let ?x = "ws_reset \<lparr>app_layer_notified = False, sc_conn_ptr = Some 1, sc_worker_ptr = True,
           url = [], http_method = [], http_protocol = [], version = [], sec_websocket_key = [], sec_websocket_version = [],
           headers = [], head_field_tmp = [], head_value_tmp = [], http_processed = False, is_upgrade = False,
           is_connected = False, frame_first_opcode = 0, frame_payload_data = [], http_parser_obj = []\<rparr>"
  let ?w = "demo_worker (Some ?x) [] [Rx_data [71, 69, 84]] []"
  have l: "ctx_live 1 ?w" by (rule demo_ctx_live) (simp_all add: ws_reset_def)
  have c: "\<not> is_close (w_conn 1 ?w)" by (simp add: demo_worker_def demo_mgr_def conn_at_def on_alloc_def connection_new_def)
  have e: "READ AND ERR = (0 :: u32)" "ERR AND ERR \<noteq> (0 :: u32)" by code_simp+
  show ?thesis
    using ws_on_event_safe [OF l, of demo_params "\<lambda>_ _. ([], HPE_OK, False)" READ]
      ws_on_event_safe [OF l, of demo_params "\<lambda>_ _. ([], HPE_OK, False)" ERR] c e
    by (simp add: Let_def del: One_nat_def)
qed

section \<open>The opening handshake succeeds\<close>

text \<open>The accept key of RFC 6455, section 4.2.2, over the reference encodings.\<close>

definition rfc_accept :: "bytes \<Rightarrow> bytes" where
  "rfc_accept key = base64_spec False (concat (map be_bytes32 (hash_list (sha1_spec (key @ ws_GUID)))))"

lemma ws_accept_key_rfc: "ws_accept_key key = Some (rfc_accept key)"
proof -
  have f: "sha1_final (sha1_update (key @ ws_GUID) sha1_reset) = (concat (map hex8 (hash_list (sha1_spec (key @ ws_GUID)))), sha1_reset)"
    using sha1_final_rep [OF sha_rep_update [OF sha_rep_reset, of "key @ ws_GUID"]] by simp
  have "length (concat (map be_bytes32 (hash_list H))) = 20" for H
    by (simp add: hash_list_def be_bytes32_def split: prod.splits)
  then show ?thesis by (simp add: ws_accept_key_def f to_binary_digest base64_encode_spec rfc_accept_def)
qed

lemma tunnel_stream_upd_ctx: "ctx_live i w \<Longrightarrow> tunnel_stream (upd_ctx i f w) = tunnel_stream w"
  unfolding upd_ctx_def by (rule tunnel_stream_upd)

definition ws_open :: "nat \<Rightarrow> ws_worker \<Rightarrow> bool" where
  "ws_open i w \<longleftrightarrow> is_ready (w_conn i w) \<and> is_connected (ws_ctx i w) \<and> app_layer_notified (ws_ctx i w)"

text \<open>The steps of the handshake between the answer and the announcement.\<close>

lemma ws_answer:
  fixes d :: bytes
  assumes "ctx_live i w"
  defines "w4 \<equiv> upd_wconn i (is_ready_update (\<lambda>_. True)) (upd_ctx i (is_connected_update (\<lambda>_. True))
      (upd_wconn i (\<lambda>c. c\<lparr>send_buffer := vsb_append d (send_buffer c)\<rparr>) w))"
  shows "ctx_live i w4" "client_stream i w4 = client_stream i w @ d" "tunnel_stream w4 = tunnel_stream w"
    "worker_idx w4 = worker_idx w" "gid (w_conn i w4) = gid (w_conn i w)" "fd (w_conn i w4) = fd (w_conn i w)"
    "is_ready (w_conn i w4)" "is_connected (ws_ctx i w4)" "is_close (w_conn i w4) = is_close (w_conn i w)"
proof -
  let ?h = "\<lambda>c :: _ connection. c\<lparr>send_buffer := vsb_append d (send_buffer c)\<rparr>"
  define w2 where "w2 = upd_wconn i ?h w"
  define w3 where "w3 = upd_ctx i (is_connected_update (\<lambda>_. True)) w2"
  have 2: "ctx_live i w2" "w_conn i w2 = ?h (w_conn i w)"
    using ctx_live_upd_id [OF assms(1), of ?h] by (simp_all add: w2_def same_id_def)
  have 3: "ctx_live i w3" "w_conn i w3 = ctx_ptr_update (map_option (is_connected_update (\<lambda>_. True))) (w_conn i w2)"
    using ctx_live_upd_ctx [OF 2(1), of "is_connected_update (\<lambda>_. True)"] by (simp_all add: w3_def)
  have 4: "ctx_live i w4" "w_conn i w4 = is_ready_update (\<lambda>_. True) (w_conn i w3)"
    using ctx_live_upd_id [OF 3(1), of "is_ready_update (\<lambda>_. True)"]
    by (simp_all add: w4_def w3_def w2_def same_id_def)
  show "ctx_live i w4" by (rule 4)
  obtain x where "ctx_ptr (w_conn i w) = Some x" using ctx_live_Some [OF assms(1)] by blast
  then show "client_stream i w4 = client_stream i w @ d" "gid (w_conn i w4) = gid (w_conn i w)" "fd (w_conn i w4) = fd (w_conn i w)"
    "is_ready (w_conn i w4)" "is_connected (ws_ctx i w4)" "is_close (w_conn i w4) = is_close (w_conn i w)"
    by (simp_all add: 4 3 2 client_stream_def)
  show "tunnel_stream w4 = tunnel_stream w"
    using tunnel_stream_upd [OF 3(1), of "is_ready_update (\<lambda>_. True)"] tunnel_stream_upd_ctx [OF 2(1), of "is_connected_update (\<lambda>_. True)"]
      tunnel_stream_upd [OF assms(1), of ?h] by (simp add: w4_def w3_def w2_def)
  show "worker_idx w4 = worker_idx w" by (simp add: w4_def upd_ctx_def)
qed

lemma ws_announce:
  fixes E :: params
  assumes "ctx_live i w" "is_ready (w_conn i w)" "is_connected (ws_ctx i w)"
  defines "w' \<equiv> app_on_new_connection E i (mark_delete_timeout_timer (gid (w_conn i (ctx_mark_notified i True w))) (ctx_mark_notified i True w))"
  shows "client_stream i w' = client_stream i w" "ws_open i w'"
    "tunnel_stream w' = tunnel_stream w @ new_wire E (worker_idx w) (gid (w_conn i w)) (p_peer E (fd (w_conn i w)))"
proof -
  define w6 where "w6 = ctx_mark_notified i True w"
  let ?h = "ctx_ptr_update (map_option (app_layer_notified_update (\<lambda>_. True))) :: websocket_ctx connection \<Rightarrow> websocket_ctx connection"
  have 6: "ctx_live i w6" "w_conn i w6 = ?h (w_conn i w)"
    using ctx_live_upd [OF assms(1), of ?h "app_layer_notified_update (\<lambda>_. True)"] by (simp_all add: w6_def ctx_mark_notified_def same_id_def)
  have t6: "tunnel_stream w6 = tunnel_stream w" "worker_idx w6 = worker_idx w"
    using tunnel_stream_upd [OF assms(1), of ?h] by (simp_all add: w6_def ctx_mark_notified_def)
  let ?w7 = "mark_delete_timeout_timer (gid (w_conn i w6)) w6"
  have l7: "ctx_live i ?w7" using 6(1) by (simp add: ctx_live_ops)
  note n = app_on_new_facts [OF l7, of E]
  have c: "w_conn i w' = ?h (w_conn i w)" using n(1) 6(2) by (simp add: w'_def w6_def)
  obtain x where "ctx_ptr (w_conn i w) = Some x" using ctx_live_Some [OF assms(1)] by blast
  then show "client_stream i w' = client_stream i w" "ws_open i w'"
    using assms(2,3) by (simp_all add: c client_stream_def ws_open_def)
  show "tunnel_stream w' = tunnel_stream w @ new_wire E (worker_idx w) (gid (w_conn i w)) (p_peer E (fd (w_conn i w)))"
    using n(2) t6 6(2) by (simp add: w'_def w6_def)
qed

text \<open>
  C26. The opening handshake of RFC 6455, behind a parsed request. With a key and version 13, the
  client is sent the 101 answer whose accept value is the base64 form of the SHA-1 digest of its
  key and the protocol's GUID, after whatever it was sent before; the connection is open and the
  script thread is told of it exactly once. Without them it is marked for closing and nothing is
  sent to anybody.
\<close>

theorem ws_handshake_answers:
  assumes "ctx_live i w"
  shows "let x = ws_scan_headers (headers (ws_ctx i w)) (ws_ctx i w); (go_on, w') = ws_handshake E i w
    in ctx_live i w' \<and>
       (if sec_websocket_key x \<noteq> [] \<and> sec_websocket_version x = bytes_of ''13''
        then go_on \<and> ws_open i w' \<and>
             client_stream i w' = client_stream i w @ ws_response (rfc_accept (sec_websocket_key x)) \<and>
             tunnel_stream w' = tunnel_stream w @ new_wire E (worker_idx w) (gid (w_conn i w)) (p_peer E (fd (w_conn i w)))
        else \<not> go_on \<and> is_close (w_conn i w') \<and> client_stream i w' = client_stream i w \<and> tunnel_stream w' = tunnel_stream w)"
proof -
  define w1 where "w1 = upd_ctx i (\<lambda>x. ws_scan_headers (headers x) x) w"
  have 1: "ctx_live i w1" "w_conn i w1 = ctx_ptr_update (map_option (\<lambda>x. ws_scan_headers (headers x) x)) (w_conn i w)"
    using ctx_live_upd_ctx [OF assms, of "\<lambda>x. ws_scan_headers (headers x) x"] by (simp_all add: w1_def)
  have t1: "tunnel_stream w1 = tunnel_stream w" "worker_idx w1 = worker_idx w"
    using tunnel_stream_upd_ctx [OF assms, of "\<lambda>x. ws_scan_headers (headers x) x"] by (simp_all add: w1_def upd_ctx_def)
  obtain x0 where x0: "ctx_ptr (w_conn i w) = Some x0" using ctx_live_Some [OF assms] by blast
  let ?x = "ws_scan_headers (headers x0) x0"
  have x: "ws_ctx i w1 = ?x" using 1(2) x0 by simp
  have c1: "gid (w_conn i w1) = gid (w_conn i w)" "fd (w_conn i w1) = fd (w_conn i w)" "client_stream i w1 = client_stream i w"
    by (simp_all add: 1(2) client_stream_def)
  have live: "ctx_live i (snd (ws_handshake E i w))"
    by (rule ctx_run_live [OF ws_run_handshake [OF ctx_run_refl [OF assms]]])
  show ?thesis
  proof (cases "sec_websocket_key ?x \<noteq> [] \<and> sec_websocket_version ?x = bytes_of ''13''")
    case False
    let ?w' = "set_conn_is_close i True w1"
    have c: "w_conn i ?w' = is_close_update (\<lambda>_. True) (w_conn i w1)" "tunnel_stream ?w' = tunnel_stream w1"
      using ctx_live_upd_id(2) [OF 1(1), of "is_close_update (\<lambda>_. True)"] tunnel_stream_upd [OF 1(1), of "is_close_update (\<lambda>_. True)"]
      by (simp_all add: set_conn_is_close_def same_id_def)
    have "ws_handshake E i w = (False, ctx_event_mod i RWE ?w')"
      unfolding ws_handshake_def Let_def w1_def [symmetric] x using False by simp
    then show ?thesis using False live x0 c c1(3) t1 by (auto simp: client_stream_def)
  next
    case True
    let ?d = "ws_response (rfc_accept (sec_websocket_key ?x))"
    note a = ws_answer [OF 1(1), of ?d]
    let ?w4 = "upd_wconn i (is_ready_update (\<lambda>_. True)) (upd_ctx i (is_connected_update (\<lambda>_. True))
      (upd_wconn i (\<lambda>c. c\<lparr>send_buffer := vsb_append ?d (send_buffer c)\<rparr>) w1))"
    let ?w5 = "ctx_try_send_flush i ?w4"
    note f = ctx_flush_facts [OF a(1)] and g = ctx_flush_conn [OF a(1)]
    from g(1) have 5: "gid (w_conn i ?w5) = gid (w_conn i w)" "is_ready (w_conn i ?w5)" "is_connected (ws_ctx i ?w5)"
      using a(5,7,8) c1 by auto
    note n = ws_announce [OF f(1) 5(2,3), of E]
    have h: "ws_handshake E i w = (True, app_on_new_connection E i
        (mark_delete_timeout_timer (gid (w_conn i (ctx_mark_notified i True ?w5))) (ctx_mark_notified i True ?w5)))"
      unfolding ws_handshake_def Let_def w1_def [symmetric] x ws_accept_key_rfc using True by simp
    show ?thesis
      using True live x0 n f(2) g(2,3) 5(1) f(4) a c1 t1 unfolding h by auto
  qed
qed


definition demo_ws :: "(bytes \<times> bytes list) list \<Rightarrow> websocket_ctx" where
  "demo_ws hs = \<lparr>app_layer_notified = False, sc_conn_ptr = Some 1, sc_worker_ptr = True,
     url = [], http_method = [], http_protocol = [], version = [], sec_websocket_key = [], sec_websocket_version = [],
     headers = hs, head_field_tmp = [], head_value_tmp = [], http_processed = True, is_upgrade = True,
     is_connected = False, frame_first_opcode = 0, frame_payload_data = [], http_parser_obj = []\<rparr>"

lemma demo_ws_live: "ctx_live 1 (demo_worker (Some (demo_ws hs)) received rx tx)"
  by (rule demo_ctx_live) (simp_all add: demo_ws_def)

theorem ws_handshake_answers_witness:
  "let w = demo_worker (Some (demo_ws [(bytes_of ''Sec-WebSocket-Key'', [bytes_of ''a2V5'']),
                                       (bytes_of ''Sec-WebSocket-Version'', [bytes_of ''13''])])) [] [] [];
       (go_on, w') = ws_handshake demo_params 1 w
   in ctx_live 1 w' \<and> go_on \<and> ws_open 1 w' \<and> client_stream 1 w' = ws_response (rfc_accept (bytes_of ''a2V5''))"
proof -
  let ?hs = "[(bytes_of ''Sec-WebSocket-Key'', [bytes_of ''a2V5'']), (bytes_of ''Sec-WebSocket-Version'', [bytes_of ''13''])]"
  let ?w = "demo_worker (Some (demo_ws ?hs)) [] [] []"
  have k: "map to_lower (bytes_of ''Sec-WebSocket-Key'') = bytes_of ''sec-websocket-key''"
      "map to_lower (bytes_of ''Sec-WebSocket-Version'') = bytes_of ''sec-websocket-version''"
      "bytes_of ''sec-websocket-version'' \<noteq> bytes_of ''sec-websocket-key''"
      "bytes_of ''a2V5'' \<noteq> []"
    by code_simp+
  have c: "ctx_ptr (w_conn 1 ?w) = Some (demo_ws ?hs)" "client_stream 1 ?w = []"
    by (simp_all add: client_stream_def demo_worker_def demo_mgr_def conn_at_def on_alloc_def connection_new_def socket_new_def)
  have x: "sec_websocket_key (ws_scan_headers ?hs (demo_ws ?hs)) = bytes_of ''a2V5''"
      "sec_websocket_version (ws_scan_headers ?hs (demo_ws ?hs)) = bytes_of ''13''"
    using k by (simp_all only: ws_scan_headers.simps) simp_all
  have h: "headers (demo_ws ?hs) = ?hs" by (simp add: demo_ws_def)
  show ?thesis
    using ws_handshake_answers [OF demo_ws_live, of ?hs "[]" "[]" "[]" demo_params] k(4)
    unfolding Let_def c option.sel h x by (auto split: prod.splits)
qed

section \<open>Messages reach the script thread\<close>

text \<open>
  The reference: a message is the concatenation of the payloads of its frames, the last of which
  has the \<^verbatim>\<open>FIN\<close> bit. The result is the list of complete messages and what is collected of the
  next one.
\<close>

type_synonym ws_part = "bool \<times> byte \<times> bytes option \<times> bytes"

fun ws_messages :: "bytes \<Rightarrow> ws_part list \<Rightarrow> bytes list \<times> bytes" where
  "ws_messages acc [] = ([], acc)"
| "ws_messages acc ((f, op, key, data) # ps) =
     (if f then (case ws_messages [] ps of (ms, r) \<Rightarrow> ((acc @ data) # ms, r)) else ws_messages (acc @ data) ps)"

definition part_bytes :: "ws_part \<Rightarrow> bytes" where
  "part_bytes p = (case p of (f, op, key, data) \<Rightarrow> rfc_frame f op key data)"

definition part_ok :: "ws_part \<Rightarrow> bool" where
  "part_ok p = (case p of (f, op, key, data) \<Rightarrow> op \<in> {0, 1, 2} \<and> (case key of None \<Rightarrow> True | Some k \<Rightarrow> length k = 4))"

text \<open>What the loop over the frames sees and changes of the worker.\<close>

definition ws_view :: "nat \<Rightarrow> bytes \<Rightarrow> bytes \<Rightarrow> bytes \<Rightarrow> int \<times> u64 \<times> bool \<Rightarrow> ws_worker \<Rightarrow> bool" where
  "ws_view i buf acc ts k w \<longleftrightarrow>
     ctx_live i w \<and> ctx_buf i w = buf \<and> frame_payload_data (ws_ctx i w) = acc \<and> tunnel_stream w = ts \<and>
     k = (worker_idx w, gid (w_conn i w), is_close (w_conn i w))"

lemma ws_view_upd_ctx:
  assumes "ws_view i buf acc ts k w" "\<And>x. sc_conn_ptr (f x) = sc_conn_ptr x" "\<And>x. sc_worker_ptr (f x) = sc_worker_ptr x"
    "\<And>x. frame_payload_data (f x) = g (frame_payload_data x)"
  shows "ws_view i buf (g acc) ts k (upd_ctx i f w)"
proof -
  have l: "ctx_live i w" using assms(1) by (simp add: ws_view_def)
  have u: "ctx_live i (upd_ctx i f w)" "w_conn i (upd_ctx i f w) = ctx_ptr_update (map_option f) (w_conn i w)"
    using ctx_live_upd_ctx [OF l, of f] assms(2,3) by simp_all
  obtain x where "ctx_ptr (w_conn i w) = Some x" using ctx_live_Some [OF l] by blast
  then show ?thesis
    using assms(1,4) u tunnel_stream_upd_ctx [OF l, of f] by (simp add: ws_view_def ctx_buf_def) (simp add: upd_ctx_def)
qed

lemma ws_view_note_opcode: "ws_view i buf acc ts k w \<Longrightarrow> ws_view i buf acc ts k (ws_note_opcode i w)"
  using ws_view_upd_ctx [where g = id] by (simp add: ws_note_opcode_def Let_def)

lemma ws_view_move:
  assumes "ws_view i buf acc ts k w"
  shows "ws_view i (drop n buf) acc ts k (recv_buffer_move_read_ptr_n i n w)"
proof -
  have l: "ctx_live i w" "ctx_ok i w" using assms by (simp_all add: ws_view_def ctx_live_def)
  show ?thesis
    using assms ctx_move_facts [OF l(2), of n] l(1)
    by (simp add: ws_view_def ctx_live_ops) (simp add: recv_buffer_move_read_ptr_n_def)
qed

lemma ws_view_forward:
  assumes "ws_view i buf acc ts (idx, g, c) w"
  shows "ws_view i buf acc (ts @ luavm_wire E idx g p) (idx, g, c) (app_forward_package E i p w)"
proof -
  have l: "ctx_live i w" "ctx_ok i w" using assms by (simp_all add: ws_view_def ctx_live_def)
  note f = app_forward_package_facts [OF l(2), of E p]
  have "w_conn i (app_forward_package E i p w) = w_conn i w" by (rule ctx_tunnel_only_conn [OF l(1) f(2)])
  moreover have "worker_idx (app_forward_package E i p w) = worker_idx w"
    using tunnel_only_conn(11) [OF f(2)] l(2) by (simp add: ctx_ok_def)
  ultimately show ?thesis using assms f(3,5) l(1) by (simp add: ws_view_def ctx_live_ops)
qed

lemma ws_view_process_frame:
  assumes "ws_view i buf acc ts (idx, g, c) w" "parse_package E acc = Some p"
  shows "ws_view i buf [] (ts @ luavm_wire E idx g p) (idx, g, c) (ws_on_process_frame E i w)"
proof -
  have "frame_payload_data (ws_ctx i w) = acc" using assms(1) by (simp add: ws_view_def)
  then show ?thesis
    using ws_view_forward [OF ws_view_upd_ctx [OF assms(1), of "frame_payload_data_update (\<lambda>_. [])" "\<lambda>_. []"]] assms(2)
    by (simp add: ws_on_process_frame_def)
qed

lemma ws_view_frame:
  assumes "ws_view i (part_bytes (f, op, key, data) @ rest) acc ts k w" "part_ok (f, op, key, data)"
    "length (part_bytes (f, op, key, data) @ rest) < 2 ^ 63"
  shows "\<exists>w2. ws_view i rest (acc @ data) ts k w2 \<and>
    (\<forall>fuel left. ws_process_loop (Suc fuel) left E i w =
      (if f then (let w3 = ws_on_process_frame E i w2
                  in if left \<le> 1 then (False, w3) else ws_process_loop fuel (left - 1) E i w3)
       else ws_process_loop fuel left E i w2))"
proof -
  let ?F = "rfc_frame f op key data"
  have b: "m_data (recv_buffer (w_conn i w)) = ?F @ rest"
    using assms(1) by (simp add: ws_view_def ctx_buf_def part_bytes_def)
  have r: "ws_read_frame (?F @ rest) = Ws_frame \<lparr>fin = f, opcode = op, mask_flag = (key \<noteq> None), payload_length = of_nat (length data),
              masking_key = (case key of None \<Rightarrow> [] | Some k \<Rightarrow> k), payload_data = data\<rparr> (length ?F)"
    using ws_read_rfc [of op key f data rest] assms(2,3) by (simp add: part_ok_def part_bytes_def split: option.splits)
  let ?w1 = "upd_ctx i (\<lambda>x. x\<lparr>frame_payload_data := frame_payload_data x @ data\<rparr>) (ws_note_opcode i w)"
  have "ws_view i (?F @ rest) (acc @ data) ts k ?w1"
    using ws_view_upd_ctx [OF ws_view_note_opcode [OF assms(1)], of "\<lambda>x. x\<lparr>frame_payload_data := frame_payload_data x @ data\<rparr>" "\<lambda>a. a @ data"]
    by (simp add: part_bytes_def)
  then have "ws_view i rest (acc @ data) ts k (recv_buffer_move_read_ptr_n i (length ?F) ?w1)"
    using ws_view_move [of i "?F @ rest" "acc @ data" ts k ?w1 "length ?F"] by simp
  then show ?thesis
    by (intro exI [of _ "recv_buffer_move_read_ptr_n i (length ?F) ?w1"]) (simp add: ws_process_loop.simps b r Let_def)
qed

lemma ws_process_loop_messages:
  assumes "ws_view i (concat (map part_bytes ps) @ tail) acc ts (idx, g, c) w" "\<forall>p\<in>set ps. part_ok p"
    "ws_read_frame tail = Ws_need" "ws_messages acc ps = (ms, r)" "\<forall>m\<in>set ms. parse_package E m \<noteq> None"
    "length ps < fuel" "length ps < left" "length (concat (map part_bytes ps) @ tail) < 2 ^ 63"
  shows "\<exists>w'. ws_process_loop fuel left E i w = (False, w') \<and>
    ws_view i tail r (ts @ concat (map (\<lambda>m. luavm_wire E idx g (the (parse_package E m))) ms)) (idx, g, c) w'"
  using assms
proof (induction ps arbitrary: acc ts w ms fuel left)
  case Nil
  then obtain k where k: "fuel = Suc k" by (cases fuel) auto
  have "ctx_buf i w = tail" using Nil.prems(1) by (simp add: ws_view_def)
  then have "get_read_ptr (recv_buffer (w_conn i w)) = tail" by (simp add: ctx_buf_def)
  then show ?case using Nil.prems ws_view_note_opcode [OF Nil.prems(1)] by (simp add: k ws_process_loop.simps Let_def)
next
  case (Cons p ps)
  obtain f op key data where p: "p = (f, op, key, data)" by (metis prod_cases4)
  obtain k where k: "fuel = Suc k" using Cons.prems(6) by (cases fuel) auto
  let ?rest = "concat (map part_bytes ps) @ tail"
  from ws_view_frame [of i f op key data ?rest acc ts "(idx, g, c)" w E] obtain w2 where
    w2: "ws_view i ?rest (acc @ data) ts (idx, g, c) w2" and
    l: "\<And>fuel left. ws_process_loop (Suc fuel) left E i w =
      (if f then (let w3 = ws_on_process_frame E i w2
                  in if left \<le> 1 then (False, w3) else ws_process_loop fuel (left - 1) E i w3)
       else ws_process_loop fuel left E i w2)"
    using Cons.prems(1,2,8) p by fastforce
  show ?case
  proof (cases f)
    case False
    then show ?thesis
      using Cons.IH [OF w2, of ms k left] Cons.prems p by (simp add: l k)
  next
    case True
    obtain ms' where ms: "ms = (acc @ data) # ms'" "ws_messages [] ps = (ms', r)"
      using Cons.prems(4) True p by (auto split: prod.splits)
    then obtain q where q: "parse_package E (acc @ data) = Some q" using Cons.prems(5) by auto
    note v = ws_view_process_frame [OF w2 q]
    show ?thesis
      using Cons.IH [OF v _ _ ms(2), of k "left - 1"] Cons.prems ms(1) True q by (simp add: l k Let_def)
  qed
qed

lemma part_bytes_length: "2 \<le> length (part_bytes p)"
  by (auto simp: part_bytes_def rfc_frame_def split: prod.splits)

lemma parts_count: "2 * length ps \<le> length (concat (map part_bytes ps))"
proof (induction ps)
  case (Cons p ps)
  then show ?case using part_bytes_length [of p] by simp
qed simp

text \<open>
  C25. Messages of websocket clients. Whatever frames a client has sent, masked or not, of any of
  the three length forms, each message whole or in fragments, followed by a frame that is not yet
  complete: every complete message reaches the script thread's queue exactly once, in order and
  reassembled; the fragments of an unfinished message stay collected and the incomplete frame
  stays in the receive buffer; the connection stays open.
\<close>

theorem ws_messages_delivered:
  assumes "ctx_live i w" "frame_payload_data (ws_ctx i w) = acc" "ctx_buf i w = concat (map part_bytes ps) @ tail"
    "\<forall>p\<in>set ps. part_ok p" "ws_read_frame tail = Ws_need" "ws_messages acc ps = (ms, r)" "\<forall>m\<in>set ms. parse_package E m \<noteq> None"
    "length (ctx_buf i w) < 2147483647" "length tail \<le> 1024000" "length r \<le> 1024000"
  shows "\<exists>w'. ws_on_process_connection E i w = (False, w') \<and> ctx_live i w' \<and> ctx_buf i w' = tail \<and>
    frame_payload_data (ws_ctx i w') = r \<and> is_close (w_conn i w') = is_close (w_conn i w) \<and>
    tunnel_stream w' = tunnel_stream w @
      concat (map (\<lambda>m. luavm_wire E (worker_idx w) (gid (w_conn i w)) (the (parse_package E m))) ms)"
proof -
  have v: "ws_view i (concat (map part_bytes ps) @ tail) acc (tunnel_stream w) (worker_idx w, gid (w_conn i w), is_close (w_conn i w)) w"
    using assms(1-3) by (simp add: ws_view_def)
  have n: "length ps < Suc (vsb_size (recv_buffer (w_conn i w)))" "length ps < ws_INT32_MAX"
      "length (concat (map part_bytes ps) @ tail) < 2 ^ 63"
    using parts_count [of ps] assms(3,8) by (simp_all add: ctx_buf_def ws_INT32_MAX_def)
  from ws_process_loop_messages [OF v assms(4-7) n] obtain w' where
    w': "ws_process_loop (Suc (vsb_size (recv_buffer (w_conn i w)))) ws_INT32_MAX E i w = (False, w')" and
    v': "ws_view i tail r (tunnel_stream w @ concat (map (\<lambda>m. luavm_wire E (worker_idx w) (gid (w_conn i w)) (the (parse_package E m))) ms))
      (worker_idx w, gid (w_conn i w), is_close (w_conn i w)) w'" by blast
  have "ws_on_process_connection E i w = (False, w')"
    unfolding ws_on_process_connection_def w' using v' assms(9,10) by (simp add: ws_view_def ctx_buf_def)
  then show ?thesis using v' by (simp add: ws_view_def)
qed

theorem ws_messages_delivered_witness:
  "\<exists>w'. ws_on_process_connection demo_params 1
      (demo_worker (Some (demo_ws [])) (rfc_frame False 2 (Some [1, 2, 3, 4]) [7, 1] @ rfc_frame True 0 None [2] @ [0x81]) [] []) = (False, w') \<and>
    ctx_live 1 w' \<and> ctx_buf 1 w' = [0x81] \<and> frame_payload_data (ws_ctx 1 w') = [] \<and>
    tunnel_stream w' = luavm_wire demo_params 0 4096 \<lparr>cmd = 7, protocol = [1, 2]\<rparr>"
proof -
  let ?b = "rfc_frame False 2 (Some [1, 2, 3, 4]) [7, 1] @ rfc_frame True 0 None [2] @ [0x81]"
  let ?w = "demo_worker (Some (demo_ws [])) ?b [] []"
  let ?ps = "[(False, 2, Some [1, 2, 3, 4], [7, 1]), (True, 0, None, [2])] :: ws_part list"
  have c: "ctx_ptr (w_conn 1 ?w) = Some (demo_ws [])" "gid (w_conn 1 ?w) = 4096" "worker_idx ?w = 0"
    by (simp_all add: demo_worker_def demo_mgr_def conn_at_def)
  have t: "tunnel_stream ?w = []" "ctx_buf 1 ?w = concat (map part_bytes ?ps) @ [0x81]"
    by (simp_all add: part_bytes_def tunnel_stream_def ctx_buf_def demo_worker_def demo_mgr_def conn_at_def get_conn_def
        on_alloc_def connection_new_def socket_new_def)
  have b: "length (ctx_buf 1 ?w) < 2147483647" unfolding t by (simp add: part_bytes_def rfc_frame_def rfc_length_def)
  have p: "parse_package demo_params [7, 1, 2] = Some \<lparr>cmd = 7, protocol = [1, 2]\<rparr>" by (simp add: demo_params_def)
  have n: "ws_read_frame [0x81] = Ws_need" by code_simp
  have f: "frame_payload_data (demo_ws []) = []" by (simp add: demo_ws_def)
  show ?thesis
    using ws_messages_delivered [OF demo_ws_live _ t(2) _ n _ _ b, of "[]" "[[7, 1, 2]]" "[]" demo_params] p
    unfolding c t option.sel f by (simp add: part_ok_def del: One_nat_def) blast
qed

end
