(* ===== verification/Worker_Loop.thy ===== *)
theory Worker_Loop
  imports Client_Frame Framing
begin

text \<open>
  The event loop of a worker thread (src/workers/worker.cpp): dispatch of the poller's events,
  the reading side of the tunnel, messages from the other threads, new clients and their timeout
  timers. A worker serves one kind of task for its whole life; where the source switches over
  \<^verbatim>\<open>this->type\<close> to call the context of that task, the model takes the operations from a
  \<open>task\<close> record. What the operating system will do with a new descriptor is given per
  connection id by an \<open>os_client\<close> record.
\<close>

record os_client =
  oc_memory :: bool
  oc_ssl :: bool
  oc_rx :: "rx_event list"
  oc_tx :: "tx_event list"
  oc_hs :: "hs_event list"

record 'x task =
  t_new :: "'x client_ctx_scheme"
  t_create :: "nat \<Rightarrow> 'x client_ctx_scheme worker \<Rightarrow> 'x client_ctx_scheme worker"
  t_event :: "nat \<Rightarrow> u32 \<Rightarrow> 'x client_ctx_scheme worker \<Rightarrow> 'x client_ctx_scheme worker"
  t_forward :: "nat \<Rightarrow> client_forward_message \<Rightarrow> 'x client_ctx_scheme worker \<Rightarrow> 'x client_ctx_scheme worker"

section \<open>Events of clients\<close>

definition on_client_event :: "'x task \<Rightarrow> int \<Rightarrow> u32 \<Rightarrow> 'x ctx_worker \<Rightarrow> 'x ctx_worker" where
  "on_client_event T f event w =
     (case get_conn f (worker_connection_mgr w) of
        None \<Rightarrow> if f \<notin> m_closed_fd w then close_client_fd ctx_on_close f w else w
      | Some i \<Rightarrow> t_event T i event w)"

definition handle_tunnel_client_forward_message ::
    "'x task \<Rightarrow> nat \<Rightarrow> client_forward_message \<Rightarrow> 'x ctx_worker \<Rightarrow> 'x ctx_worker" where
  "handle_tunnel_client_forward_message T i message w =
     (if closed_flag (w_conn i w) \<or> is_close (w_conn i w) then w
      else case w_type w of
             STREAM_TASK \<Rightarrow> if is_ready (w_conn i w) \<and> ctx_ptr (w_conn i w) \<noteq> None then t_forward T i message w else w
           | WEBSOCKET_TASK \<Rightarrow> if is_ready (w_conn i w) \<and> ctx_ptr (w_conn i w) \<noteq> None then t_forward T i message w else w
           | _ \<Rightarrow> w)"

section \<open>New clients\<close>

text \<open>The socket of a new client: its descriptor, and the kernel's script for it.\<close>

definition client_socket :: "int \<Rightarrow> os_client \<Rightarrow> socket \<Rightarrow> socket" where
  "client_socket f oc s =
     (socket_set_fd f s)\<lparr>k_rx := oc_rx oc, k_tx := oc_tx oc, k_hs := oc_hs oc, k_wire := []\<rparr>"

definition ctx_alloc :: "'x task \<Rightarrow> os_client \<Rightarrow> nat \<Rightarrow> 'x ctx_worker \<Rightarrow> 'x ctx_worker option" where
  "ctx_alloc T oc i w =
     (if ctx_ptr (w_conn i w) \<noteq> None then Some w
      else if oc_memory oc then Some (upd_wconn i (ctx_ptr_update (\<lambda>_. Some (t_new T))) w)
      else None)"

definition timeout_timer :: "u64 \<Rightarrow> u64 \<Rightarrow> int \<Rightarrow> int timer" where
  "timeout_timer g now f = timer_new g now 1 5 (Some f)"

text \<open>The part of \<^verbatim>\<open>on_new_client_fd\<close> behind the allocation: poller, TLS object, timer, context.\<close>

definition client_setup :: "'x task \<Rightarrow> params \<Rightarrow> os_client \<Rightarrow> nat \<Rightarrow> int \<Rightarrow> 'x ctx_worker \<Rightarrow> 'x ctx_worker" where
  "client_setup T E oc i f w2 =
     (let w3 = upd_wconn i (socket_obj_update (client_socket f oc)) w2;
          (iret, p) = poller_add f RWE False (epoller w3);
          w4 = w3\<lparr>epoller := p\<rparr>
      in if iret \<noteq> 0 then close_client_fd ctx_on_close f w4
         else if p_use_ssl E \<and> m_ssl_instance (socket_obj (w_conn i w4)) then close_client_fd ctx_on_close f w4
         else if p_use_ssl E \<and> \<not> oc_ssl oc then close_client_fd ctx_on_close f w4
         else
           (let w5 = (if p_use_ssl E
                      then upd_wconn i (socket_obj_update (\<lambda>s. set_ssl_accepted False (set_ssl_instance True s))) w4
                      else w4);
                (added, tm) = tm_add (Some (timeout_timer (gid (w_conn i w5)) (m_latest_tick_time_monotonic w5) f))
                                (m_conn_timeout_timer_manager w5);
                w6 = w5\<lparr>m_conn_timeout_timer_manager := tm\<rparr>
            in if added = None then close_client_fd ctx_on_close f w6 else t_create T i w6))"

definition on_new_client_fd ::
    "'x task \<Rightarrow> params \<Rightarrow> (u64 \<Rightarrow> os_client) \<Rightarrow> int \<Rightarrow> u64 \<Rightarrow> 'x ctx_worker \<Rightarrow> 'x ctx_worker" where
  "on_new_client_fd T E Os f g w =
     (if f < 0 then w
      else
        (let (iret, m) = alloc_connection (p_pick E) f g (worker_connection_mgr w);
             w1 = w\<lparr>worker_connection_mgr := m\<rparr>
         in if iret \<noteq> 0 then close_client_fd ctx_on_close f w1
            else case get_conn f (worker_connection_mgr w1) of
                   None \<Rightarrow> close_client_fd ctx_on_close f w1
                 | Some i \<Rightarrow>
                     if w_type w1 = NONE then close_client_fd ctx_on_close f w1
                     else case ctx_alloc T (Os g) i w1 of
                            None \<Rightarrow> close_client_fd ctx_on_close f w1
                          | Some w2 \<Rightarrow> client_setup T E (Os g) i f w2))"

section \<open>Messages from the other threads\<close>

text \<open>
  \<^verbatim>\<open>send_client_forward_message\<close> and \<^verbatim>\<open>on_worker_tunnel\<close> call \<^verbatim>\<open>on_tunnel_process\<close> for
  connections of the same worker; here that function is the argument \<open>self\<close>. The recursion is
  closed below.
\<close>

definition forward_to_self ::
    "(proto_package \<Rightarrow> 'c worker \<Rightarrow> 'c worker) \<Rightarrow> params \<Rightarrow> int \<Rightarrow> client_forward_message \<Rightarrow> 'c worker \<Rightarrow> 'c worker" where
  "forward_to_self self E worker_id forwardMessage w =
     (let tunnel_package = \<lparr>sourcetunnelsid = worker_id, targettunnelsid = [worker_id], targetallworker = False,
            tp_inner = pack_package_into (ser_forward E) package_default forwardMessage PROTO_CMD_TUNNEL_CLIENT_FORWARD_MESSAGE\<rparr>
      in self (pack_package_into (ser_tunnel E) package_default tunnel_package PROTO_CMD_TUNNEL_PACKAGE) w)"

definition forward_to_workers :: "params \<Rightarrow> int list \<Rightarrow> client_forward_message \<Rightarrow> 'c worker \<Rightarrow> 'c worker" where
  "forward_to_workers E dest forwardMessage w =
     snd (tunnel_forward E dest
            (pack_package_into (ser_forward E) package_default forwardMessage PROTO_CMD_TUNNEL_CLIENT_FORWARD_MESSAGE) True w)"

definition send_client_forward_message ::
    "(proto_package \<Rightarrow> 'c worker \<Rightarrow> 'c worker) \<Rightarrow> params \<Rightarrow> u64 \<Rightarrow> u64 set \<Rightarrow> proto_package \<Rightarrow> 'c worker \<Rightarrow> int \<times> 'c worker" where
  "send_client_forward_message self E source_gid dest_conn_gid package w =
     (let this_worker = get_worker_tunnel_id (worker_idx w); tid = hash_gid_2_worker_tunnel_id;
          forwardMessage = \<lparr>sourcegid = source_gid, targetgid = [], cf_inner = package\<rparr>
      in if tid source_gid \<noteq> this_worker then (- 1, w)
         else if dest_conn_gid = {}
         then
           (let all = get_worker_all_tunnel_id (p_tunnels E);
                w1 = (if this_worker \<in> set all then forward_to_self self E this_worker forwardMessage w else w);
                all_target_tunnel = filter (\<lambda>d. d \<noteq> this_worker) all
            in (0, if all_target_tunnel \<noteq> [] then forward_to_workers E all_target_tunnel forwardMessage w1 else w1))
         else
           (0, fold (\<lambda>d w.
                  (let message = forwardMessage\<lparr>targetgid := sorted_list_of_set {g \<in> dest_conn_gid. tid g = d}\<rparr>
                   in if d = this_worker then forward_to_self self E d message w
                      else forward_to_workers E [d] message w))
                (p_int_order E (tid ` dest_conn_gid)) w))"

definition app_on_worker_tunnel ::
    "(proto_package \<Rightarrow> 'x ctx_worker \<Rightarrow> 'x ctx_worker) \<Rightarrow> params \<Rightarrow> proto_package \<Rightarrow> 'x ctx_worker \<Rightarrow> 'x ctx_worker" where
  "app_on_worker_tunnel self E package w =
     (if cmd package = PROTO_CMD_TUNNEL_OTHERLUAVM2WORKERCONN
      then
        (case proto_parse (parse_luavm2conn E) package of
           None \<Rightarrow> w
         | Some m \<Rightarrow>
             if cmd (ol_inner m) = PROTO_CMD_TUNNEL_OTHERLUAVM2WORKER_CLOSE_CLIENT_CONNECTION
             then
               (case get_conn_by_gid (ol_gid m) (worker_connection_mgr w) of
                  None \<Rightarrow> w
                | Some i \<Rightarrow>
                    if ctx_ptr (w_conn i w) = None then w
                    else ctx_event_mod i RWE (set_conn_is_close i True w))
             else snd (send_client_forward_message self E (ol_gid m) {ol_gid m} (ol_inner m) w))
      else w)"

definition on_tunnel_process_with ::
    "(proto_package \<Rightarrow> 'x ctx_worker \<Rightarrow> 'x ctx_worker) \<Rightarrow> 'x task \<Rightarrow> params \<Rightarrow> (u64 \<Rightarrow> os_client) \<Rightarrow> proto_package \<Rightarrow>
     'x ctx_worker \<Rightarrow> 'x ctx_worker" where
  "on_tunnel_process_with self T E Os message w =
     (if cmd message \<noteq> PROTO_CMD_TUNNEL_PACKAGE then w
      else case parse_tunnel E (protocol message) of
             None \<Rightarrow> w
           | Some tunnelPackage \<Rightarrow>
               (let inner = tp_inner tunnelPackage
                in if cmd inner = PROTO_CMD_TUNNEL_MAIN2WORKER_NEW_CLIENT
                   then
                     (case proto_parse (parse_new_client E) inner of
                        None \<Rightarrow> w
                      | Some package \<Rightarrow> on_new_client_fd T E Os (nc_fd package) (nc_gid package) w)
                   else if cmd inner = PROTO_CMD_TUNNEL_CLIENT_FORWARD_MESSAGE
                   then
                     (case proto_parse (parse_forward E) inner of
                        None \<Rightarrow> w
                      | Some m \<Rightarrow>
                          if targetgid m = []
                          then fold (\<lambda>g w.
                                 case get_conn_by_gid g (worker_connection_mgr w) of
                                   None \<Rightarrow> w
                                 | Some k \<Rightarrow>
                                     (case get_conn_by_idx k (worker_connection_mgr w) of
                                        None \<Rightarrow> w
                                      | Some i \<Rightarrow>
                                          if closed_flag (w_conn i w) \<or> is_close (w_conn i w) then w
                                          else handle_tunnel_client_forward_message T i m w))
                               (p_gid_order E (gid2index (worker_connection_mgr w))) w
                          else fold (\<lambda>g w.
                                 if get_worker_tunnel_id (worker_idx w) \<noteq> hash_gid_2_worker_tunnel_id g then w
                                 else case get_conn_by_gid g (worker_connection_mgr w) of
                                        None \<Rightarrow> w
                                      | Some i \<Rightarrow> handle_tunnel_client_forward_message T i m w)
                               (targetgid m) w)
                   else case w_type w of
                          STREAM_TASK \<Rightarrow> app_on_worker_tunnel self E inner w
                        | WEBSOCKET_TASK \<Rightarrow> app_on_worker_tunnel self E inner w
                        | _ \<Rightarrow> w))"

text \<open>
  The recursion: a message that a worker sends to itself carries a forward message, which is
  handled without a further call. Two levels are enough.
\<close>

fun on_tunnel_process_depth ::
    "nat \<Rightarrow> 'x task \<Rightarrow> params \<Rightarrow> (u64 \<Rightarrow> os_client) \<Rightarrow> proto_package \<Rightarrow> 'x ctx_worker \<Rightarrow> 'x ctx_worker" where
  "on_tunnel_process_depth 0 T E Os message w = w"
| "on_tunnel_process_depth (Suc d) T E Os message w =
     on_tunnel_process_with (on_tunnel_process_depth d T E Os) T E Os message w"

definition on_tunnel_process ::
    "'x task \<Rightarrow> params \<Rightarrow> (u64 \<Rightarrow> os_client) \<Rightarrow> proto_package \<Rightarrow> 'x ctx_worker \<Rightarrow> 'x ctx_worker" where
  "on_tunnel_process = on_tunnel_process_depth 2"

section \<open>Events of the tunnel\<close>

text \<open>
  Reading: the result is what was read, whether the tunnel is broken, and the socket. The first
  argument is fuel: every call that goes on takes something off the kernel's script.
\<close>

fun tunnel_read_loop :: "nat \<Rightarrow> bytes \<Rightarrow> socket \<Rightarrow> bytes \<times> bool \<times> socket" where
  "tunnel_read_loop 0 buffer s = (buffer, False, s)"
| "tunnel_read_loop (Suc fuel) buffer s =
     (if length buffer < 1024000
      then
        (let (len, bs, oper_errno, s') = socket_recv (1024000 - length buffer) 0 s
         in if len > 0 then tunnel_read_loop fuel (buffer @ bs) s'
            else (buffer,
                  oper_errno \<noteq> COMM_ERRNO_EAGAIN \<and> oper_errno \<noteq> COMM_ERRNO_EINTR \<and> oper_errno \<noteq> COMM_ERRNO_EWOULDBLOCK, s'))
      else (buffer, False, s))"

abbreviation tunnel_move :: "nat \<Rightarrow> nat \<Rightarrow> 'c worker \<Rightarrow> 'c worker" where
  "tunnel_move i n w \<equiv> upd_wconn i (recv_buffer_update (move_read_ptr_n n)) w"

text \<open>The loop over the packages in the receive buffer; every round that goes on takes at least nine bytes.\<close>

fun tunnel_parse_loop ::
    "nat \<Rightarrow> 'x task \<Rightarrow> params \<Rightarrow> (u64 \<Rightarrow> os_client) \<Rightarrow> nat \<Rightarrow> 'x ctx_worker \<Rightarrow> 'x ctx_worker" where
  "tunnel_parse_loop 0 T E Os i w = w"
| "tunnel_parse_loop (Suc fuel) T E Os i w =
     (let buf = get_read_ptr (recv_buffer (w_conn i w))
      in if buf = [] then w
         else if length buf \<ge> 8 then
           (let data_size = toh64_from_buffer buf
            in if data_size > of_nat (length buf) \<or> data_size > of_nat (length buf) - 8 then w
               else if data_size = 0 then tunnel_move i 8 w
               else
                 (case parse_package E (take (unat data_size) (drop 8 buf)) of
                    None \<Rightarrow> tunnel_move i (8 + unat data_size) w
                  | Some protoPackage \<Rightarrow>
                      tunnel_parse_loop fuel T E Os i
                        (tunnel_move i (8 + unat data_size) (on_tunnel_process T E Os protoPackage w))))
         else w)"

definition tunnel_read :: "'x task \<Rightarrow> params \<Rightarrow> (u64 \<Rightarrow> os_client) \<Rightarrow> nat \<Rightarrow> socket \<Rightarrow> 'x ctx_worker \<Rightarrow> 'x ctx_worker" where
  "tunnel_read T E Os i sock w =
     (let (buffer, broken, sock') = tunnel_read_loop (Suc (rx_weight (k_rx sock))) [] sock;
          w1 = w\<lparr>main_worker_tunnel := Some sock', w_to_stop := w_to_stop w \<or> broken\<rparr>;
          w2 = (if length buffer > 0
                then upd_wconn i (recv_buffer_update (vsb_append buffer)) w1 else w1)
      in tunnel_parse_loop (Suc (vsb_size (recv_buffer (w_conn i w2)))) T E Os i w2)"

definition worker_on_tunnel_event :: "'x task \<Rightarrow> params \<Rightarrow> (u64 \<Rightarrow> os_client) \<Rightarrow> u32 \<Rightarrow> 'x ctx_worker \<Rightarrow> 'x ctx_worker" where
  "worker_on_tunnel_event T E Os event w =
     (case main_worker_tunnel w of
        None \<Rightarrow> w
      | Some sock \<Rightarrow>
          if m_sockfd sock < 0 then w
          else case get_conn (m_sockfd sock) (worker_connection_mgr w) of
                 None \<Rightarrow> w
               | Some i \<Rightarrow>
                   (let w1 = (if event AND READ \<noteq> 0 then tunnel_read T E Os i sock w else w)
                    in if event AND WRITE \<noteq> 0 then try_send_flush_tunnel w1 else w1))"

section \<open>The loop of the thread\<close>

text \<open>The callback of a connection's timeout timer, over the set \<^verbatim>\<open>m_timeout_fd\<close>.\<close>

definition timeout_callback :: "'x ctx_worker \<Rightarrow> int \<Rightarrow> int timer \<Rightarrow> int set \<Rightarrow> int set" where
  "timeout_callback w f t timeout =
     (case get_conn_by_gid (m_id t) (worker_connection_mgr w) of
        None \<Rightarrow> timeout
      | Some i \<Rightarrow> if app_layer_notified (the (ctx_ptr (w_conn i w))) then timeout else insert f timeout)"

text \<open>The part that runs once per second; the second result is \<^verbatim>\<open>timeout_fd_copy\<close>.\<close>

definition worker_timeouts :: "params \<Rightarrow> u64 \<Rightarrow> 'x ctx_worker \<Rightarrow> ('x ctx_worker \<times> int set) option" where
  "worker_timeouts E now w =
     (if m_latest_tick_time_monotonic w \<noteq> now
      then
        (case check_and_handle (timeout_callback w) now (m_conn_timeout_timer_manager w) (m_timeout_fd w) of
           None \<Rightarrow> None
         | Some (tm, timeout) \<Rightarrow>
             (let w1 = w\<lparr>m_latest_tick_time_monotonic := now, m_conn_timeout_timer_manager := tm, m_timeout_fd := timeout\<rparr>;
                  w2 = fold (close_client_fd ctx_on_close) (p_int_order E timeout) w1
              in Some (w2\<lparr>m_timeout_fd := {}\<rparr>, timeout)))
      else Some (w, {}))"

definition worker_dispatch ::
    "'x task \<Rightarrow> params \<Rightarrow> (u64 \<Rightarrow> os_client) \<Rightarrow> int set \<Rightarrow> int \<times> u32 \<Rightarrow> 'x ctx_worker \<Rightarrow> 'x ctx_worker" where
  "worker_dispatch T E Os timeout_fd_copy ev w =
     (case ev of (evented_fd, code) \<Rightarrow>
        if evented_fd < 0 \<or> evented_fd \<in> timeout_fd_copy then w
        else if (case main_worker_tunnel w of None \<Rightarrow> False | Some sock \<Rightarrow> evented_fd = m_sockfd sock)
        then worker_on_tunnel_event T E Os code w
        else on_client_event T evented_fd code w)"

definition worker_iteration ::
    "'x task \<Rightarrow> params \<Rightarrow> (u64 \<Rightarrow> os_client) \<Rightarrow> u64 \<Rightarrow> (int \<times> u32) list \<Rightarrow> 'x ctx_worker \<Rightarrow> 'x ctx_worker option" where
  "worker_iteration T E Os now events w =
     (case worker_timeouts E now (w\<lparr>m_closed_fd := {}\<rparr>) of
        None \<Rightarrow> None
      | Some (w1, timeout_fd_copy) \<Rightarrow> Some (fold (worker_dispatch T E Os timeout_fd_copy) events w1))"

text \<open>
  What \<^verbatim>\<open>epoller.wait\<close> gives: an error, or the time and the events. The history of the thread is
  the list of its answers; the thread is still waiting when the list ends.
\<close>

datatype wait_result = Wait_error int | Wait_events u64 "(int \<times> u32) list"

definition worker_stop :: "'c worker \<Rightarrow> 'c worker" where
  "worker_stop w = w\<lparr>w_to_stop := True, w_is_stoped := True\<rparr>"

fun worker_loop ::
    "'x task \<Rightarrow> params \<Rightarrow> (u64 \<Rightarrow> os_client) \<Rightarrow> wait_result list \<Rightarrow> 'x ctx_worker \<Rightarrow> 'x ctx_worker option" where
  "worker_loop T E Os [] w = Some w"
| "worker_loop T E Os (Wait_error e # rs) w =
     (if e = COMM_ERRNO_EINTR then worker_loop T E Os rs w else Some (worker_stop w))"
| "worker_loop T E Os (Wait_events now events # rs) w =
     (if w_to_stop w then Some (worker_stop w)
      else case worker_iteration T E Os now events w of
             None \<Rightarrow> None
           | Some w' \<Rightarrow> worker_loop T E Os rs w')"

definition worker_run ::
    "'x task \<Rightarrow> params \<Rightarrow> (u64 \<Rightarrow> os_client) \<Rightarrow> u64 \<Rightarrow> wait_result list \<Rightarrow> 'x ctx_worker \<Rightarrow> 'x ctx_worker option" where
  "worker_run T E Os now rs w =
     worker_loop T E Os rs (w\<lparr>worker_connection_num := 0, m_latest_tick_time_monotonic := now\<rparr>)"

end
