(* ===== verification/Worker_Inv.thy ===== *)
theory Worker_Inv
  imports Worker_Loop
begin

text \<open>
  The invariant of a whole worker and its preservation. Every connection of the pool other than
  the tunnel is a live client; a client that the application has not been told of has its
  timeout timer. The lemmas about the event loop are proved once, in a locale that states what a
  task's context promises about its operations; the tasks interpret it.
\<close>

section \<open>The invariant\<close>

definition timer_ok :: "nat \<Rightarrow> 'x ctx_worker \<Rightarrow> bool" where
  "timer_ok i w \<longleftrightarrow> (ctx_notified i w \<or> ctx_timer i w \<noteq> None) \<and>
     (\<forall>t. ctx_timer i w = Some t \<longrightarrow> m_callback t = Some (fd (w_conn i w)) \<and> m_repeated_times t = 1)"

definition clients_ok :: "nat set \<Rightarrow> 'x ctx_worker \<Rightarrow> bool" where
  "clients_ok X w \<longleftrightarrow>
     worker_inv w \<and> (\<forall>j. tunnel_slot w = Some j \<longrightarrow> ctx_ptr (w_conn j w) = None) \<and>
     (\<forall>g. tm_abs (m_conn_timeout_timer_manager w) g \<noteq> None \<longrightarrow>
        (\<exists>j \<in> using_set (worker_connection_mgr w). tunnel_slot w \<noteq> Some j \<and> gid (w_conn j w) = g)) \<and>
     (\<forall>j \<in> using_set (worker_connection_mgr w). j \<notin> X \<and> tunnel_slot w \<noteq> Some j \<longrightarrow> ctx_live j w \<and> timer_ok j w)"

abbreviation worker_ok :: "'x ctx_worker \<Rightarrow> bool" where
  "worker_ok \<equiv> clients_ok {}"

lemma clients_okD:
  assumes "clients_ok X w"
  shows "worker_inv w" "mgr_inv (worker_connection_mgr w)" "tunnel_slot w = Some j \<Longrightarrow> ctx_ptr (w_conn j w) = None"
    "j \<in> using_set (worker_connection_mgr w) \<Longrightarrow> j \<notin> X \<Longrightarrow> tunnel_slot w \<noteq> Some j \<Longrightarrow> ctx_live j w \<and> timer_ok j w"
    "tm_abs (m_conn_timeout_timer_manager w) g \<noteq> None \<Longrightarrow>
       \<exists>j \<in> using_set (worker_connection_mgr w). tunnel_slot w \<noteq> Some j \<and> gid (w_conn j w) = g"
  using assms by (auto simp: clients_ok_def worker_inv_def)

lemma using_ids:
  assumes "mgr_inv m" "i \<in> using_set m" "j \<in> using_set m" "i \<noteq> j"
  shows "fd (conn_at i m) \<noteq> fd (conn_at j m)" "gid (conn_at i m) \<noteq> gid (conn_at j m)"
  using using_get_conn [OF assms(1,2)] using_get_conn [OF assms(1,3)] assms(4)
    get_conn_facts(4) [OF assms(1) using_get_conn [OF assms(1,2)]] get_conn_facts(4) [OF assms(1) using_get_conn [OF assms(1,3)]]
  by auto

text \<open>A live client depends only on its own connection, its row of the poller and the tunnel's descriptor.\<close>

lemma ctx_live_cong:
  assumes "ctx_live j w" "worker_inv w'" "j \<in> using_set (worker_connection_mgr w')" "w_conn j w' = w_conn j w"
    "tunnel_fd w' = tunnel_fd w"
    "k_interest (epoller w') (fd (w_conn j w)) = k_interest (epoller w) (fd (w_conn j w))"
  shows "ctx_live j w'"
proof -
  have "m_sockfd sock \<noteq> fd (w_conn j w)" if "main_worker_tunnel w' = Some sock" for sock
    using ctx_live_facts(7) [OF assms(1)] that unfolding assms(5) [symmetric] by (auto simp: tunnel_fd_def)
  then show ?thesis using assms by (auto simp: ctx_live_def ctx_ok_def ctx_attached_def)
qed

lemma timer_ok_cong:
  assumes "timer_ok j w" "w_conn j w' = w_conn j w"
    "tm_abs (m_conn_timeout_timer_manager w') (gid (w_conn j w)) = tm_abs (m_conn_timeout_timer_manager w) (gid (w_conn j w))"
  shows "timer_ok j w'"
  using assms by (auto simp: timer_ok_def ctx_notified_def)

text \<open>Steps on one connection keep the others.\<close>

lemma clients_ok_rest:
  assumes "clients_ok X w" "same_rest i w w'" "worker_inv w'" "i \<in> using_set (worker_connection_mgr w)" "tunnel_slot w \<noteq> Some i"
  shows "clients_ok (insert i X) w'"
proof -
  note ok = clients_okD [OF assms(1)] and s = same_rest_id [OF assms(2)]
  have "ctx_live j w' \<and> timer_ok j w'"
    if j: "j \<in> using_set (worker_connection_mgr w')" "j \<notin> insert i X" "tunnel_slot w' \<noteq> Some j" for j
  proof -
    have u: "j \<in> using_set (worker_connection_mgr w)" using j(1) assms(2) by (simp add: same_rest_def)
    have o: "ctx_live j w" "timer_ok j w" using ok(4) [OF u] j(2,3) s(5) by auto
    have c: "w_conn j w' = w_conn j w" using same_rest_conn(1) [OF assms(2)] j s(5) by simp
    have ne: "fd (w_conn j w) \<noteq> fd (w_conn i w)" "gid (w_conn j w) \<noteq> gid (w_conn i w)"
      using using_ids [OF ok(2) u assms(4)] j(2) by auto
    have "k_interest (epoller w') (fd (w_conn j w)) = k_interest (epoller w) (fd (w_conn j w))"
      using assms(2) ne(1) ctx_live_facts(7) [OF o(1)] by (simp add: same_rest_def)
    moreover have "tm_abs (m_conn_timeout_timer_manager w') (gid (w_conn j w)) = tm_abs (m_conn_timeout_timer_manager w) (gid (w_conn j w))"
      using assms(2) ne(2) by (simp add: same_rest_def)
    ultimately show ?thesis
      using ctx_live_cong [OF o(1) assms(3) j(1) c s(3)] timer_ok_cong [OF o(2) c] by simp
  qed
  moreover have "ctx_ptr (w_conn j w') = None" if "tunnel_slot w' = Some j" for j
    using that ok(3) [of j] s(5) same_rest_conn(3) [OF assms(2), of j] assms(5) by auto
  moreover have "\<exists>j \<in> using_set (worker_connection_mgr w'). tunnel_slot w' \<noteq> Some j \<and> gid (w_conn j w') = g"
    if t: "tm_abs (m_conn_timeout_timer_manager w') g \<noteq> None" for g
  proof (cases "g = gid (w_conn i w)")
    case True
    then show ?thesis using assms(2,4,5) s by (intro bexI [of _ i]) (auto simp: same_rest_def)
  next
    case False
    then have "tm_abs (m_conn_timeout_timer_manager w) g \<noteq> None" using t assms(2) by (simp add: same_rest_def)
    then obtain j where j: "j \<in> using_set (worker_connection_mgr w)" "tunnel_slot w \<noteq> Some j" "gid (w_conn j w) = g"
      using ok(5) by blast
    then have "j \<noteq> i" using False by auto
    then have "w_conn j w' = w_conn j w" using same_rest_conn(1) [OF assms(2)] j(2) by simp
    then show ?thesis using j s(5) assms(2) by (intro bexI [of _ j]) (auto simp: same_rest_def)
  qed
  ultimately show ?thesis using assms(3) unfolding clients_ok_def by blast
qed

lemma clients_ok_insert:
  assumes "clients_ok (insert i X) w" "ctx_live i w" "timer_ok i w"
  shows "clients_ok X w"
  using assms by (auto simp: clients_ok_def)

lemma clients_ok_run:
  assumes "clients_ok X w" "ctx_run i w w'" "ctx_live i w" "i \<notin> X"
  shows "clients_ok X w'"
proof -
  have l: "ctx_live i w'" using assms(2) by (rule ctx_run_live)
  have u: "i \<in> using_set (worker_connection_mgr w)" using assms(3) by (simp add: ctx_live_def ctx_ok_def)
  note t = ctx_live_facts(6) [OF assms(3)]
  have s: "same_rest i w w'" using assms(2) by (simp add: ctx_run_def)
  have "timer_ok i w" using clients_okD(4) [OF assms(1) u assms(4) t] by simp
  then have "timer_ok i w'" using assms(2) same_rest_id(1) [OF s] by (auto simp: timer_ok_def ctx_run_def)
  then show ?thesis using clients_ok_insert [OF clients_ok_rest [OF assms(1) s ctx_live_facts(1) [OF l] u t] l] by simp
qed

lemma clients_ok_removed:
  assumes "clients_ok X w" "client_removed i w w'" "worker_inv w'" "i \<in> using_set (worker_connection_mgr w)" "tunnel_slot w \<noteq> Some i"
  shows "clients_ok (X - {i}) w'"
proof -
  note ok = clients_okD [OF assms(1)]
  have tf: "tunnel_fd w' = tunnel_fd w" by (rule tunnel_in_fd) (use assms(2) in \<open>simp add: client_removed_def\<close>)
  obtain sock k where t: "main_worker_tunnel w = Some sock" "get_conn (m_sockfd sock) (worker_connection_mgr w) = Some k"
    using ok(1) by (rule worker_inv_tunnel)
  have "m_sockfd sock \<noteq> fd (w_conn i w)"
    using using_get_conn [OF ok(2) assms(4)] t assms(5) by (auto simp: tunnel_slot_def tunnel_fd_def)
  then have ts: "tunnel_slot w' = tunnel_slot w"
    using assms(2) t by (simp add: tunnel_slot_def tf client_removed_def) (simp add: tunnel_fd_def)
  have "ctx_live j w' \<and> timer_ok j w'"
    if j: "j \<in> using_set (worker_connection_mgr w')" "j \<notin> X - {i}" "tunnel_slot w' \<noteq> Some j" for j
  proof -
    have u: "j \<in> using_set (worker_connection_mgr w)" "j \<noteq> i" using j(1) assms(2) by (simp_all add: client_removed_def)
    have o: "ctx_live j w" "timer_ok j w" using ok(4) [OF u(1)] j(2,3) u(2) ts by auto
    have c: "w_conn j w' = w_conn j w" using assms(2) j(3) u(2) ts by (simp add: client_removed_def)
    have ne: "fd (w_conn j w) \<noteq> fd (w_conn i w)" "gid (w_conn j w) \<noteq> gid (w_conn i w)"
      using using_ids [OF ok(2) u(1) assms(4) u(2)] by auto
    have "k_interest (epoller w') (fd (w_conn j w)) = k_interest (epoller w) (fd (w_conn j w))"
      using assms(2) ne(1) ctx_live_facts(7) [OF o(1)] by (simp add: client_removed_def)
    moreover have "tm_abs (m_conn_timeout_timer_manager w') (gid (w_conn j w)) = tm_abs (m_conn_timeout_timer_manager w) (gid (w_conn j w))"
      using assms(2) ne(2) by (simp add: client_removed_def)
    ultimately show ?thesis
      using ctx_live_cong [OF o(1) assms(3) j(1) c tf] timer_ok_cong [OF o(2) c] by simp
  qed
  moreover have "ctx_ptr (w_conn j w') = None" if "tunnel_slot w' = Some j" for j
    using that ok(3) [of j] ts assms(2,5) by (auto simp: client_removed_def)
  moreover have "\<exists>j \<in> using_set (worker_connection_mgr w'). tunnel_slot w' \<noteq> Some j \<and> gid (w_conn j w') = g"
    if t: "tm_abs (m_conn_timeout_timer_manager w') g \<noteq> None" for g
  proof -
    have g: "g \<noteq> gid (w_conn i w)" using t assms(2) by (auto simp: client_removed_def)
    then have "tm_abs (m_conn_timeout_timer_manager w) g \<noteq> None" using t assms(2) by (simp add: client_removed_def)
    then obtain j where j: "j \<in> using_set (worker_connection_mgr w)" "tunnel_slot w \<noteq> Some j" "gid (w_conn j w) = g"
      using ok(5) by blast
    then have "j \<noteq> i" using g by auto
    then show ?thesis using assms(2) j ts by (intro bexI [of _ j]) (auto simp: client_removed_def)
  qed
  ultimately show ?thesis using assms(3) unfolding clients_ok_def by blast
qed

section \<open>The tunnel is kept\<close>

definition tunnel_kept :: "'c worker \<Rightarrow> 'c worker \<Rightarrow> bool" where
  "tunnel_kept w w' \<longleftrightarrow> tunnel_in w' = tunnel_in w \<and> tunnel_slot w' = tunnel_slot w \<and> m_timeout_fd w' = m_timeout_fd w \<and>
     (\<forall>j. tunnel_slot w = Some j \<longrightarrow> recv_buffer (w_conn j w') = recv_buffer (w_conn j w))"

lemma tunnel_kept_refl: "tunnel_kept w w"
  by (simp add: tunnel_kept_def)

lemma tunnel_kept_trans: "tunnel_kept w w' \<Longrightarrow> tunnel_kept w' w'' \<Longrightarrow> tunnel_kept w w''"
  by (simp add: tunnel_kept_def)

definition good :: "'x ctx_worker \<Rightarrow> 'x ctx_worker \<Rightarrow> bool" where
  "good w w' \<longleftrightarrow> worker_ok w' \<and> tunnel_kept w w'"

lemma good_refl: "worker_ok w \<Longrightarrow> good w w"
  by (simp add: good_def tunnel_kept_refl)

lemma good_trans: "good w w' \<Longrightarrow> good w' w'' \<Longrightarrow> good w w''"
  by (auto simp: good_def intro: tunnel_kept_trans)

lemma good_fold:
  assumes "worker_ok w" "\<And>x w. x \<in> set xs \<Longrightarrow> worker_ok w \<Longrightarrow> good w (F x w)"
  shows "good w (fold F xs w)"
  using assms
proof (induction xs arbitrary: w)
  case (Cons x xs)
  have g: "good w (F x w)" using Cons.prems by simp
  then have "good (F x w) (fold F xs (F x w))" using Cons.IH [of "F x w"] Cons.prems(2) by (simp add: good_def)
  then show ?case using good_trans [OF g] by simp
qed (simp add: good_refl)

lemma kept_same_rest:
  assumes "same_rest i w w'" "tunnel_slot w \<noteq> Some i"
  shows "tunnel_kept w w'"
  using assms same_rest_id(5) [OF assms(1)] same_rest_conn(2) [OF assms(1)] by (auto simp: tunnel_kept_def same_rest_def)

lemma kept_removed:
  assumes "client_removed i w w'" "worker_inv w" "i \<in> using_set (worker_connection_mgr w)" "tunnel_slot w \<noteq> Some i"
  shows "tunnel_kept w w'"
proof -
  have tf: "tunnel_fd w' = tunnel_fd w" by (rule tunnel_in_fd) (use assms(1) in \<open>simp add: client_removed_def\<close>)
  obtain sock k where t: "main_worker_tunnel w = Some sock" "get_conn (m_sockfd sock) (worker_connection_mgr w) = Some k"
    using assms(2) by (rule worker_inv_tunnel)
  have "m_sockfd sock \<noteq> fd (w_conn i w)"
    using using_get_conn [OF worker_invD(1) [OF assms(2)] assms(3)] t assms(4) by (auto simp: tunnel_slot_def tunnel_fd_def)
  then have "tunnel_slot w' = tunnel_slot w"
    using assms(1) t by (simp add: tunnel_slot_def tf client_removed_def) (simp add: tunnel_fd_def)
  then show ?thesis using assms(1,4) by (auto simp: tunnel_kept_def client_removed_def)
qed

lemma good_run:
  assumes "worker_ok w" "ctx_live i w" "ctx_run i w w'"
  shows "good w w'"
  using clients_ok_run [OF assms(1,3,2)] kept_same_rest [of i w w'] ctx_live_facts(6) [OF assms(2)] assms(3)
  by (auto simp: good_def ctx_run_def)

text \<open>Closing a descriptor other than the tunnel's.\<close>

lemma close_client_ok:
  assumes "clients_ok X w" "tunnel_fd w \<noteq> Some f" "X \<subseteq> {i. get_conn f (worker_connection_mgr w) = Some i}"
  shows "worker_ok (close_client_fd h f w)" "tunnel_kept w (close_client_fd h f w)"
proof -
  note ok = clients_okD [OF assms(1)]
  have ne: "\<And>sock. main_worker_tunnel w = Some sock \<Longrightarrow> m_sockfd sock \<noteq> f" using assms(2) by (auto simp: tunnel_fd_def)
  have inv: "worker_inv (close_client_fd h f w)" by (rule close_client_fd_inv(1) [OF ok(1) ne])
  have "worker_ok (close_client_fd h f w) \<and> tunnel_kept w (close_client_fd h f w)"
  proof (cases "get_conn f (worker_connection_mgr w)")
    case None
    have "k_interest (epoller w) f = None" using None worker_invD(6) [OF ok(1), of f] by blast
    then have k: "k_close f (epoller w) = epoller w" by (simp add: k_close_def fun_upd_idem)
    have X: "X = {}" using assms(3) None by auto
    let ?w' = "close_client_fd h f w"
    have w': "worker_connection_mgr ?w' = worker_connection_mgr w" "epoller ?w' = epoller w"
        "m_conn_timeout_timer_manager ?w' = m_conn_timeout_timer_manager w"
      using None k by (simp_all add: close_client_fd_def Let_def)
    have ts: "tunnel_slot ?w' = tunnel_slot w" "tunnel_fd ?w' = tunnel_fd w" "tunnel_in ?w' = tunnel_in w"
      by (simp_all add: tunnel_slot_def tunnel_fd_def tunnel_in_def w')
    have "ctx_live j ?w' \<and> timer_ok j ?w'"
      if "j \<in> using_set (worker_connection_mgr w)" "tunnel_slot w \<noteq> Some j" for j
      using ok(4) [OF that(1) _ that(2)] X ctx_live_cong [of j w ?w'] timer_ok_cong [of j w ?w'] inv that(1) w' ts by auto
    then show ?thesis using inv ok(3,5) ts w' by (auto simp: clients_ok_def tunnel_kept_def)
  next
    case (Some i)
    have u: "i \<in> using_set (worker_connection_mgr w)" "fd (w_conn i w) = f" using get_conn_facts [OF ok(2) Some] by simp_all
    have t: "tunnel_slot w \<noteq> Some i"
      using assms(2) u(2) get_conn_facts(2) [OF ok(2)] by (cases "tunnel_fd w") (auto simp: tunnel_slot_def)
    have r: "client_removed i w (close_client_fd h f w)" by (rule close_client_removed [OF ok(1) Some])
    have X: "X - {i} = {}" using assms(3) Some by auto
    show ?thesis
      using clients_ok_removed [OF assms(1) r inv u(1) t, unfolded X] kept_removed [OF r ok(1) u(1) t] by simp
  qed
  then show "worker_ok (close_client_fd h f w)" "tunnel_kept w (close_client_fd h f w)" by simp_all
qed

lemma good_close: "worker_ok w \<Longrightarrow> tunnel_fd w \<noteq> Some f \<Longrightarrow> good w (close_client_fd h f w)"
  using close_client_ok [of "{}" w f h] by (simp add: good_def)

text \<open>The sending side of the tunnel.\<close>

lemma clients_ok_tunnel_only:
  assumes "clients_ok X w" "tunnel_only w w'" "worker_inv w'"
  shows "clients_ok X w'" "tunnel_kept w w'"
proof -
  note ok = clients_okD [OF assms(1)]
  note c = tunnel_only_conn [OF assms(2) ok(1)]
  obtain sock sock' where t: "main_worker_tunnel w = Some sock" "main_worker_tunnel w' = Some sock'"
      "m_sockfd sock' = m_sockfd sock" "k_rx sock' = k_rx sock" "m_conn_timeout_timer_manager w' = m_conn_timeout_timer_manager w"
      "m_timeout_fd w' = m_timeout_fd w"
    using assms(2) unfolding tunnel_only_def by blast
  have ts: "tunnel_in w' = tunnel_in w" "tunnel_slot w' = tunnel_slot w" "tunnel_slot w = get_conn (m_sockfd sock) (worker_connection_mgr w)"
    using t c(10) by (simp_all add: tunnel_in_def tunnel_slot_def tunnel_fd_def)
  have "ctx_live j w' \<and> timer_ok j w'"
    if j: "j \<in> using_set (worker_connection_mgr w')" "j \<notin> X" "tunnel_slot w' \<noteq> Some j" for j
  proof -
    have o: "ctx_live j w" "timer_ok j w" using ok(4) [of j] j ts c(9) by auto
    have "w_conn j w' = w_conn j w" using c(12) [OF t(1)] j(3) ts by simp
    then show ?thesis using ctx_live_tunnel_only [OF o(1) assms(2,3)] timer_ok_cong [OF o(2), of w'] t(5) by simp
  qed
  then show "clients_ok X w'" using assms(3) ok(3,5) ts c(3,5,9) t(5) by (auto simp: clients_ok_def)
  show "tunnel_kept w w'" using ts c(1) t(6) by (simp add: tunnel_kept_def)
qed

lemma tunnel_forward_inv: "worker_inv w \<Longrightarrow> worker_inv (snd (tunnel_forward E dest msg flush w))"
  using tunnel_forward_ok [of w E dest msg flush] tunnel_forward_refused [of E dest msg flush w]
  by (cases "forward_filter E dest = []") (auto simp: Let_def split: prod.splits)

lemma good_tunnel_forward:
  assumes "worker_ok w"
  shows "good w (snd (tunnel_forward E dest msg flush w))"
proof -
  have inv: "worker_inv w" using clients_okD(1) [OF assms] .
  show ?thesis
    using clients_ok_tunnel_only [OF assms tunnel_forward_only [OF inv] tunnel_forward_inv [OF inv]] by (simp add: good_def)
qed

lemma good_flush_tunnel:
  assumes "worker_ok w"
  shows "good w (try_send_flush_tunnel w)"
proof -
  have inv: "worker_inv w" using clients_okD(1) [OF assms] .
  show ?thesis
    using clients_ok_tunnel_only [OF assms try_send_flush_tunnel_only [OF inv] try_send_flush_tunnel_facts(1) [OF inv]] by (simp add: good_def)
qed


section \<open>A connection under construction\<close>

text \<open>The pool's connection \<open>i\<close> for descriptor \<open>f\<close> is no client yet; all others are.\<close>

definition new_conn :: "nat \<Rightarrow> int \<Rightarrow> 'x ctx_worker \<Rightarrow> bool" where
  "new_conn i f w \<longleftrightarrow> clients_ok {i} w \<and> get_conn f (worker_connection_mgr w) = Some i \<and> tunnel_fd w \<noteq> Some f \<and> 0 \<le> f"

lemma new_connD:
  assumes "new_conn i f w"
  shows "clients_ok {i} w" "worker_inv w" "mgr_inv (worker_connection_mgr w)" "i \<in> using_set (worker_connection_mgr w)"
    "fd (w_conn i w) = f" "tunnel_slot w \<noteq> Some i" "tunnel_fd w \<noteq> Some f" "0 \<le> f"
    "get_conn f (worker_connection_mgr w) = Some i"
proof -
  show n: "clients_ok {i} w" "get_conn f (worker_connection_mgr w) = Some i" "tunnel_fd w \<noteq> Some f" "0 \<le> f"
    using assms by (simp_all add: new_conn_def)
  show m: "worker_inv w" "mgr_inv (worker_connection_mgr w)" using clients_okD [OF n(1)] by simp_all
  show "i \<in> using_set (worker_connection_mgr w)" "fd (w_conn i w) = f" using get_conn_facts [OF m(2) n(2)] by simp_all
  show "tunnel_slot w \<noteq> Some i"
    using n(3) get_conn_facts(2) [OF m(2)] \<open>fd (w_conn i w) = f\<close> by (cases "tunnel_fd w") (auto simp: tunnel_slot_def)
qed

lemma new_conn_rest:
  assumes "new_conn i f w" "same_rest i w w'" "worker_inv w'"
  shows "new_conn i f w'"
proof -
  note n = new_connD [OF assms(1)]
  show ?thesis
    using clients_ok_rest [OF n(1) assms(2,3) n(4,6)] n(7,8,9) same_rest_id(3,4) [OF assms(2)] by (simp add: new_conn_def)
qed

lemma new_conn_close:
  assumes "new_conn i f w"
  shows "good w (close_client_fd h f w)"
  using close_client_ok [of "{i}" w f h] assms by (auto simp: good_def new_conn_def)

lemma alloc_new_conn:
  assumes "worker_ok w" "picks (p_pick E)" "tunnel_fd w \<noteq> Some f" "0 \<le> f"
    "alloc_connection (p_pick E) f g (worker_connection_mgr w) = (0, m)"
  shows "\<exists>i. new_conn i f (w\<lparr>worker_connection_mgr := m\<rparr>) \<and> tunnel_kept w (w\<lparr>worker_connection_mgr := m\<rparr>) \<and>
    gid (conn_at i m) = g"
proof -
  note ok = clients_okD [OF assms(1)]
  let ?m = "worker_connection_mgr w" and ?w = "w\<lparr>worker_connection_mgr := m\<rparr>"
  obtain pool where pool: "connection_pool ?m = Some pool" using ok(2) by (auto simp: mgr_inv_def)
  have free: "fd2gid ?m f = None" "gid2fd ?m g = None" "unused_set ?m \<noteq> {}"
    using assms(5) pool by (auto simp: alloc_connection_def Let_def split: if_splits)
  note a = alloc_ok [OF ok(2) assms(2) free]
  define i where "i = p_pick E (unused_set ?m)"
  have m: "m = snd (alloc_connection (p_pick E) f g ?m)" using assms(5) by simp
  have iu: "i \<in> unused_set ?m" "i \<notin> using_set ?m" and lt: "i < length pool"
    using a(5) ok(2) pool unfolding i_def mgr_inv_def by auto
  have mm: "mgr_inv m" and us: "using_set m = insert i (using_set ?m)" "unused_set m = unused_set ?m - {i}"
      and cp: "connection_pool m = Some (pool[i := on_alloc f g (pool ! i)])"
    using a(1) assms(5) pool by (auto simp: m i_def alloc_connection_def Let_def split: if_splits)
  have ca: "conn_at j m = (if j = i then on_alloc f g (conn_at i ?m) else conn_at j ?m)" for j
    using cp pool lt by (simp add: conn_at_def)
  have gn: "gid2index ?m g = None" using free(2) ok(2) unfolding mgr_inv_def by blast
  have gf: "fd2gid ?m k \<noteq> Some g" for k using free(2) ok(2) unfolding mgr_inv_def by (metis option.distinct(1))
  have gc: "get_conn k m = (if k = f then Some i else get_conn k ?m)" for k
    using a(3,4) gf [of k] by (auto simp: m i_def get_conn_def split: option.splits)
  obtain sock k where t: "main_worker_tunnel w = Some sock" "get_conn (m_sockfd sock) ?m = Some k" "k \<in> using_set ?m"
    "k_interest (epoller w) (m_sockfd sock) \<noteq> None" using ok(1) by (rule worker_inv_tunnel)
  have sf: "m_sockfd sock \<noteq> f" using assms(3) t(1) by (simp add: tunnel_fd_def)
  have ts: "tunnel_slot ?w = tunnel_slot w" "tunnel_slot w = Some k" "tunnel_fd ?w = tunnel_fd w" "tunnel_in ?w = tunnel_in w"
    using t(1,2) sf gc by (simp_all add: tunnel_slot_def tunnel_fd_def tunnel_in_def)
  have inv: "worker_inv ?w"
  proof (rule worker_invI [where sock = sock and i = k])
    fix j assume j: "j < length (the (connection_pool (worker_connection_mgr ?w)))"
    then have jl: "j < length (the (connection_pool ?m))" using cp pool by simp
    have "m_sockfd (socket_obj (conn_at i ?m)) = - 1"
      using worker_invD(5) [OF ok(1), of i] lt pool iu(1) ok(2) unfolding mgr_inv_def conn_at_def by force
    then show "m_sockfd (socket_obj (w_conn j ?w)) = - 1 \<or>
        m_sockfd (socket_obj (w_conn j ?w)) = fd (w_conn j ?w) \<and> 0 \<le> fd (w_conn j ?w)"
      using worker_invD(5) [OF ok(1) jl] by (simp add: ca)
  qed (use ok(1) worker_invD [OF ok(1)] mm t sf gc in auto)
  have "ctx_live j ?w \<and> timer_ok j ?w"
    if j: "j \<in> using_set m" "j \<noteq> i" "tunnel_slot ?w \<noteq> Some j" for j
    using ok(4) [of j] ctx_live_cong [of j w ?w] timer_ok_cong [of j w ?w] j us ca ts inv by auto
  moreover have "\<exists>j \<in> using_set m. tunnel_slot ?w \<noteq> Some j \<and> gid (conn_at j m) = h"
    if "tm_abs (m_conn_timeout_timer_manager w) h \<noteq> None" for h
    using ok(5) [OF that] us iu(2) ts by (auto simp: ca)
  ultimately have "clients_ok {i} ?w"
    using inv ok(3) ts t(3) iu(2) ca by (auto simp: clients_ok_def)
  then have "new_conn i f ?w" using gc assms(3,4) ts(3) by (simp add: new_conn_def)
  moreover have "tunnel_kept w ?w" using ts ca t(3) iu(2) by (auto simp: tunnel_kept_def)
  ultimately show ?thesis using ca by (intro exI [of _ i]) simp
qed

text \<open>The steps of \<^verbatim>\<open>on_new_client_fd\<close> on the new connection.\<close>

lemma same_rest_epoller:
  assumes "fd (w_conn i w) = f" "\<And>k. k \<noteq> f \<Longrightarrow> k_interest p k = k_interest (epoller w) k"
  shows "same_rest i w (w\<lparr>epoller := p\<rparr>)"
  using assms by (simp add: same_rest_def others_def fun_eq_iff tunnel_slot_def tunnel_fd_def tunnel_in_def)

lemma same_rest_timers:
  assumes "\<And>g. g \<noteq> gid (w_conn i w) \<Longrightarrow> tm_abs tm g = tm_abs (m_conn_timeout_timer_manager w) g"
  shows "same_rest i w (w\<lparr>m_conn_timeout_timer_manager := tm\<rparr>)"
  using assms by (simp add: same_rest_def others_def fun_eq_iff tunnel_slot_def tunnel_fd_def tunnel_in_def)

lemma new_conn_upd:
  assumes "new_conn i f w" "fd (h (w_conn i w)) = f" "gid (h (w_conn i w)) = gid (w_conn i w)"
    "m_sockfd (socket_obj (h (w_conn i w))) = - 1 \<or> m_sockfd (socket_obj (h (w_conn i w))) = f"
  shows "new_conn i f (upd_wconn i h w)" "w_conn i (upd_wconn i h w) = h (w_conn i w)" "same_rest i w (upd_wconn i h w)"
proof -
  note n = new_connD [OF assms(1)]
  show c: "w_conn i (upd_wconn i h w) = h (w_conn i w)" using conn_at_upd [OF n(3,4)] by simp
  show s: "same_rest i w (upd_wconn i h w)" by (rule same_rest_upd [OF n(3,4)]) (use assms(2,3) n(5) in simp_all)
  have u: "mgr_inv (upd_conn i h (worker_connection_mgr w))"
    by (rule upd_conn_inv [OF n(3)]) (use assms(2,3) n(4,5) in simp_all)
  have l: "length (the (connection_pool (upd_conn i h (worker_connection_mgr w)))) = length (the (connection_pool (worker_connection_mgr w)))"
    using n(3) by (auto simp: mgr_inv_def upd_conn_def)
  have "worker_inv (upd_wconn i h w)"
    using n(2) u l assms(2,4) n(8) conn_at_upd [OF n(3,4), of _ h] by (simp add: worker_inv_def)
  then show "new_conn i f (upd_wconn i h w)" by (rule new_conn_rest [OF assms(1) s])
qed

lemma new_conn_poller:
  assumes "new_conn i f w" "poller_add f ev et (epoller w) = (iret, p)"
  shows "new_conn i f (w\<lparr>epoller := p\<rparr>)" "same_rest i w (w\<lparr>epoller := p\<rparr>)" "iret = 0 \<Longrightarrow> k_interest p f \<noteq> None"
proof -
  note n = new_connD [OF assms(1)]
  have pi: "poller_inv (epoller w)" "m_epfd (epoller w) \<ge> 0" using worker_invD [OF n(2)] by simp_all
  note a = poller_add_inv(1,2) [OF pi(1), of f ev et, unfolded assms(2), simplified]
  show s: "same_rest i w (w\<lparr>epoller := p\<rparr>)" by (rule same_rest_epoller [OF n(5)]) (rule poller_add_inv(3) [OF pi(1), of _ f ev et, unfolded assms(2), simplified])
  show "iret = 0 \<Longrightarrow> k_interest p f \<noteq> None" using a(2) by simp
  have e: "m_epfd p = m_epfd (epoller w)"
    using assms(2) by (auto simp: poller_add_def poller_ctrl_def epoll_ctl_def Let_def split: if_splits list.splits)
  obtain sock k where t: "main_worker_tunnel w = Some sock" "get_conn (m_sockfd sock) (worker_connection_mgr w) = Some k"
      "k_interest (epoller w) (m_sockfd sock) \<noteq> None"
    using n(2) by (rule worker_inv_tunnel)
  have o: "k \<noteq> f \<Longrightarrow> k_interest p k = k_interest (epoller w) k" for k
    using poller_add_inv(3) [OF pi(1), of k f ev et] assms(2) by simp
  have reg: "k_interest p j \<noteq> None \<Longrightarrow> get_conn j (worker_connection_mgr w) \<noteq> None" for j
    using o [of j] worker_invD(6) [OF n(2), of j] n(9) by (cases "j = f") auto
  have "m_sockfd sock \<noteq> f" using n(7) t(1) by (simp add: tunnel_fd_def)
  then have "worker_inv (w\<lparr>epoller := p\<rparr>)"
    using worker_invD(1,2,5) [OF n(2)] a(1) e pi(2) t o reg by (intro worker_invI [where sock = sock and i = k]) auto
  then show "new_conn i f (w\<lparr>epoller := p\<rparr>)" by (rule new_conn_rest [OF assms(1) s])
qed

lemma new_conn_timer:
  assumes "new_conn i f w" "tm_inv tm" "\<And>g. g \<noteq> gid (w_conn i w) \<Longrightarrow> tm_abs tm g = tm_abs (m_conn_timeout_timer_manager w) g"
  shows "new_conn i f (w\<lparr>m_conn_timeout_timer_manager := tm\<rparr>)"
proof -
  have "worker_inv (w\<lparr>m_conn_timeout_timer_manager := tm\<rparr>)"
    using new_connD(2) [OF assms(1)] assms(2) by (simp add: worker_inv_def)
  then show ?thesis using new_conn_rest [OF assms(1) same_rest_timers] assms(3) by blast
qed


section \<open>What a task promises\<close>

text \<open>
  A connection that is ready for its context: registered, with its socket and its timer; the
  context is allocated, possibly left over from an earlier connection of the slot.
\<close>

definition ctx_ready :: "nat \<Rightarrow> 'x ctx_worker \<Rightarrow> bool" where
  "ctx_ready i w \<longleftrightarrow> worker_inv w \<and> i \<in> using_set (worker_connection_mgr w) \<and> ctx_ptr (w_conn i w) \<noteq> None \<and>
     m_sockfd (socket_obj (w_conn i w)) = fd (w_conn i w) \<and> 0 \<le> fd (w_conn i w) \<and>
     tunnel_fd w \<noteq> Some (fd (w_conn i w)) \<and> k_interest (epoller w) (fd (w_conn i w)) \<noteq> None"

locale client_task =
  fixes T :: "'x task"
  assumes event_open: "ctx_live i w \<Longrightarrow> \<not> ctx_closing i ev w \<Longrightarrow> ctx_run i w (t_event T i ev w)"
    and event_closing: "ctx_live i w \<Longrightarrow> ctx_closing i ev w \<Longrightarrow>
          client_removed i w (t_event T i ev w) \<and> worker_inv (t_event T i ev w)"
    and forward_run: "ctx_live i w \<Longrightarrow> ctx_run i w (t_forward T i m w)"
    and create_live: "ctx_ready i w \<Longrightarrow> ctx_live i (t_create T i w) \<and> same_rest i w (t_create T i w) \<and>
          (ctx_timer i (t_create T i w) = ctx_timer i w \<or> ctx_timer i (t_create T i w) = None \<and> ctx_notified i (t_create T i w))"
begin

lemma good_event:
  assumes "worker_ok w" "ctx_live i w"
  shows "good w (t_event T i ev w)"
proof (cases "ctx_closing i ev w")
  case True
  note e = event_closing [OF assms(2) True] and l = ctx_live_facts [OF assms(2)]
  have u: "i \<in> using_set (worker_connection_mgr w)" using assms(2) by (simp add: ctx_live_def ctx_ok_def)
  show ?thesis
    using clients_ok_removed [OF assms(1) _ _ u l(6)] kept_removed [OF _ l(1) u l(6)] e by (auto simp: good_def)
next
  case False
  show ?thesis by (rule good_run [OF assms event_open [OF assms(2) False]])
qed

lemma good_client_event:
  assumes "worker_ok w" "tunnel_fd w \<noteq> Some f"
  shows "good w (on_client_event T f ev w)"
proof (cases "get_conn f (worker_connection_mgr w)")
  case None
  then show ?thesis using good_close [OF assms] good_refl [OF assms(1)] by (simp add: on_client_event_def)
next
  case (Some i)
  note ok = clients_okD [OF assms(1)] and c = get_conn_facts [OF clients_okD(2) [OF assms(1)] Some]
  have "tunnel_slot w \<noteq> Some i"
    using assms(2) c(2) get_conn_facts(2) [OF ok(2)] by (cases "tunnel_fd w") (auto simp: tunnel_slot_def)
  then have "ctx_live i w" using ok(4) c(1) by simp
  then show ?thesis using Some good_event [OF assms(1)] by (simp add: on_client_event_def)
qed

lemma good_handle_forward:
  assumes "worker_ok w" "i \<in> using_set (worker_connection_mgr w)"
  shows "good w (handle_tunnel_client_forward_message T i m w)"
proof (cases "ctx_ptr (w_conn i w) = None")
  case True
  then show ?thesis
    using good_refl [OF assms(1)] by (simp add: handle_tunnel_client_forward_message_def split: task_type.splits)
next
  case False
  then have "tunnel_slot w \<noteq> Some i" using clients_okD(3) [OF assms(1), of i] by auto
  then have l: "ctx_live i w" using clients_okD(4) [OF assms(1) assms(2)] by simp
  show ?thesis
    using good_refl [OF assms(1)] good_run [OF assms(1) l forward_run [OF l, of m]]
    by (simp add: handle_tunnel_client_forward_message_def split: task_type.splits)
qed

lemma client_setup_ok:
  assumes "new_conn i f w" "ctx_ptr (w_conn i w) \<noteq> None"
  shows "good w (client_setup T E oc i f w)"
    "\<not> p_use_ssl E \<Longrightarrow> fst (poller_add f RWE False (epoller w)) = 0 \<Longrightarrow>
       get_conn f (worker_connection_mgr (client_setup T E oc i f w)) = Some i \<and> gid (w_conn i (client_setup T E oc i f w)) = gid (w_conn i w)"
proof -
  note n = new_connD [OF assms(1)]
  define w3 where "w3 = upd_wconn i (socket_obj_update (client_socket f oc)) w"
  have 3: "new_conn i f w3" "w_conn i w3 = socket_obj_update (client_socket f oc) (w_conn i w)" "same_rest i w w3"
    using new_conn_upd [OF assms(1), of "socket_obj_update (client_socket f oc)"] n(5)
    by (simp_all add: w3_def client_socket_def socket_set_fd_def)
  obtain iret p where p: "poller_add f RWE False (epoller w3) = (iret, p)" by fastforce
  define w4 where "w4 = w3\<lparr>epoller := p\<rparr>"
  have 4: "new_conn i f w4" "same_rest i w3 w4" "iret = 0 \<Longrightarrow> k_interest (epoller w4) f \<noteq> None"
      "w_conn i w4 = socket_obj_update (client_socket f oc) (w_conn i w)"
    using new_conn_poller [OF 3(1) p] 3(2) by (simp_all add: w4_def)
  let ?ssl = "socket_obj_update (\<lambda>s. set_ssl_accepted False (set_ssl_instance True s)) :: 'a client_ctx_scheme connection \<Rightarrow> _"
  define w5 where "w5 = (if p_use_ssl E then upd_wconn i ?ssl w4 else w4)"
  have u: "new_conn i f (upd_wconn i ?ssl w4)" "w_conn i (upd_wconn i ?ssl w4) = ?ssl (w_conn i w4)" "same_rest i w4 (upd_wconn i ?ssl w4)"
    using new_conn_upd [OF 4(1), of ?ssl] 4(4) new_connD(5) [OF 4(1)]
    by (simp_all add: client_socket_def socket_set_fd_def set_ssl_accepted_def set_ssl_instance_def)
  have 5: "new_conn i f w5" "same_rest i w4 w5" "fd (w_conn i w5) = f" "ctx_ptr (w_conn i w5) \<noteq> None"
      "m_sockfd (socket_obj (w_conn i w5)) = f" "epoller w5 = epoller w4"
    using u 4(1,4) same_rest_refl [of i w4] new_connD(5) [OF 4(1)] new_connD(5) [OF u(1)] assms(2)
    by (auto simp: w5_def client_socket_def socket_set_fd_def set_ssl_accepted_def set_ssl_instance_def)
  define t where "t = timeout_timer (gid (w_conn i w5)) (m_latest_tick_time_monotonic w5) f"
  have t: "armed t" "m_id t = gid (w_conn i w5)" "m_callback t = Some f" "m_repeated_times t = 1"
    by (simp_all add: t_def timeout_timer_def timer_new_def armed_def)
  have "tm_inv (m_conn_timeout_timer_manager w5)" using worker_invD(2) [OF new_connD(2) [OF 5(1)]] .
  with t(1) obtain tm where tm: "tm_add (Some t) (m_conn_timeout_timer_manager w5) = (Some t, tm)" "tm_inv tm"
      "tm_abs tm = (tm_abs (m_conn_timeout_timer_manager w5))(m_id t \<mapsto> t)" by (rule tm_add_accepted)
  define w6 where "w6 = w5\<lparr>m_conn_timeout_timer_manager := tm\<rparr>"
  have 6: "new_conn i f w6" unfolding w6_def by (rule new_conn_timer [OF 5(1) tm(2)]) (simp add: tm(3) t(2))
  have s6: "same_rest i w5 w6" unfolding w6_def by (rule same_rest_timers) (simp add: tm(3) t(2))
  have fin: "good w (t_create T i w6)" "get_conn f (worker_connection_mgr (t_create T i w6)) = Some i"
      "gid (w_conn i (t_create T i w6)) = gid (w_conn i w)" if "iret = 0"
  proof -
    have "ctx_ready i w6"
      using new_connD [OF 6] 5(3-6) 4(3) that by (auto simp: ctx_ready_def w6_def)
    note c = create_live [OF this]
    have "ctx_timer i w6 = Some t" by (simp add: w6_def tm(3) t(2))
    then have "timer_ok i (t_create T i w6)"
      using c same_rest_id(1) [of i w6 "t_create T i w6"] t 5(3) by (auto simp: timer_ok_def w6_def)
    moreover have "new_conn i f (t_create T i w6)" using new_conn_rest [OF 6] c ctx_live_facts(1) by blast
    ultimately have "worker_ok (t_create T i w6)"
      using clients_ok_insert [of i "{}"] c by (auto simp: new_conn_def)
    moreover have sr: "same_rest i w (t_create T i w6)"
      using same_rest_trans [OF 3(3) same_rest_trans [OF 4(2) same_rest_trans [OF 5(2) same_rest_trans [OF s6]]]] c by blast
    ultimately show "good w (t_create T i w6)" using kept_same_rest n(6) by (auto simp: good_def)
    show "gid (w_conn i (t_create T i w6)) = gid (w_conn i w)" by (rule same_rest_id(2) [OF sr])
    have "fd (w_conn i (t_create T i w6)) = f" using same_rest_id(1) [of i w6] c 5(3) by (simp add: w6_def)
    then show "get_conn f (worker_connection_mgr (t_create T i w6)) = Some i"
      using ctx_live_facts(2) [of i "t_create T i w6"] c by simp
  qed
  have k: "tunnel_kept w w4" "tunnel_kept w w6"
    using kept_same_rest [OF same_rest_trans [OF 3(3) 4(2)] n(6)]
      kept_same_rest [OF same_rest_trans [OF 3(3) same_rest_trans [OF 4(2) same_rest_trans [OF 5(2) s6]]] n(6)] by simp_all
  have "good w (close_client_fd ctx_on_close f w4)"
    using new_conn_close [OF 4(1)] k(1) by (auto simp: good_def intro: tunnel_kept_trans)
  moreover have cs: "client_setup T E oc i f w =
      (if iret \<noteq> 0 \<or> p_use_ssl E \<and> (m_ssl_instance (socket_obj (w_conn i w4)) \<or> \<not> oc_ssl oc)
       then close_client_fd ctx_on_close f w4 else t_create T i w6)"
    unfolding client_setup_def Let_def w3_def [symmetric] p prod.case w4_def [symmetric] w5_def [symmetric] t_def [symmetric]
      tm(1) w6_def [symmetric] by auto
  ultimately show "good w (client_setup T E oc i f w)" using fin(1) by auto
  have "epoller w3 = epoller w" by (simp add: w3_def)
  then show "get_conn f (worker_connection_mgr (client_setup T E oc i f w)) = Some i \<and> gid (w_conn i (client_setup T E oc i f w)) = gid (w_conn i w)"
    if "\<not> p_use_ssl E" "fst (poller_add f RWE False (epoller w)) = 0"
    using that fin(2,3) p unfolding cs by simp
qed

lemma good_new_client:
  assumes "worker_ok w" "picks (p_pick E)" "tunnel_fd w \<noteq> Some f"
  shows "good w (on_new_client_fd T E Os f g w)"
proof (cases "f < 0")
  case True
  then show ?thesis using good_refl [OF assms(1)] by (simp add: on_new_client_fd_def)
next
  case False
  obtain iret m where a: "alloc_connection (p_pick E) f g (worker_connection_mgr w) = (iret, m)" by fastforce
  show ?thesis
  proof (cases "iret = 0")
    case nz: False
    then have "m = worker_connection_mgr w" using a by (auto simp: alloc_connection_def Let_def split: option.splits if_splits)
    then show ?thesis using a False nz good_close [OF assms(1,3)] by (simp add: on_new_client_fd_def)
  next
    case z: True
    let ?w1 = "w\<lparr>worker_connection_mgr := m\<rparr>"
    obtain i where i: "new_conn i f ?w1" "tunnel_kept w ?w1"
      using alloc_new_conn [OF assms, of g m] a z False by auto
    note n = new_connD [OF i(1)]
    have cl: "good w (close_client_fd ctx_on_close f ?w1)"
      using new_conn_close [OF i(1)] i(2) by (auto simp: good_def intro: tunnel_kept_trans)
    let ?w2 = "upd_wconn i (ctx_ptr_update (\<lambda>_. Some (t_new T))) ?w1"
    have sk: "m_sockfd (socket_obj (w_conn i ?w1)) = - 1 \<or> m_sockfd (socket_obj (w_conn i ?w1)) = f"
      using worker_invD(5) [OF n(2), of i] mgr_inv_used [OF n(3,4)] n(5) by auto
    have 2: "new_conn i f ?w2" "w_conn i ?w2 = ctx_ptr_update (\<lambda>_. Some (t_new T)) (w_conn i ?w1)" "same_rest i ?w1 ?w2"
      using new_conn_upd [OF i(1), of "ctx_ptr_update (\<lambda>_. Some (t_new T))"] n(5) sk by simp_all
    have s2: "good w (client_setup T E (Os g) i f ?w2)"
      using client_setup_ok(1) [OF 2(1), of E "Os g"] 2(2) i(2) kept_same_rest [OF 2(3) n(6)]
      by (auto simp: good_def intro: tunnel_kept_trans)
    have s1: "good w (client_setup T E (Os g) i f ?w1)" if "ctx_ptr (w_conn i ?w1) \<noteq> None"
      using client_setup_ok(1) [OF i(1) that, of E "Os g"] i(2) by (auto simp: good_def intro: tunnel_kept_trans)
    show ?thesis
      using a z False cl s1 s2 n(9) by (auto simp: on_new_client_fd_def ctx_alloc_def Let_def)
  qed
qed

text \<open>A client that the pool, the kernel and the allocator accept is served.\<close>

lemma new_client_live:
  assumes "worker_ok w" "picks (p_pick E)" "tunnel_fd w \<noteq> Some f" "0 \<le> f" "\<not> p_use_ssl E" "w_type w \<noteq> NONE" "oc_memory (Os g)"
    "fst (alloc_connection (p_pick E) f g (worker_connection_mgr w)) = 0" "fst (poller_add f RWE False (epoller w)) = 0"
  shows "\<exists>i. get_conn f (worker_connection_mgr (on_new_client_fd T E Os f g w)) = Some i \<and> ctx_live i (on_new_client_fd T E Os f g w) \<and>
    gid (w_conn i (on_new_client_fd T E Os f g w)) = g"
proof -
  obtain m where a: "alloc_connection (p_pick E) f g (worker_connection_mgr w) = (0, m)" using assms(8) by (metis prod.collapse)
  let ?w1 = "w\<lparr>worker_connection_mgr := m\<rparr>" and ?v = "on_new_client_fd T E Os f g w"
  obtain i where i: "new_conn i f ?w1" "tunnel_kept w ?w1" "gid (conn_at i m) = g"
    using alloc_new_conn [OF assms(1-3), of g m] a assms(4) by auto
  note n = new_connD [OF i(1)]
  let ?w2 = "upd_wconn i (ctx_ptr_update (\<lambda>_. Some (t_new T))) ?w1"
  have sk: "m_sockfd (socket_obj (w_conn i ?w1)) = - 1 \<or> m_sockfd (socket_obj (w_conn i ?w1)) = f"
    using worker_invD(5) [OF n(2), of i] mgr_inv_used [OF n(3,4)] n(5) by auto
  have 2: "new_conn i f ?w2" "w_conn i ?w2 = ctx_ptr_update (\<lambda>_. Some (t_new T)) (w_conn i ?w1)"
    using new_conn_upd [OF i(1), of "ctx_ptr_update (\<lambda>_. Some (t_new T))"] n(5) sk by simp_all
  have 3: "get_conn f (worker_connection_mgr (client_setup T E (Os g) i f ?w2)) = Some i \<and>
      gid (w_conn i (client_setup T E (Os g) i f ?w2)) = gid (w_conn i ?w2)"
    by (rule client_setup_ok(2) [OF 2(1)]) (use 2(2) assms(5,9) in simp_all)
  have 4: "get_conn f (worker_connection_mgr (client_setup T E (Os g) i f ?w1)) = Some i \<and>
      gid (w_conn i (client_setup T E (Os g) i f ?w1)) = gid (w_conn i ?w1)" if "ctx_ptr (w_conn i ?w1) \<noteq> None"
    by (rule client_setup_ok(2) [OF i(1) that]) (use assms(5,9) in simp_all)
  have v: "?v = client_setup T E (Os g) i f (if ctx_ptr (w_conn i ?w1) = None then ?w2 else ?w1)"
    using a assms(4,6,7) n(9) by (simp add: on_new_client_fd_def ctx_alloc_def Let_def)
  have gc: "get_conn f (worker_connection_mgr ?v) = Some i" "gid (w_conn i ?v) = g"
    unfolding v using 3 4 2(2) i(3) by simp_all
  have "good w ?v" by (rule good_new_client [OF assms(1-3)])
  then have ok: "worker_ok ?v" "tunnel_fd ?v = tunnel_fd w" using tunnel_in_fd by (auto simp: good_def tunnel_kept_def)
  have c: "i \<in> using_set (worker_connection_mgr ?v)" "fd (w_conn i ?v) = f"
    by (rule get_conn_facts [OF clients_okD(2) [OF ok(1)] gc(1)])+
  have "tunnel_slot ?v \<noteq> Some i"
  proof
    assume "tunnel_slot ?v = Some i"
    then obtain k where k: "tunnel_fd ?v = Some k" "get_conn k (worker_connection_mgr ?v) = Some i"
      by (auto simp: tunnel_slot_def bind_eq_Some_conv)
    then show False using ok(2) assms(3) c(2) get_conn_facts(2) [OF clients_okD(2) [OF ok(1)] k(2)] by simp
  qed
  then show ?thesis using gc clients_okD(4) [OF ok(1) c(1)] by blast
qed

end

end
