(* ===== verification/Worker_Safe.thy ===== *)
theory Worker_Safe
  imports Worker_Inv
begin

text \<open>
  The loop of a worker keeps its invariant: messages from the tunnel, the tunnel's reading and
  parsing, the timeouts and the dispatch of events. The main thread announces a new client by
  its descriptor; that descriptor is never the tunnel's own, which is the only thing the worker
  relies on.
\<close>

section \<open>The messages a byte string holds\<close>

definition announces :: "params \<Rightarrow> proto_package \<Rightarrow> int option" where
  "announces E message =
     (if cmd message \<noteq> PROTO_CMD_TUNNEL_PACKAGE then None
      else Option.bind (parse_tunnel E (protocol message))
             (\<lambda>t. if cmd (tp_inner t) = PROTO_CMD_TUNNEL_MAIN2WORKER_NEW_CLIENT
                  then map_option nc_fd (proto_parse (parse_new_client E) (tp_inner t)) else None))"

text \<open>The messages framed in a byte string; what cannot be parsed is passed over.\<close>

function all_messages :: "params \<Rightarrow> bytes \<Rightarrow> proto_package list" where
  "all_messages E xs =
     (if length xs < 8 \<or> length xs - 8 < unat (toh64_from_buffer xs) then []
      else
        (let n = unat (toh64_from_buffer xs); rest = all_messages E (drop (8 + n) xs)
         in case parse_package E (take n (drop 8 xs)) of
              None \<Rightarrow> rest
            | Some p \<Rightarrow> if n = 0 then rest else p # rest))"
  by pat_completeness auto
termination by (relation "measure (\<lambda>(E, xs). length xs)") auto

declare all_messages.simps [simp del]

definition input_ok :: "params \<Rightarrow> int option \<Rightarrow> bytes \<Rightarrow> bool" where
  "input_ok E tf xs \<longleftrightarrow> (\<forall>m \<in> set (all_messages E xs). announces E m = None \<or> announces E m \<noteq> tf)"

lemma toh64_append: "8 \<le> length xs \<Longrightarrow> toh64_from_buffer (xs @ ys) = toh64_from_buffer xs"
  by (simp add: toh64_from_buffer_def)

lemma input_ok_step:
  assumes "input_ok E tf (xs @ ys)" "8 \<le> length xs" "unat (toh64_from_buffer xs) \<le> length xs - 8"
  shows "input_ok E tf (drop (8 + unat (toh64_from_buffer xs)) xs @ ys)"
    "parse_package E (take (unat (toh64_from_buffer xs)) (drop 8 xs)) = Some p \<Longrightarrow> toh64_from_buffer xs \<noteq> 0 \<Longrightarrow>
       announces E p = None \<or> announces E p \<noteq> tf"
proof -
  let ?n = "unat (toh64_from_buffer xs)"
  have z: "?n = 0 \<longleftrightarrow> toh64_from_buffer xs = 0" by (simp add: unsigned_eq_0_iff)
  have e: "all_messages E (xs @ ys) =
      (case parse_package E (take ?n (drop 8 xs)) of
         None \<Rightarrow> all_messages E (drop (8 + ?n) xs @ ys)
       | Some p \<Rightarrow> if ?n = 0 then all_messages E (drop (8 + ?n) xs @ ys) else p # all_messages E (drop (8 + ?n) xs @ ys))"
  proof -
    have l: "8 + ?n \<le> length xs" using assms(2,3) by linarith
    then have "\<not> (length (xs @ ys) < 8 \<or> length (xs @ ys) - 8 < ?n)" "drop (8 + ?n) (xs @ ys) = drop (8 + ?n) xs @ ys"
        "take ?n (drop 8 (xs @ ys)) = take ?n (drop 8 xs)" by auto
    then show ?thesis
      using assms(2) by (subst all_messages.simps) (simp only: toh64_append Let_def if_False)
  qed
  show "input_ok E tf (drop (8 + ?n) xs @ ys)"
    using assms(1) unfolding input_ok_def e by (auto split: option.splits if_splits)
  show "parse_package E (take ?n (drop 8 xs)) = Some p \<Longrightarrow> toh64_from_buffer xs \<noteq> 0 \<Longrightarrow> announces E p = None \<or> announces E p \<noteq> tf"
    using assms(1) z unfolding input_ok_def e by (auto split: if_splits)
qed

text \<open>The two bounds of the parser: the length of the body is at most what is there.\<close>

lemma tunnel_bounds:
  assumes "8 \<le> length (buf :: bytes)" "\<not> of_nat (length buf) - 8 < (n :: u64)"
  shows "unat n \<le> length buf - 8"
proof -
  have "of_nat (length buf) - 8 = (of_nat (length buf - 8) :: u64)" using assms(1) by (simp add: of_nat_diff)
  then have "unat n \<le> unat (of_nat (length buf - 8) :: u64)" using assms(2) by (simp add: word_le_nat_alt not_less)
  also have "\<dots> \<le> length buf - 8" by (simp add: unsigned_of_nat take_bit_nat_def)
  finally show ?thesis .
qed

lemma tunnel_read_loop_bytes:
  "tunnel_read_loop k buffer s = (buffer', broken, s') \<Longrightarrow>
     buffer' @ rx_bytes (k_rx s') = buffer @ rx_bytes (k_rx s) \<and> m_sockfd s' = m_sockfd s"
proof (induction k arbitrary: buffer s)
  case (Suc k)
  obtain len bs e s1 where r: "socket_recv (1024000 - length buffer) 0 s = (len, bs, e, s1)" by (metis prod_cases4)
  have 1: "bs @ rx_bytes (k_rx s1) = rx_bytes (k_rx s)" "m_sockfd s1 = m_sockfd s" "len \<le> 0 \<Longrightarrow> bs = []"
    using r by (cases "k_rx s"; cases "hd (k_rx s)"; auto simp: socket_recv_def split: if_splits)+
  show ?case using Suc.prems Suc.IH [of "buffer @ bs" s1] 1 by (auto simp: r split: if_splits)
qed simp

section \<open>What the environment promises\<close>

text \<open>
  Protobuf: what serializes parses back, and the empty string is the message with every field at
  its default. The order in which a hash set is walked is an order of its elements.
\<close>

definition env_ok :: "params \<Rightarrow> bool" where
  "env_ok E \<longleftrightarrow> round_trips (ser_tunnel E) (parse_tunnel E) \<and>
     (\<forall>t. parse_tunnel E [] = Some t \<longrightarrow> cmd (tp_inner t) = 0) \<and>
     picks (p_pick E) \<and> (\<forall>S. finite S \<longrightarrow> set (p_int_order E S) = S \<and> distinct (p_int_order E S))"

lemma announces_self:
  assumes "env_ok E" "cmd (tp_inner t) \<noteq> PROTO_CMD_TUNNEL_MAIN2WORKER_NEW_CLIENT"
  shows "announces E (pack_package_into (ser_tunnel E) package_default t c) = None"
proof (cases "ser_tunnel E t")
  case None
  then show ?thesis
    using assms(1) by (auto simp: announces_def pack_package_into_def env_ok_def proto_cmds split: bind_splits)
next
  case (Some d)
  then have "parse_tunnel E d = Some t" using assms(1) by (simp add: env_ok_def round_trips_def)
  then show ?thesis using assms(2) Some by (simp add: announces_def pack_package_into_def)
qed

context client_task
begin

text \<open>\<open>self\<close> is safe on the messages that announce nothing.\<close>

definition self_ok :: "params \<Rightarrow> (proto_package \<Rightarrow> 'x client_ctx_scheme worker \<Rightarrow> 'x client_ctx_scheme worker) \<Rightarrow> bool" where
  "self_ok E self \<longleftrightarrow> (\<forall>p w. worker_ok w \<and> announces E p = None \<longrightarrow> good w (self p w))"

lemma good_forward_to_self:
  assumes "worker_ok w" "env_ok E" "self_ok E self"
  shows "good w (forward_to_self self E d m w)"
proof -
  let ?t = "\<lparr>sourcetunnelsid = d, targettunnelsid = [d], targetallworker = False,
      tp_inner = pack_package_into (ser_forward E) package_default m PROTO_CMD_TUNNEL_CLIENT_FORWARD_MESSAGE\<rparr>"
  have "cmd (tp_inner ?t) = PROTO_CMD_TUNNEL_CLIENT_FORWARD_MESSAGE" by (simp add: pack_package_into_def split: option.splits)
  then have "cmd (tp_inner ?t) \<noteq> PROTO_CMD_TUNNEL_MAIN2WORKER_NEW_CLIENT" by (simp add: proto_cmds)
  from announces_self [OF assms(2) this] show ?thesis
    using assms(1,3) by (simp add: forward_to_self_def self_ok_def)
qed

lemma good_send_forward:
  assumes "worker_ok w" "env_ok E" "self_ok E self"
  shows "good w (snd (send_client_forward_message self E g dest p w))"
proof -
  have f: "good w (forward_to_workers E ds m w)" if "worker_ok w" for ds m and w :: "'x client_ctx_scheme worker"
    unfolding forward_to_workers_def by (rule good_tunnel_forward [OF that])
  note s = good_forward_to_self [OF _ assms(2,3)]
  have "good w (if ds \<noteq> [] then forward_to_workers E ds m w1 else w1)"
    if "good w w1" for w1 ds m using that f [of w1 ds m] good_trans [OF that, of "forward_to_workers E ds m w1"] by (simp add: good_def)
  moreover have "good w (if b then forward_to_self self E d m w else w)" for b d m using s [OF assms(1)] good_refl [OF assms(1)] by simp
  moreover have "good w (fold (\<lambda>d w.
                  (let message = F d
                   in if d = k then forward_to_self self E d message w
                      else forward_to_workers E [d] message w)) xs w)" for F k xs
    by (rule good_fold [OF assms(1)]) (simp add: Let_def f s)
  ultimately show ?thesis
    using good_refl [OF assms(1)] unfolding send_client_forward_message_def Let_def by auto
qed

lemma good_close_mark:
  assumes "worker_ok w" "get_conn_by_gid g (worker_connection_mgr w) = Some i" "ctx_ptr (w_conn i w) \<noteq> None"
  shows "good w (ctx_event_mod i RWE (set_conn_is_close i True w))"
proof -
  have "i \<in> using_set (worker_connection_mgr w)"
    using assms(2) clients_okD(2) [OF assms(1)] unfolding get_conn_by_gid_def mgr_inv_def by (auto intro: ranI)
  moreover have "tunnel_slot w \<noteq> Some i" using clients_okD(3) [OF assms(1), of i] assms(3) by auto
  ultimately have l: "ctx_live i w" using clients_okD(4) [OF assms(1)] by simp
  show ?thesis by (rule good_run [OF assms(1) l]) (simp add: ctx_run_ops ctx_run_refl [OF l])
qed

lemma good_worker_tunnel:
  assumes "worker_ok w" "env_ok E" "self_ok E self"
  shows "good w (app_on_worker_tunnel self E p w)"
  using good_send_forward [OF assms] good_close_mark [OF assms(1)] good_refl [OF assms(1)]
  by (auto simp: app_on_worker_tunnel_def split: option.splits)

lemma gid_using: "worker_ok w \<Longrightarrow> get_conn_by_gid g (worker_connection_mgr w) = Some i \<Longrightarrow> i \<in> using_set (worker_connection_mgr w)"
  using clients_okD(2) [of "{}" w] unfolding get_conn_by_gid_def mgr_inv_def by (auto intro: ranI)

lemma good_broadcast:
  assumes "worker_ok w"
  shows "good w (fold (\<lambda>g w. case get_conn_by_gid g (worker_connection_mgr w) of None \<Rightarrow> w
      | Some k \<Rightarrow> (case get_conn_by_idx k (worker_connection_mgr w) of None \<Rightarrow> w
          | Some i \<Rightarrow> if closed_flag (w_conn i w) \<or> is_close (w_conn i w) then w
                     else handle_tunnel_client_forward_message T i m w)) gs w)"
proof (rule good_fold [OF assms])
  fix g and w :: "'x client_ctx_scheme worker" assume ok: "worker_ok w"
  show "good w (case get_conn_by_gid g (worker_connection_mgr w) of None \<Rightarrow> w
      | Some k \<Rightarrow> (case get_conn_by_idx k (worker_connection_mgr w) of None \<Rightarrow> w
          | Some i \<Rightarrow> if closed_flag (w_conn i w) \<or> is_close (w_conn i w) then w
                     else handle_tunnel_client_forward_message T i m w))"
    using good_refl [OF ok] good_handle_forward [OF ok gid_using [OF ok], of g _ m]
    by (auto simp: get_conn_by_idx_def split: option.splits if_splits)
qed

lemma good_multicast:
  assumes "worker_ok w"
  shows "good w (fold (\<lambda>g w. if get_worker_tunnel_id (worker_idx w) \<noteq> hash_gid_2_worker_tunnel_id g then w
      else case get_conn_by_gid g (worker_connection_mgr w) of None \<Rightarrow> w
         | Some i \<Rightarrow> handle_tunnel_client_forward_message T i m w) gs w)"
proof (rule good_fold [OF assms])
  fix g and w :: "'x client_ctx_scheme worker" assume ok: "worker_ok w"
  show "good w (if get_worker_tunnel_id (worker_idx w) \<noteq> hash_gid_2_worker_tunnel_id g then w
      else case get_conn_by_gid g (worker_connection_mgr w) of None \<Rightarrow> w
         | Some i \<Rightarrow> handle_tunnel_client_forward_message T i m w)"
    using good_refl [OF ok] good_handle_forward [OF ok gid_using [OF ok], of g _ m] by (auto split: option.splits)
qed

lemma good_process_with:
  assumes "worker_ok w" "env_ok E" "self_ok E self" "announces E p = None \<or> announces E p \<noteq> tunnel_fd w"
  shows "good w (on_tunnel_process_with self T E Os p w)"
proof -
  have pk: "picks (p_pick E)" using assms(2) by (simp add: env_ok_def)
  have n: "good w (on_new_client_fd T E Os (nc_fd q) (nc_gid q) w)"
    if "cmd p = PROTO_CMD_TUNNEL_PACKAGE" "parse_tunnel E (protocol p) = Some t"
      "cmd (tp_inner t) = PROTO_CMD_TUNNEL_MAIN2WORKER_NEW_CLIENT" "proto_parse (parse_new_client E) (tp_inner t) = Some q" for t q
    by (rule good_new_client [OF assms(1) pk]) (use assms(4) that in \<open>auto simp: announces_def\<close>)
  show ?thesis
    unfolding on_tunnel_process_with_def Let_def
    using n good_refl [OF assms(1)] good_broadcast [OF assms(1)] good_multicast [OF assms(1)] good_worker_tunnel [OF assms(1-3)]
    by (auto split: option.splits task_type.splits)
qed

lemma good_process_depth:
  assumes "env_ok E"
  shows "worker_ok w \<Longrightarrow> announces E p = None \<or> announces E p \<noteq> tunnel_fd w \<Longrightarrow> good w (on_tunnel_process_depth d T E Os p w)"
proof (induction d arbitrary: p w)
  case (Suc d)
  have "self_ok E (on_tunnel_process_depth d T E Os)" using Suc.IH by (simp add: self_ok_def)
  then show ?case using good_process_with [OF Suc.prems(1) assms _ Suc.prems(2)] by simp
qed (simp add: good_refl)

lemma good_process:
  "env_ok E \<Longrightarrow> worker_ok w \<Longrightarrow> announces E p = None \<or> announces E p \<noteq> tunnel_fd w \<Longrightarrow> good w (on_tunnel_process T E Os p w)"
  unfolding on_tunnel_process_def by (rule good_process_depth)

end


section \<open>Reading the tunnel\<close>

text \<open>What the loop needs of the tunnel and keeps of it.\<close>

definition tunnel_state :: "params \<Rightarrow> int \<Rightarrow> nat \<Rightarrow> 'x ctx_worker \<Rightarrow> bool" where
  "tunnel_state E tf i w \<longleftrightarrow> worker_ok w \<and> tunnel_fd w = Some tf \<and> tunnel_slot w = Some i \<and> m_timeout_fd w = {} \<and>
     input_ok E (Some tf) (m_data (recv_buffer (w_conn i w)) @ rx_bytes (k_rx (the (main_worker_tunnel w))))"

lemma tunnel_state_kept:
  assumes "tunnel_state E tf i w" "good w w'"
  shows "tunnel_state E tf i w'"
proof -
  have k: "worker_ok w'" "tunnel_in w' = tunnel_in w" "tunnel_slot w' = tunnel_slot w" "m_timeout_fd w' = m_timeout_fd w"
      "recv_buffer (w_conn i w') = recv_buffer (w_conn i w)"
    using assms by (auto simp: good_def tunnel_kept_def tunnel_state_def)
  obtain sock where m: "main_worker_tunnel w = Some sock" using assms(1) by (auto simp: tunnel_state_def tunnel_fd_def)
  then obtain sock' where m': "main_worker_tunnel w' = Some sock'" "k_rx sock' = k_rx sock"
    using k(2) by (auto simp: tunnel_in_def)
  show ?thesis using assms(1) k tunnel_in_fd [OF k(2)] m m' by (simp add: tunnel_state_def)
qed

lemma tunnel_recv_upd:
  fixes h :: "vec_str_buffer \<Rightarrow> vec_str_buffer" and b :: bool
  assumes "worker_ok w" "tunnel_slot w = Some i" "tunnel_fd w = Some (m_sockfd sock)"
  defines "w' \<equiv> upd_wconn i (recv_buffer_update h) (w\<lparr>main_worker_tunnel := Some sock, w_to_stop := b\<rparr>)"
  shows "worker_ok w'" "tunnel_fd w' = Some (m_sockfd sock)" "tunnel_slot w' = Some i" "m_timeout_fd w' = m_timeout_fd w"
    "recv_buffer (w_conn i w') = h (recv_buffer (w_conn i w))" "main_worker_tunnel w' = Some sock"
proof -
  note ok = clients_okD [OF assms(1)]
  let ?v = "w\<lparr>main_worker_tunnel := Some sock, w_to_stop := b\<rparr>"
  have slot: "get_conn (m_sockfd sock) (worker_connection_mgr w) = Some i" using assms(2,3) by (simp add: tunnel_slot_def)
  have u: "i \<in> using_set (worker_connection_mgr w)" using get_conn_facts(1) [OF ok(2) slot] .
  have "k_interest (epoller w) (m_sockfd sock) \<noteq> None"
    using ok(1) assms(3) by (auto simp: worker_inv_def tunnel_fd_def)
  then have "worker_inv ?v" using ok(1) slot by (auto simp: worker_inv_def)
  then have inv: "worker_inv w'" unfolding w'_def by (rule worker_inv_upd) (use u in \<open>simp_all add: same_id_def\<close>)
  have c: "w_conn j w' = (if j = i then recv_buffer_update h (w_conn i w) else w_conn j w)" for j
    using conn_at_upd [OF ok(2) u] by (simp add: w'_def)
  have m: "using_set (worker_connection_mgr w') = using_set (worker_connection_mgr w)" "epoller w' = epoller w"
      "m_conn_timeout_timer_manager w' = m_conn_timeout_timer_manager w"
    by (simp_all add: w'_def)
  show f: "tunnel_fd w' = Some (m_sockfd sock)" "tunnel_slot w' = Some i" "m_timeout_fd w' = m_timeout_fd w" "main_worker_tunnel w' = Some sock"
    using slot by (simp_all add: w'_def tunnel_fd_def tunnel_slot_def)
  show "recv_buffer (w_conn i w') = h (recv_buffer (w_conn i w))" by (simp add: c)
  have "ctx_live j w' \<and> timer_ok j w'" if j: "j \<in> using_set (worker_connection_mgr w)" "j \<noteq> i" for j
    using ok(4) [OF j(1)] j assms(2,3) f ctx_live_cong [of j w w', OF _ inv] timer_ok_cong [of j w w'] c m by auto
  moreover have "\<exists>j \<in> using_set (worker_connection_mgr w'). tunnel_slot w' \<noteq> Some j \<and> gid (w_conn j w') = g"
    if "tm_abs (m_conn_timeout_timer_manager w') g \<noteq> None" for g
  proof -
    from ok(5) [of g] that m(3) obtain j where j: "j \<in> using_set (worker_connection_mgr w)" "tunnel_slot w \<noteq> Some j" "gid (w_conn j w) = g"
      by auto
    then show ?thesis using assms(2) f(2) c m by (intro bexI [of _ j]) simp_all
  qed
  ultimately show "worker_ok w'"
    using inv ok(3) assms(2) f(2) c m by (auto simp: clients_ok_def)
qed

lemma tunnel_state_drop:
  assumes "tunnel_state E tf i w" "8 \<le> length (m_data (recv_buffer (w_conn i w)))"
    "unat (toh64_from_buffer (m_data (recv_buffer (w_conn i w)))) \<le> length (m_data (recv_buffer (w_conn i w))) - 8"
    "n = 8 + unat (toh64_from_buffer (m_data (recv_buffer (w_conn i w))))"
  shows "tunnel_state E tf i (tunnel_move i n w)"
proof -
  obtain sock where m: "main_worker_tunnel w = Some sock" "m_sockfd sock = tf"
    using assms(1) by (auto simp: tunnel_state_def tunnel_fd_def)
  have e: "w\<lparr>main_worker_tunnel := Some sock, w_to_stop := w_to_stop w\<rparr> = w" using m by simp
  note t = tunnel_recv_upd [of w i sock "move_read_ptr_n n" "w_to_stop w", unfolded e]
  show ?thesis
    using assms(1) t m input_ok_step(1) [OF _ assms(2,3), of E "Some tf"] by (simp add: tunnel_state_def assms(4))
qed

context client_task
begin

lemma parse_loop_state:
  assumes "env_ok E"
  shows "tunnel_state E tf i w \<Longrightarrow> tunnel_state E tf i (tunnel_parse_loop k T E Os i w)"
proof (induction k arbitrary: w)
  case (Suc k)
  define buf where "buf = m_data (recv_buffer (w_conn i w))"
  let ?n = "toh64_from_buffer buf"
  show ?case
  proof (cases "8 \<le> length buf \<and> \<not> (?n > of_nat (length buf) \<or> ?n > of_nat (length buf) - 8)")
    case False
    then show ?thesis using Suc.prems by (auto simp: Let_def buf_def [symmetric])
  next
    case True
    then have le: "unat ?n \<le> length buf - 8" using tunnel_bounds by blast
    have l8: "8 \<le> length buf" using True by simp
    note d = tunnel_state_drop [OF Suc.prems, folded buf_def, OF l8 le refl]
    have z: "tunnel_state E tf i (tunnel_move i 8 w)" if "?n = 0" using d that by simp
    have p: "tunnel_state E tf i (tunnel_move i (8 + unat ?n) (on_tunnel_process T E Os p w))"
      if pp: "parse_package E (take (unat ?n) (drop 8 buf)) = Some p" "?n \<noteq> 0" for p
    proof -
      have in_ok: "input_ok E (Some tf) (buf @ rx_bytes (k_rx (the (main_worker_tunnel w))))"
        using Suc.prems by (simp add: tunnel_state_def buf_def)
      have ok: "worker_ok w" "tunnel_fd w = Some tf" "tunnel_slot w = Some i" using Suc.prems by (simp_all add: tunnel_state_def)
      have g: "good w (on_tunnel_process T E Os p w)"
        by (rule good_process [OF assms ok(1)]) (use input_ok_step(2) [OF in_ok l8 le pp] ok(2) in simp)
      have b: "m_data (recv_buffer (w_conn i (on_tunnel_process T E Os p w))) = buf"
        using g ok(3) by (simp add: good_def tunnel_kept_def buf_def)
      show ?thesis
        using tunnel_state_drop [OF tunnel_state_kept [OF Suc.prems g], unfolded b, OF l8 le refl] .
    qed
    show ?thesis
      using True d z p Suc.IH by (auto simp: Let_def buf_def [symmetric] split: option.splits)
  qed
qed simp

lemma tunnel_read_state:
  assumes "env_ok E" "tunnel_state E tf i w" "main_worker_tunnel w = Some sock"
  shows "tunnel_state E tf i (tunnel_read T E Os i sock w)"
proof -
  obtain buffer broken sock' where r: "tunnel_read_loop (Suc (rx_weight (k_rx sock))) [] sock = (buffer, broken, sock')"
    by (metis prod_cases3)
  have rb: "buffer @ rx_bytes (k_rx sock') = rx_bytes (k_rx sock)" "m_sockfd sock' = m_sockfd sock"
    using tunnel_read_loop_bytes [OF r] by simp_all
  define w1 where "w1 = w\<lparr>main_worker_tunnel := Some sock', w_to_stop := w_to_stop w \<or> broken\<rparr>"
  define w2 where "w2 = (if length buffer > 0 then upd_wconn i (recv_buffer_update (vsb_append buffer)) w1 else w1)"
  have ok: "worker_ok w" "tunnel_slot w = Some i" "tunnel_fd w = Some (m_sockfd sock')" "m_sockfd sock' = tf"
    using assms(2,3) rb(2) by (auto simp: tunnel_state_def tunnel_fd_def)
  have idm: "upd_wconn i (recv_buffer_update (\<lambda>x. x)) w1 = w1"
  proof -
    have m: "mgr_inv (worker_connection_mgr w)" "i \<in> using_set (worker_connection_mgr w)"
      using clients_okD(2) [OF ok(1)] get_conn_facts(1) [OF clients_okD(2) [OF ok(1)]] ok(2,3) by (auto simp: tunnel_slot_def)
    show ?thesis using upd_conn_id [OF m, of "recv_buffer_update (\<lambda>x. x)"] by (simp add: upd_wconn_def w1_def)
  qed
  note a = tunnel_recv_upd [OF ok(1-3), of "vsb_append buffer" "w_to_stop w \<or> broken", folded w1_def]
  note b = tunnel_recv_upd [OF ok(1-3), of "\<lambda>x. x" "w_to_stop w \<or> broken", folded w1_def, unfolded idm]
  have "tunnel_state E tf i w2"
    using a b ok(4) assms(2,3) rb(1) by (cases "buffer = []") (simp_all add: w2_def tunnel_state_def)
  then show ?thesis
    unfolding tunnel_read_def r Let_def prod.case w1_def [symmetric] w2_def [symmetric] by (rule parse_loop_state [OF assms(1)])
qed

lemma tunnel_event_state:
  assumes "env_ok E" "tunnel_state E tf i w"
  shows "tunnel_state E tf i (worker_on_tunnel_event T E Os ev w)"
proof -
  obtain sock where m: "main_worker_tunnel w = Some sock" "m_sockfd sock = tf"
    using assms(2) by (auto simp: tunnel_state_def tunnel_fd_def)
  have slot: "get_conn tf (worker_connection_mgr w) = Some i"
    using assms(2) m by (simp add: tunnel_state_def tunnel_slot_def tunnel_fd_def)
  let ?w1 = "if ev AND READ \<noteq> 0 then tunnel_read T E Os i sock w else w"
  have 1: "tunnel_state E tf i ?w1" using tunnel_read_state [OF assms m(1)] assms(2) by simp
  then have "worker_ok ?w1" by (simp add: tunnel_state_def)
  from tunnel_state_kept [OF 1 good_flush_tunnel [OF this]] 1 show ?thesis
    using m slot assms(2) by (simp add: worker_on_tunnel_event_def Let_def)
qed

lemma dispatch_state:
  assumes "env_ok E" "tunnel_state E tf i w"
  shows "tunnel_state E tf i (worker_dispatch T E Os skip ev w)"
proof -
  obtain f code where e: "ev = (f, code)" by fastforce
  obtain sock where m: "main_worker_tunnel w = Some sock" "m_sockfd sock = tf"
    using assms(2) by (auto simp: tunnel_state_def tunnel_fd_def)
  have ok: "worker_ok w" "tunnel_fd w = Some tf" using assms(2) by (simp_all add: tunnel_state_def)
  have "tunnel_state E tf i (on_client_event T f code w)" if "f \<noteq> tf"
    by (rule tunnel_state_kept [OF assms(2) good_client_event [OF ok(1)]]) (use ok(2) that in simp)
  then show ?thesis
    using assms(2) tunnel_event_state [OF assms, of Os code] m by (simp add: worker_dispatch_def e)
qed

lemma events_state:
  "env_ok E \<Longrightarrow> tunnel_state E tf i w \<Longrightarrow> tunnel_state E tf i (fold (worker_dispatch T E Os skip) evs w)"
  by (induction evs arbitrary: w) (simp_all add: dispatch_state)

end

section \<open>The packages of the tunnel\<close>

text \<open>
  The tunnel is read by the same kind of loop as a stream: every complete package that does not
  announce the tunnel's own descriptor is processed once.
\<close>

definition tunnel_ok :: "params \<Rightarrow> int \<Rightarrow> nat \<Rightarrow> 'x ctx_worker \<Rightarrow> bool" where
  "tunnel_ok E tf i w \<longleftrightarrow> env_ok E \<and> worker_ok w \<and> tunnel_fd w = Some tf \<and> tunnel_slot w = Some i"

definition tunnel_buf :: "nat \<Rightarrow> 'c worker \<Rightarrow> bytes" where
  "tunnel_buf i w = m_data (recv_buffer (w_conn i w))"

definition tunnel_parse :: "params \<Rightarrow> int \<Rightarrow> bytes \<Rightarrow> proto_package option" where
  "tunnel_parse E tf d = (case parse_package E d of None \<Rightarrow> None | Some p \<Rightarrow> if announces E p = Some tf then None else Some p)"

definition tunnel_consume ::
    "'x task \<Rightarrow> params \<Rightarrow> (u64 \<Rightarrow> os_client) \<Rightarrow> nat \<Rightarrow> nat \<Rightarrow> proto_package \<Rightarrow> 'x ctx_worker \<Rightarrow> 'x ctx_worker" where
  "tunnel_consume T E Os i n p w = tunnel_move i n (on_tunnel_process T E Os p w)"

lemma tunnel_ok_move:
  assumes "tunnel_ok E tf i w"
  shows "tunnel_ok E tf i (tunnel_move i n w)" "tunnel_buf i (tunnel_move i n w) = drop n (tunnel_buf i w)"
proof -
  obtain sock where m: "main_worker_tunnel w = Some sock" "m_sockfd sock = tf"
    using assms by (auto simp: tunnel_ok_def tunnel_fd_def)
  have e: "w\<lparr>main_worker_tunnel := Some sock, w_to_stop := w_to_stop w\<rparr> = w" using m by simp
  note t = tunnel_recv_upd [of w i sock "move_read_ptr_n n" "w_to_stop w", unfolded e]
  show "tunnel_ok E tf i (tunnel_move i n w)" using t assms m by (simp add: tunnel_ok_def)
  show "tunnel_buf i (tunnel_move i n w) = drop n (tunnel_buf i w)" using t assms m by (simp add: tunnel_ok_def tunnel_buf_def)
qed

lemma u64_frame:
  fixes d :: bytes
  assumes "buf = frame d @ rest" "length buf < 2 ^ 63"
  shows "unat (toh64_from_buffer buf) = length d" "\<not> toh64_from_buffer buf > of_nat (length buf)"
    "\<not> toh64_from_buffer buf > of_nat (length buf) - 8" "8 \<le> length buf"
proof -
  have l: "length buf = 8 + length d + length rest" using assms(1) by simp
  show u: "unat (toh64_from_buffer buf) = length d" using assms by (simp add: unat_of_nat)
  show "8 \<le> length buf" using l by simp
  have a: "unat (of_nat n :: u64) = n" if "n < 2 ^ 63" for n using that by (simp add: unat_of_nat)
  show "\<not> toh64_from_buffer buf > of_nat (length buf)"
    using u l a [OF assms(2)] by (simp add: word_less_nat_alt)
  have "of_nat (length buf) - 8 = (of_nat (length buf - 8) :: u64)" using l by (simp add: of_nat_diff)
  then show "\<not> toh64_from_buffer buf > of_nat (length buf) - 8"
    using u l a [of "length buf - 8"] assms(2) by (simp add: word_less_nat_alt)
qed

lemma u64_waits:
  assumes "8 \<le> length (buf :: bytes)" "length buf < 8 + unat (n :: u64)" "length buf < 2 ^ 63"
  shows "n > of_nat (length buf) - 8"
proof -
  have "of_nat (length buf) - 8 = (of_nat (length buf - 8) :: u64)" using assms(1) by (simp add: of_nat_diff)
  moreover have "unat (of_nat (length buf - 8) :: u64) = length buf - 8" using assms(3) by (simp add: unat_of_nat)
  ultimately show ?thesis using assms by (simp add: word_less_nat_alt)
qed

sublocale client_task \<subseteq> tfr: framed_reader "tunnel_ok E tf i" "tunnel_buf i" "2 ^ 63" "tunnel_parse E tf"
    "tunnel_consume T E Os i" "\<lambda>k. tunnel_parse_loop k T E Os i"
  for E tf i Os
proof
  fix w :: "'x client_ctx_scheme worker" and d rest p
  assume w: "tunnel_ok E tf i w" and b: "tunnel_buf i w = frame d @ rest" and p: "tunnel_parse E tf d = Some p"
  have ok: "env_ok E" "worker_ok w" "tunnel_fd w = Some tf" "tunnel_slot w = Some i" using w by (simp_all add: tunnel_ok_def)
  have g: "good w (on_tunnel_process T E Os p w)"
    by (rule good_process [OF ok(1,2)]) (use ok(3) p in \<open>auto simp: tunnel_parse_def split: option.splits if_splits\<close>)
  have "tunnel_ok E tf i (on_tunnel_process T E Os p w)" "tunnel_buf i (on_tunnel_process T E Os p w) = tunnel_buf i w"
    using g ok tunnel_in_fd [of "on_tunnel_process T E Os p w" w] by (simp_all add: tunnel_ok_def good_def tunnel_kept_def tunnel_buf_def)
  then show "tunnel_ok E tf i (tunnel_consume T E Os i (8 + length d) p w) \<and>
      tunnel_buf i (tunnel_consume T E Os i (8 + length d) p w) = rest"
    using tunnel_ok_move [of E tf i "on_tunnel_process T E Os p w" "8 + length d"] b by (simp add: tunnel_consume_def)
next
  fix w :: "'x client_ctx_scheme worker" and d rest p k
  assume b: "tunnel_buf i w = frame d @ rest" and d: "d \<noteq> []" and p: "tunnel_parse E tf d = Some p"
    and len: "length (tunnel_buf i w) < 2 ^ 63"
  note u = u64_frame [OF b len]
  have nz: "toh64_from_buffer (tunnel_buf i w) \<noteq> 0" using u(1) d by auto
  have pp: "parse_package E d = Some p" using p by (auto simp: tunnel_parse_def split: option.splits if_splits)
  have t: "take (length d) (drop 8 (tunnel_buf i w)) = d" "tunnel_buf i w \<noteq> []" using b by auto
  show "tunnel_parse_loop (Suc k) T E Os i w = tunnel_parse_loop k T E Os i (tunnel_consume T E Os i (8 + length d) p w)"
    using u nz pp t by (simp add: Let_def tunnel_buf_def tunnel_consume_def)
next
  fix w :: "'x client_ctx_scheme worker" and k
  assume "incomplete (2 ^ 63) (tunnel_buf i w)" "length (tunnel_buf i w) < 2 ^ 63"
  then show "tunnel_parse_loop (Suc k) T E Os i w = w"
    using u64_waits [of "tunnel_buf i w" "toh64_from_buffer (tunnel_buf i w)"]
    by (auto simp: incomplete_def tunnel_buf_def Let_def)
qed

end
