(* ===== verification/Worker_Timeouts.thy ===== *)
theory Worker_Timeouts
  imports Worker_Safe Timer
begin

text \<open>
  The part of an iteration that runs once per second (worker.cpp): the clients
  that are not announced and whose timer is due are closed, each once, and every
  other client stays as it was.
\<close>

section \<open>Timeouts\<close>

lemma rearm_once:
  assumes "m_repeated_times t = 1"
  shows "m_repeated_times ((rearm ^^ Suc n) t) = 0" "m_callback ((rearm ^^ n) t) = m_callback t" "m_id ((rearm ^^ n) t) = m_id t"
proof -
  have r0: "m_repeated_times (rearm u) = 0" if "m_repeated_times u = 0" for u :: "'a timer" using that by (simp add: rearm_def)
  show "m_repeated_times ((rearm ^^ Suc n) t) = 0"
  proof (induction n)
    case 0
    show ?case using assms by (simp add: rearm_def)
  next
    case (Suc n)
    then show ?case using r0 by simp
  qed
  have "m_callback (rearm u) = m_callback u" "m_id (rearm u) = m_id u" for u :: "'a timer" by (simp_all add: rearm_def Let_def)
  then show "m_callback ((rearm ^^ n) t) = m_callback t" "m_id ((rearm ^^ n) t) = m_id t" by (induction n) simp_all
qed

text \<open>A pass over timers that fire once.\<close>

lemma timer_pass:
  assumes "tm_inv m" "now < UINT64_MAX" "\<And>k t. tm_abs m k = Some t \<Longrightarrow> m_repeated_times t = 1"
  obtains m' log where "check_and_handle exec now m s = Some (m', fold (run_callback exec) log s)" "tm_inv m'"
    "\<And>t. t \<in> set log \<Longrightarrow> \<exists>t0. tm_abs m (m_id t) = Some t0 \<and> m_callback t = m_callback t0 \<and> m_expired_time t0 \<le> now"
    "\<And>k t. tm_abs m k = Some t \<Longrightarrow> m_expired_time t \<le> now \<Longrightarrow> t \<in> set log"
    "\<And>k. tm_abs m' k = (case tm_abs m k of None \<Rightarrow> None | Some t \<Rightarrow> if m_expired_time t \<le> now then None else Some t)"
proof -
  from check_and_handle_passes [OF assms(1,2), of exec s] obtain m' log where
    p: "check_and_handle exec now m s = Some (m', fold (run_callback exec) log s)" "tm_inv m'"
      "\<And>k. fires_as (tm_abs m) (tm_abs m') log now k" by blast
  have j: "\<exists>j. (0 < j \<longleftrightarrow> m_expired_time t \<le> now) \<and> filter (\<lambda>u. m_id u = k) log = map (\<lambda>i. (rearm ^^ i) t) [0..<j] \<and>
      tm_abs m' k = alive ((rearm ^^ j) t)" if "tm_abs m k = Some t" for k t
    using p(3) [of k] that by (simp add: fires_as_def)
  show thesis
  proof (rule that [OF p(1,2)])
    fix t assume t: "t \<in> set log"
    obtain t0 where t0: "tm_abs m (m_id t) = Some t0"
      using p(3) [of "m_id t"] t by (auto simp: fires_as_def split: option.splits)
    from j [OF t0] obtain n where n: "0 < n \<longleftrightarrow> m_expired_time t0 \<le> now"
        "filter (\<lambda>u. m_id u = m_id t) log = map (\<lambda>i. (rearm ^^ i) t0) [0..<n]" by blast
    have "t \<in> set (filter (\<lambda>u. m_id u = m_id t) log)" using t by simp
    then obtain i where i: "t = (rearm ^^ i) t0" "i < n" unfolding n(2) by auto
    then have "m_callback t = m_callback t0" using rearm_once(2) [OF assms(3) [OF t0], of i] by simp
    then show "\<exists>t0. tm_abs m (m_id t) = Some t0 \<and> m_callback t = m_callback t0 \<and> m_expired_time t0 \<le> now"
      using t0 n(1) i(2) by auto
  next
    fix k t assume t: "tm_abs m k = Some t" "m_expired_time t \<le> now"
    from j [OF t(1)] t(2) obtain n where n: "0 < n" "filter (\<lambda>u. m_id u = k) log = map (\<lambda>i. (rearm ^^ i) t) [0..<n]" by blast
    have "t \<in> set (filter (\<lambda>u. m_id u = k) log)" unfolding n(2) using n(1) by (auto intro!: image_eqI [of _ _ 0])
    then show "t \<in> set log" by simp
  next
    fix k
    show "tm_abs m' k = (case tm_abs m k of None \<Rightarrow> None | Some t \<Rightarrow> if m_expired_time t \<le> now then None else Some t)"
    proof (cases "tm_abs m k")
      case None
      then show ?thesis using p(3) [of k] by (simp add: fires_as_def)
    next
      case (Some t)
      from j [OF Some] obtain n where n: "0 < n \<longleftrightarrow> m_expired_time t \<le> now" "tm_abs m' k = alive ((rearm ^^ n) t)" by blast
      then show ?thesis
        using Some assms(3) [OF Some] rearm_once(1) [OF assms(3) [OF Some]] by (cases n) (auto simp: alive_def)
    qed
  qed
qed

text \<open>The clients whose time is over: not announced, with a timer that is due.\<close>

definition overdue :: "u64 \<Rightarrow> 'x ctx_worker \<Rightarrow> nat set" where
  "overdue now w = {i \<in> using_set (worker_connection_mgr w). tunnel_slot w \<noteq> Some i \<and> \<not> ctx_notified i w \<and>
     (\<exists>t. ctx_timer i w = Some t \<and> m_expired_time t \<le> now)}"

lemma client_gid:
  assumes "worker_ok w" "j \<in> using_set (worker_connection_mgr w)"
  shows "get_conn_by_gid (gid (w_conn j w)) (worker_connection_mgr w) = Some j"
  using get_conn_facts(4) [OF clients_okD(2) [OF assms(1)] using_get_conn [OF clients_okD(2) [OF assms(1)] assms(2)]] .

lemma timer_owner:
  assumes "worker_ok w" "tm_abs (m_conn_timeout_timer_manager w) g = Some t"
  obtains j where "j \<in> using_set (worker_connection_mgr w)" "tunnel_slot w \<noteq> Some j" "gid (w_conn j w) = g"
    "m_callback t = Some (fd (w_conn j w))" "m_repeated_times t = 1" "m_id t = g"
proof -
  obtain j where j: "j \<in> using_set (worker_connection_mgr w)" "tunnel_slot w \<noteq> Some j" "gid (w_conn j w) = g"
    using clients_okD(5) [OF assms(1), of g] assms(2) by auto
  have "timer_ok j w" using clients_okD(4) [OF assms(1) j(1) _ j(2)] by simp
  moreover have "tm_inv (m_conn_timeout_timer_manager w)" by (rule worker_invD(2) [OF clients_okD(1) [OF assms(1)]])
  then have "m_id t = g"
    using assms(2) q_abs_Some [of "m_queue (m_conn_timeout_timer_manager w)" g t] by (auto simp: tm_inv_def queue_ok_def tm_abs_def)
  ultimately show thesis using that j assms(2) by (auto simp: timer_ok_def)
qed

lemma timeout_set:
  assumes "worker_ok w"
    "\<And>t. t \<in> set log \<Longrightarrow> \<exists>t0. tm_abs (m_conn_timeout_timer_manager w) (m_id t) = Some t0 \<and> m_callback t = m_callback t0 \<and> m_expired_time t0 \<le> now"
  shows "fold (run_callback (timeout_callback w)) log S \<subseteq> S \<union> (\<lambda>i. fd (w_conn i w)) ` overdue now w"
    "\<And>t i. t \<in> set log \<Longrightarrow> m_repeated_times t = 1 \<Longrightarrow> i \<in> overdue now w \<Longrightarrow> m_id t = gid (w_conn i w) \<Longrightarrow>
       fd (w_conn i w) \<in> fold (run_callback (timeout_callback w)) log S"
proof -
  have step: "S \<subseteq> run_callback (timeout_callback w) t S \<and>
      run_callback (timeout_callback w) t S \<subseteq> S \<union> (\<lambda>i. fd (w_conn i w)) ` overdue now w \<and>
      (m_repeated_times t = 1 \<and> i \<in> overdue now w \<and> m_id t = gid (w_conn i w) \<longrightarrow> fd (w_conn i w) \<in> run_callback (timeout_callback w) t S)"
    if t: "t \<in> set log" for t S i
  proof -
    from assms(2) [OF t] obtain t0 where t0: "tm_abs (m_conn_timeout_timer_manager w) (m_id t) = Some t0"
      "m_callback t = m_callback t0" "m_expired_time t0 \<le> now" by blast
    obtain j where j: "j \<in> using_set (worker_connection_mgr w)" "tunnel_slot w \<noteq> Some j" "gid (w_conn j w) = m_id t"
      "m_callback t0 = Some (fd (w_conn j w))" using assms(1) t0(1) by (rule timer_owner)
    have g: "get_conn_by_gid (m_id t) (worker_connection_mgr w) = Some j" using client_gid [OF assms(1) j(1)] j(3) by simp
    have o: "\<not> ctx_notified j w \<Longrightarrow> j \<in> overdue now w" using j t0 by (auto simp: overdue_def)
    have "i = j" if "i \<in> overdue now w" "m_id t = gid (w_conn i w)"
      using client_gid [OF assms(1), of i] that g by (auto simp: overdue_def)
    then show ?thesis
      using g j(4) t0(2) o by (auto simp: run_callback_def timeout_callback_def ctx_notified_def overdue_def)
  qed
  have mono: "S \<subseteq> fold (run_callback (timeout_callback w)) l S \<and>
      fold (run_callback (timeout_callback w)) l S \<subseteq> S \<union> (\<lambda>i. fd (w_conn i w)) ` overdue now w" if "set l \<subseteq> set log" for l S
    using that
  proof (induction l arbitrary: S)
    case (Cons t l)
    let ?R = "run_callback (timeout_callback w) t S" and ?D = "(\<lambda>i. fd (w_conn i w)) ` overdue now w"
    have "S \<subseteq> ?R" "?R \<subseteq> S \<union> ?D" using step [of t S] Cons.prems by simp_all
    moreover have "?R \<subseteq> fold (run_callback (timeout_callback w)) l ?R" "fold (run_callback (timeout_callback w)) l ?R \<subseteq> ?R \<union> ?D"
      using Cons.IH [of ?R] Cons.prems by simp_all
    ultimately show ?case unfolding fold_Cons comp_apply by blast
  qed simp
  show "fold (run_callback (timeout_callback w)) log S \<subseteq> S \<union> (\<lambda>i. fd (w_conn i w)) ` overdue now w" using mono [of log S] by simp
  fix t i assume h: "t \<in> set log" "m_repeated_times t = 1" "i \<in> overdue now w" "m_id t = gid (w_conn i w)"
  obtain l1 l2 where l: "log = l1 @ t # l2" using split_list [OF h(1)] by blast
  have "fd (w_conn i w) \<in> run_callback (timeout_callback w) t (fold (run_callback (timeout_callback w)) l1 S)"
    using step [OF h(1), of "fold (run_callback (timeout_callback w)) l1 S" i] h by simp
  then show "fd (w_conn i w) \<in> fold (run_callback (timeout_callback w)) log S"
    using mono [of l2] by (auto simp: l)
qed


lemma ctx_live_removed:
  assumes "ctx_live j w" "client_removed i w w'" "worker_inv w'" "i \<in> using_set (worker_connection_mgr w)" "j \<noteq> i"
  shows "ctx_live j w'" "w_conn j w' = w_conn j w" "tm_abs (m_conn_timeout_timer_manager w') (gid (w_conn j w)) = ctx_timer j w"
proof -
  note l = ctx_live_facts [OF assms(1)]
  have m: "mgr_inv (worker_connection_mgr w)" by (rule worker_invD(1) [OF l(1)])
  have u: "j \<in> using_set (worker_connection_mgr w)" using assms(1) by (simp add: ctx_live_def ctx_ok_def)
  note ne = using_ids [OF m u assms(4,5)]
  have tf: "tunnel_fd w' = tunnel_fd w" by (rule tunnel_in_fd) (use assms(2) in \<open>simp add: client_removed_def\<close>)
  show c: "w_conn j w' = w_conn j w" using assms(2,5) l(6) by (simp add: client_removed_def)
  show "tm_abs (m_conn_timeout_timer_manager w') (gid (w_conn j w)) = ctx_timer j w" using assms(2) ne(2) by (simp add: client_removed_def)
  show "ctx_live j w'"
    by (rule ctx_live_cong [OF assms(1,3) _ c tf]) (use assms(2,5) u ne(1) l(7) in \<open>simp_all add: client_removed_def\<close>)
qed

text \<open>Closing all descriptors of a set of clients.\<close>

definition all_removed :: "nat set \<Rightarrow> int list \<Rightarrow> 'x ctx_worker \<Rightarrow> 'x ctx_worker \<Rightarrow> bool" where
  "all_removed D fs w w' \<longleftrightarrow> worker_ok w' \<and> tunnel_kept w w' \<and> os_closed w' = os_closed w @ fs \<and>
     using_set (worker_connection_mgr w') = using_set (worker_connection_mgr w) - D \<and>
     (\<forall>f. get_conn f (worker_connection_mgr w') = (if f \<in> set fs then None else get_conn f (worker_connection_mgr w))) \<and>
     (\<forall>j \<in> using_set (worker_connection_mgr w) - D. tunnel_slot w \<noteq> Some j \<longrightarrow> w_conn j w' = w_conn j w)"

text \<open>One more client in front of those: the facts about the worker after it chain up.\<close>

definition timers_kept :: "nat set \<Rightarrow> 'x ctx_worker \<Rightarrow> 'x ctx_worker \<Rightarrow> bool" where
  "timers_kept D w w' \<longleftrightarrow> (\<forall>j \<in> using_set (worker_connection_mgr w) - D. tunnel_slot w \<noteq> Some j \<longrightarrow>
     tm_abs (m_conn_timeout_timer_manager w') (gid (w_conn j w)) = ctx_timer j w)"

definition others_live :: "'x ctx_worker \<Rightarrow> bool" where
  "others_live w \<longleftrightarrow> (\<forall>i \<in> using_set (worker_connection_mgr w). tunnel_slot w \<noteq> Some i \<longrightarrow> ctx_live i w)"

definition one_removed :: "nat \<Rightarrow> int \<Rightarrow> 'x ctx_worker \<Rightarrow> 'x ctx_worker \<Rightarrow> bool" where
  "one_removed i f w w' \<longleftrightarrow> tunnel_kept w w' \<and> os_closed w' = os_closed w @ [f] \<and>
     using_set (worker_connection_mgr w') = using_set (worker_connection_mgr w) - {i} \<and>
     (\<forall>k. get_conn k (worker_connection_mgr w') = (if k = f then None else get_conn k (worker_connection_mgr w))) \<and>
     (\<forall>j \<in> using_set (worker_connection_mgr w). j \<noteq> i \<longrightarrow> tunnel_slot w \<noteq> Some j \<longrightarrow>
        ctx_live j w' \<and> w_conn j w' = w_conn j w \<and>
        tm_abs (m_conn_timeout_timer_manager w') (gid (w_conn j w)) = ctx_timer j w)"

lemma close_one:
  assumes ok: "clients_ok D w" and lv: "others_live w" and i: "i \<in> using_set (worker_connection_mgr w)" "tunnel_slot w \<noteq> Some i"
  shows "one_removed i (fd (w_conn i w)) w (close_client_fd h (fd (w_conn i w)) w)"
    and "clients_ok (D - {i}) (close_client_fd h (fd (w_conn i w)) w)"
proof -
  note o = clients_okD [OF ok]
  have li: "ctx_live i w" using lv i unfolding others_live_def by blast
  note l = ctx_live_facts [OF li]
  define w1 where "w1 = close_client_fd h (fd (w_conn i w)) w"
  have r: "client_removed i w w1" unfolding w1_def by (rule close_client_removed [OF o(1) l(2)])
  have inv: "worker_inv w1" unfolding w1_def by (rule close_client_fd_inv(1) [OF o(1)]) (use l(5) in blast)
  have c: "os_closed w1 = os_closed w @ [fd (w_conn i w)]"
    unfolding w1_def using close_client_fd_known(7) [OF o(1) l(2), of h] l(3,4) by simp
  have j: "ctx_live j w1" "w_conn j w1 = w_conn j w" "tm_abs (m_conn_timeout_timer_manager w1) (gid (w_conn j w)) = ctx_timer j w"
    if "j \<in> using_set (worker_connection_mgr w)" "j \<noteq> i" "tunnel_slot w \<noteq> Some j" for j
  proof -
    have lj: "ctx_live j w" using lv that unfolding others_live_def by blast
    show "ctx_live j w1" "w_conn j w1 = w_conn j w" "tm_abs (m_conn_timeout_timer_manager w1) (gid (w_conn j w)) = ctx_timer j w"
      by (rule ctx_live_removed [OF lj r inv i(1) that(2)])+
  qed
  show "one_removed i (fd (w_conn i w)) w (close_client_fd h (fd (w_conn i w)) w)"
    unfolding w1_def [symmetric] one_removed_def using kept_removed [OF r o(1) i] c r j by (simp add: client_removed_def)
  show "clients_ok (D - {i}) (close_client_fd h (fd (w_conn i w)) w)"
    unfolding w1_def [symmetric] by (rule clients_ok_removed [OF ok r inv i])
qed

lemma one_removed_live: "one_removed i f w w1 \<Longrightarrow> others_live w1"
  unfolding one_removed_def others_live_def tunnel_kept_def by simp

lemma one_removed_fds:
  assumes r: "one_removed i f w w1" and ok: "clients_ok D w" and i: "i \<in> D" "fd (w_conn i w) = f"
    and D: "D \<subseteq> using_set (worker_connection_mgr w)" "tunnel_slot w \<notin> Some ` D"
    and fs: "set (f # fs) = (\<lambda>i. fd (w_conn i w)) ` D" "distinct (f # fs)"
  shows "set fs = (\<lambda>i. fd (w_conn i w1)) ` (D - {i})"
proof -
  have c: "w_conn j w1 = w_conn j w" "fd (w_conn j w) \<noteq> f" if j: "j \<in> D" "j \<noteq> i" for j
  proof -
    have u: "j \<in> using_set (worker_connection_mgr w)" "i \<in> using_set (worker_connection_mgr w)" "tunnel_slot w \<noteq> Some j"
      using D i(1) j(1) by auto
    show "w_conn j w1 = w_conn j w" using r u j(2) unfolding one_removed_def by blast
    show "fd (w_conn j w) \<noteq> f" using using_ids(1) [OF clients_okD(2) [OF ok] u(1,2) j(2)] i(2) by simp
  qed
  have "set fs = (\<lambda>i. fd (w_conn i w)) ` D - {f}" unfolding fs(1) [symmetric] using fs(2) by simp
  also have "\<dots> = (\<lambda>i. fd (w_conn i w)) ` (D - {i})" using c(2) i by blast
  also have "\<dots> = (\<lambda>i. fd (w_conn i w1)) ` (D - {i})" by (rule image_cong) (simp_all add: c(1))
  finally show ?thesis .
qed

lemma all_removed_step:
  assumes r: "one_removed i f w w1" and iD: "i \<in> D" and v: "all_removed (D - {i}) fs w1 v" "timers_kept (D - {i}) w1 v"
  shows "all_removed D (f # fs) w v \<and> timers_kept D w v"
proof -
  have r': "tunnel_kept w w1" "os_closed w1 = os_closed w @ [f]" "using_set (worker_connection_mgr w1) = using_set (worker_connection_mgr w) - {i}"
      "get_conn k (worker_connection_mgr w1) = (if k = f then None else get_conn k (worker_connection_mgr w))" for k
    using r unfolding one_removed_def by blast+
  have v': "worker_ok v" "tunnel_kept w1 v" "os_closed v = os_closed w1 @ fs"
      "using_set (worker_connection_mgr v) = using_set (worker_connection_mgr w1) - (D - {i})"
      "get_conn k (worker_connection_mgr v) = (if k \<in> set fs then None else get_conn k (worker_connection_mgr w1))" for k
    using v(1) unfolding all_removed_def by blast+
  have slot: "tunnel_slot w1 = tunnel_slot w" using r'(1) unfolding tunnel_kept_def by simp
  have j: "w_conn j v = w_conn j w" "tm_abs (m_conn_timeout_timer_manager v) (gid (w_conn j w)) = ctx_timer j w"
    if "j \<in> using_set (worker_connection_mgr w) - D" "tunnel_slot w \<noteq> Some j" for j
  proof -
    have u: "j \<noteq> i" "j \<in> using_set (worker_connection_mgr w)" "j \<in> using_set (worker_connection_mgr w1) - (D - {i})" "tunnel_slot w1 \<noteq> Some j"
      using that iD r'(3) slot by auto
    have a: "w_conn j w1 = w_conn j w" "tm_abs (m_conn_timeout_timer_manager w1) (gid (w_conn j w)) = ctx_timer j w"
      using r u(1,2) that(2) unfolding one_removed_def by blast+
    have b: "w_conn j v = w_conn j w1" using v(1) u(3,4) unfolding all_removed_def by blast
    have d: "tm_abs (m_conn_timeout_timer_manager v) (gid (w_conn j w1)) = ctx_timer j w1"
      using v(2) u(3,4) unfolding timers_kept_def by blast
    show "w_conn j v = w_conn j w" "tm_abs (m_conn_timeout_timer_manager v) (gid (w_conn j w)) = ctx_timer j w"
      using a b d by simp_all
  qed
  have us: "using_set (worker_connection_mgr v) = using_set (worker_connection_mgr w) - D" unfolding v'(4) r'(3) using iD by blast
  show ?thesis
    unfolding all_removed_def timers_kept_def
    using v'(1,3,5) tunnel_kept_trans [OF r'(1) v'(2)] r'(2,4) us j by simp
qed

lemma close_all:
  assumes "clients_ok D w" "others_live w"
    "D \<subseteq> using_set (worker_connection_mgr w)" "tunnel_slot w \<notin> Some ` D" "set fs = (\<lambda>i. fd (w_conn i w)) ` D" "distinct fs"
  shows "all_removed D fs w (fold (close_client_fd h) fs w) \<and> timers_kept D w (fold (close_client_fd h) fs w)"
  using assms
proof (induction fs arbitrary: D w)
  case Nil
  have "D = {}" using Nil.prems(5) by simp
  then show ?case using Nil.prems(1) by (simp add: all_removed_def timers_kept_def tunnel_kept_refl)
next
  case (Cons f fs)
  have "f \<in> (\<lambda>i. fd (w_conn i w)) ` D" unfolding Cons.prems(5) [symmetric] by simp
  then obtain i where i: "i \<in> D" "fd (w_conn i w) = f" by blast
  have iu: "i \<in> using_set (worker_connection_mgr w)" "tunnel_slot w \<noteq> Some i" using i(1) Cons.prems(3,4) by auto
  define w1 where "w1 = close_client_fd h f w"
  have r: "one_removed i f w w1" and ok1: "clients_ok (D - {i}) w1"
    using close_one [OF Cons.prems(1,2) iu, of h] unfolding i(2) w1_def by simp_all
  have k: "using_set (worker_connection_mgr w1) = using_set (worker_connection_mgr w) - {i}" "tunnel_slot w1 = tunnel_slot w"
    using r unfolding one_removed_def tunnel_kept_def by simp_all
  have D1: "D - {i} \<subseteq> using_set (worker_connection_mgr w1)" "tunnel_slot w1 \<notin> Some ` (D - {i})"
    unfolding k using Cons.prems(3,4) by blast+
  have "all_removed (D - {i}) fs w1 (fold (close_client_fd h) fs w1) \<and> timers_kept (D - {i}) w1 (fold (close_client_fd h) fs w1)"
    by (rule Cons.IH [OF ok1 one_removed_live [OF r] D1 one_removed_fds [OF r Cons.prems(1) i Cons.prems(3-6)]])
      (use Cons.prems(6) in simp)
  then show ?case
    unfolding fold_Cons comp_apply w1_def [symmetric] using all_removed_step [OF r i(1)] by blast
qed

text \<open>The part of an iteration that runs once per second.\<close>

lemma timeouts_pass:
  assumes "worker_ok w" "now < UINT64_MAX"
  obtains tm where "check_and_handle (timeout_callback w) now (m_conn_timeout_timer_manager w) {} =
      Some (tm, (\<lambda>i. fd (w_conn i w)) ` overdue now w)" "tm_inv tm"
    "\<And>k. tm_abs tm k = (case tm_abs (m_conn_timeout_timer_manager w) k of
       None \<Rightarrow> None | Some t \<Rightarrow> if m_expired_time t \<le> now then None else Some t)"
proof -
  note ok = clients_okD [OF assms(1)]
  let ?tm = "m_conn_timeout_timer_manager w" and ?D = "overdue now w"
  have once: "m_repeated_times t = 1" if "tm_abs ?tm k = Some t" for k t using timer_owner [OF assms(1) that] by blast
  obtain tm log where p: "check_and_handle (timeout_callback w) now ?tm {} = Some (tm, fold (run_callback (timeout_callback w)) log {})"
    "tm_inv tm" "\<And>t. t \<in> set log \<Longrightarrow> \<exists>t0. tm_abs ?tm (m_id t) = Some t0 \<and> m_callback t = m_callback t0 \<and> m_expired_time t0 \<le> now"
    "\<And>k t. tm_abs ?tm k = Some t \<Longrightarrow> m_expired_time t \<le> now \<Longrightarrow> t \<in> set log"
    "\<And>k. tm_abs tm k = (case tm_abs ?tm k of None \<Rightarrow> None | Some t \<Rightarrow> if m_expired_time t \<le> now then None else Some t)"
    by (rule timer_pass [OF worker_invD(2) [OF ok(1)] assms(2), where exec = "timeout_callback w" and s = "{}"]; use once in blast)
  let ?S = "fold (run_callback (timeout_callback w)) log {}"
  have "?S \<subseteq> (\<lambda>i. fd (w_conn i w)) ` ?D" using timeout_set(1) [OF assms(1) p(3), of log "{}"] by simp
  moreover have "fd (w_conn i w) \<in> ?S" if i: "i \<in> ?D" for i
  proof -
    from i obtain t where t: "ctx_timer i w = Some t" "m_expired_time t \<le> now" by (auto simp: overdue_def)
    have "m_id t = gid (w_conn i w)" using timer_owner [OF assms(1) t(1)] by blast
    then show ?thesis using timeout_set(2) [OF assms(1) p(3) p(4) [OF t] once [OF t(1)] i] by blast
  qed
  ultimately have "?S = (\<lambda>i. fd (w_conn i w)) ` ?D" by auto
  then show thesis using that p(1,2,5) by simp
qed

lemma timeouts_expired:
  fixes S :: "int set"
  assumes "worker_ok w" "tm_inv tm" "\<And>k. tm_abs tm k = (case tm_abs (m_conn_timeout_timer_manager w) k of
       None \<Rightarrow> None | Some t \<Rightarrow> if m_expired_time t \<le> now then None else Some t)"
  defines "w1 \<equiv> w\<lparr>m_latest_tick_time_monotonic := now, m_conn_timeout_timer_manager := tm, m_timeout_fd := S\<rparr>"
  shows "clients_ok (overdue now w) w1"
    "\<And>j. j \<in> using_set (worker_connection_mgr w) \<Longrightarrow> tunnel_slot w \<noteq> Some j \<Longrightarrow> ctx_live j w1"
proof -
  note ok = clients_okD [OF assms(1)]
  have w1: "worker_connection_mgr w1 = worker_connection_mgr w" "tunnel_slot w1 = tunnel_slot w" "tunnel_fd w1 = tunnel_fd w"
      "epoller w1 = epoller w" "m_conn_timeout_timer_manager w1 = tm"
    by (simp_all add: w1_def tunnel_slot_def tunnel_fd_def)
  have inv1: "worker_inv w1" using ok(1) assms(2) by (simp add: w1_def worker_inv_def)
  show live: "ctx_live j w1" if "j \<in> using_set (worker_connection_mgr w)" "tunnel_slot w \<noteq> Some j" for j
    by (rule ctx_live_cong [of j w]) (use ok(4) [of j] that inv1 w1 in simp_all)
  have tok: "timer_ok j w1" if j: "j \<in> using_set (worker_connection_mgr w)" "tunnel_slot w \<noteq> Some j" "j \<notin> overdue now w" for j
    using ok(4) [OF j(1) _ j(2)] j assms(3) [of "gid (w_conn j w)"] w1
    by (cases "ctx_timer j w") (auto simp: timer_ok_def ctx_notified_def overdue_def split: if_splits)
  have "tm_abs (m_conn_timeout_timer_manager w) g \<noteq> None" if "tm_abs tm g \<noteq> None" for g
    using that assms(3) [of g] by (auto split: option.splits)
  then have dm: "\<exists>j \<in> using_set (worker_connection_mgr w). tunnel_slot w \<noteq> Some j \<and> gid (w_conn j w) = g" if "tm_abs tm g \<noteq> None" for g
    using ok(5) that by blast
  show "clients_ok (overdue now w) w1"
    unfolding clients_ok_def w1 using inv1 live tok ok(3) dm by blast
qed

lemma timeouts_ok:
  assumes "env_ok E" "worker_ok w" "m_timeout_fd w = {}" "now < UINT64_MAX" "m_latest_tick_time_monotonic w \<noteq> now"
  obtains w' fs where "worker_timeouts E now w = Some (w', set fs)" "all_removed (overdue now w) fs w w'"
    "set fs = (\<lambda>i. fd (w_conn i w)) ` overdue now w" "distinct fs" "overdue now w' = {}"
proof -
  let ?D = "overdue now w"
  define S where "S = (\<lambda>i. fd (w_conn i w)) ` ?D"
  obtain tm where p: "check_and_handle (timeout_callback w) now (m_conn_timeout_timer_manager w) {} = Some (tm, S)" "tm_inv tm"
    "\<And>k. tm_abs tm k = (case tm_abs (m_conn_timeout_timer_manager w) k of
       None \<Rightarrow> None | Some t \<Rightarrow> if m_expired_time t \<le> now then None else Some t)"
    using timeouts_pass [OF assms(2,4)] unfolding S_def by blast
  have du: "?D \<subseteq> using_set (worker_connection_mgr w)" "tunnel_slot w \<notin> Some ` ?D" by (auto simp: overdue_def)
  have fin: "finite S"
    unfolding S_def using mgr_inv_finite [OF clients_okD(2) [OF assms(2)]] du(1) by (simp add: finite_subset)
  define fs where "fs = p_int_order E S"
  have fs: "set fs = S" "distinct fs" using assms(1) fin by (simp_all add: fs_def env_ok_def)
  define w1 where "w1 = w\<lparr>m_latest_tick_time_monotonic := now, m_conn_timeout_timer_manager := tm, m_timeout_fd := S\<rparr>"
  note e = timeouts_expired [OF assms(2) p(2,3), where S = S, folded w1_def]
  have w1: "worker_connection_mgr w1 = worker_connection_mgr w" "tunnel_slot w1 = tunnel_slot w" "tunnel_in w1 = tunnel_in w"
      "m_conn_timeout_timer_manager w1 = tm" "os_closed w1 = os_closed w"
    by (simp_all add: w1_def tunnel_slot_def tunnel_fd_def tunnel_in_def)
  have lv: "others_live w1" unfolding others_live_def w1 using e(2) by blast
  let ?v = "fold (close_client_fd ctx_on_close) fs w1"
  have cl: "all_removed ?D fs w1 ?v" "\<And>j. j \<in> using_set (worker_connection_mgr w) - ?D \<Longrightarrow> tunnel_slot w \<noteq> Some j \<Longrightarrow>
       tm_abs (m_conn_timeout_timer_manager ?v) (gid (w_conn j w)) = tm_abs tm (gid (w_conn j w))"
    using close_all [OF e(1) lv _ _ _ fs(2), of ctx_on_close] du fs(1) w1 by (simp_all add: S_def timers_kept_def)
  define w' where "w' = ?v\<lparr>m_timeout_fd := {}\<rparr>"
  have w': "worker_connection_mgr w' = worker_connection_mgr ?v" "tunnel_slot w' = tunnel_slot ?v" "tunnel_in w' = tunnel_in ?v"
      "m_conn_timeout_timer_manager w' = m_conn_timeout_timer_manager ?v" "os_closed w' = os_closed ?v"
      "worker_ok w' = worker_ok ?v" "m_timeout_fd w' = {}"
    by (simp_all add: w'_def tunnel_slot_def tunnel_fd_def tunnel_in_def clients_ok_def worker_inv_def ctx_live_def ctx_ok_def
        ctx_attached_def timer_ok_def ctx_notified_def)
  have ar: "all_removed ?D fs w w'"
    using cl(1) w1 w' assms(3) by (simp add: all_removed_def tunnel_kept_def)
  have "i \<notin> overdue now w'" for i
  proof
    assume i: "i \<in> overdue now w'"
    then have u: "i \<in> using_set (worker_connection_mgr w) - ?D" "tunnel_slot w \<noteq> Some i"
      using ar by (auto simp: overdue_def all_removed_def tunnel_kept_def)
    then have c: "w_conn i w' = w_conn i w" using ar by (simp add: all_removed_def)
    obtain t where "ctx_timer i w' = Some t" "m_expired_time t \<le> now" using i by (auto simp: overdue_def)
    then show False using cl(2) [OF u] p(3) [of "gid (w_conn i w)"] c w'(4) by (auto split: option.splits if_splits)
  qed
  moreover have "worker_timeouts E now w = Some (w', set fs)"
    using assms(3,5) p(1) by (simp add: worker_timeouts_def fs fs_def [symmetric] w1_def [symmetric] w'_def Let_def)
  ultimately show thesis using that ar fs S_def by blast
qed

end
