(* ===== verification/Worker_Run.thy ===== *)
theory Worker_Run
  imports Worker_Timeouts
begin

text \<open>
  The whole thread: an iteration and the loop of worker.cpp come to an end for every list of
  answers of the poller and keep what the worker relies on.
\<close>

section \<open>The loop\<close>

lemmas tunnel_state_defs = tunnel_state_def tunnel_slot_def tunnel_fd_def clients_ok_def worker_inv_def ctx_live_def
  ctx_ok_def ctx_attached_def timer_ok_def ctx_notified_def

lemma tunnel_state_upd [simp]:
  "tunnel_state E tf i (w\<lparr>m_closed_fd := S\<rparr>) = tunnel_state E tf i w"
  "tunnel_state E tf i (worker_stop w) = tunnel_state E tf i w"
  "tunnel_state E tf i (w\<lparr>worker_connection_num := n, m_latest_tick_time_monotonic := t\<rparr>) = tunnel_state E tf i w"
  by (cases w; simp only: worker_stop_def tunnel_state_defs worker.simps)+

lemma timeouts_state:
  assumes "env_ok E" "tunnel_state E tf i w" "now < UINT64_MAX"
  shows "\<exists>w' S. worker_timeouts E now w = Some (w', S) \<and> tunnel_state E tf i w'"
proof (cases "m_latest_tick_time_monotonic w = now")
  case True
  then show ?thesis using assms(2) by (simp add: worker_timeouts_def)
next
  case False
  have ok: "worker_ok w" "m_timeout_fd w = {}" using assms(2) by (simp_all add: tunnel_state_def)
  obtain w' fs where t: "worker_timeouts E now w = Some (w', set fs)" "all_removed (overdue now w) fs w w'"
    by (rule timeouts_ok [OF assms(1) ok assms(3) False])
  then have "good w w'" unfolding all_removed_def good_def by simp
  then have "tunnel_state E tf i w'" by (rule tunnel_state_kept [OF assms(2)])
  then show ?thesis using t(1) by blast
qed

fun wait_times :: "wait_result list \<Rightarrow> u64 set" where
  "wait_times [] = {}"
| "wait_times (Wait_error e # rs) = wait_times rs"
| "wait_times (Wait_events now evs # rs) = insert now (wait_times rs)"

context client_task
begin

lemma iteration_state:
  assumes "env_ok E" "tunnel_state E tf i w" "now < UINT64_MAX"
  shows "\<exists>w'. worker_iteration T E Os now evs w = Some w' \<and> tunnel_state E tf i w'"
proof -
  obtain w1 S where t: "worker_timeouts E now (w\<lparr>m_closed_fd := {}\<rparr>) = Some (w1, S)" "tunnel_state E tf i w1"
    using timeouts_state [OF assms(1) _ assms(3), of tf i "w\<lparr>m_closed_fd := {}\<rparr>"] assms(2) by auto
  then show ?thesis using events_state [OF assms(1) t(2)] by (simp add: worker_iteration_def)
qed

lemma loop_state:
  assumes "env_ok E"
  shows "tunnel_state E tf i w \<Longrightarrow> \<forall>now \<in> wait_times rs. now < UINT64_MAX \<Longrightarrow>
    \<exists>w'. worker_loop T E Os rs w = Some w' \<and> tunnel_state E tf i w'"
proof (induction rs arbitrary: w)
  case (Cons r rs)
  show ?case
  proof (cases r)
    case (Wait_error e)
    then show ?thesis using Cons by simp
  next
    case (Wait_events now evs)
    then have "now < UINT64_MAX" using Cons.prems(2) by simp
    from iteration_state [OF assms Cons.prems(1) this, of Os evs]
    obtain w1 where i: "worker_iteration T E Os now evs w = Some w1" "tunnel_state E tf i w1" by blast
    have "\<exists>w'. worker_loop T E Os rs w1 = Some w' \<and> tunnel_state E tf i w'"
      by (rule Cons.IH [OF i(2)]) (use Cons.prems(2) Wait_events in simp)
    then show ?thesis using Wait_events i Cons.prems(1) by simp
  qed
qed simp

lemma run_state:
  assumes "env_ok E" "tunnel_state E tf i w" "\<forall>now \<in> wait_times rs. now < UINT64_MAX"
  shows "\<exists>w'. worker_run T E Os now0 rs w = Some w' \<and> tunnel_state E tf i w'"
  unfolding worker_run_def by (rule loop_state [OF assms(1) _ assms(3)]) (use assms(2) in simp)

end

end
