(* ===== verification/Tasks.thy ===== *)
theory Tasks
  imports Worker_Run Stream_Ctx Websocket_Ctx
begin

text \<open>
  The two tasks that serve clients of the application: their contexts keep the contract that the
  loop of a worker relies on, so everything proved of the loop holds for both. The last section
  follows a stream client from its creation to its closing.
\<close>

section \<open>The tasks\<close>

definition stream_task :: "params \<Rightarrow> unit task" where
  "stream_task E = \<lparr>t_new = client_ctx_new, t_create = stream_on_create E, t_event = stream_on_event E,
     t_forward = stream_on_client_forward_message E\<rparr>"

definition websocket_ctx_new :: websocket_ctx where
  "websocket_ctx_new = ws_reset (client_ctx.extend client_ctx_new
     (websocket_ctx.fields [] [] [] [] [] [] [] [] [] False False False 0 [] []))"

definition websocket_task where
  "websocket_task E L = \<lparr>t_new = websocket_ctx_new, t_create = ws_on_create, t_event = ws_on_event E L,
     t_forward = ws_on_client_forward_message E\<rparr>"

section \<open>A context that is set up\<close>

abbreviation upd_wctx :: "nat \<Rightarrow> ('x client_ctx_scheme \<Rightarrow> 'x client_ctx_scheme) \<Rightarrow> 'x ctx_worker \<Rightarrow> 'x ctx_worker" where
  "upd_wctx i h w \<equiv> upd_wconn i (ctx_ptr_update (map_option h)) w"

definition ready_run :: "nat \<Rightarrow> 'x ctx_worker \<Rightarrow> 'x ctx_worker \<Rightarrow> bool" where
  "ready_run i w w' \<longleftrightarrow> ctx_ready i w' \<and> same_rest i w w' \<and> ctx_timer i w' = ctx_timer i w"

lemma ready_run_refl: "ctx_ready i w \<Longrightarrow> ready_run i w w"
  by (simp add: ready_run_def same_rest_refl)

lemma ready_run_upd:
  assumes "ready_run i w0 w"
  shows "ready_run i w0 (upd_wctx i h w)" "w_conn i (upd_wctx i h w) = ctx_ptr_update (map_option h) (w_conn i w)"
proof -
  have r: "worker_inv w" "i \<in> using_set (worker_connection_mgr w)" using assms by (simp_all add: ready_run_def ctx_ready_def)
  have m: "mgr_inv (worker_connection_mgr w)" by (rule worker_invD(1) [OF r(1)])
  show c: "w_conn i (upd_wctx i h w) = ctx_ptr_update (map_option h) (w_conn i w)"
    using conn_at_upd [OF m r(2)] by simp
  have inv: "worker_inv (upd_wctx i h w)" by (rule worker_inv_upd [OF r(1)]) (use r(2) in \<open>simp_all add: same_id_def\<close>)
  have "ctx_ready i (upd_wctx i h w)"
    using assms inv c by (simp add: ready_run_def ctx_ready_def tunnel_fd_def)
  moreover have "same_rest i w (upd_wctx i h w)" by (rule same_rest_upd [OF m r(2)]) simp_all
  ultimately show "ready_run i w0 (upd_wctx i h w)"
    using assms same_rest_trans [of i w0 w] c by (simp add: ready_run_def)
qed

lemma ready_live: "ctx_ready i w \<Longrightarrow> ctx_attached i w \<Longrightarrow> ctx_live i w"
  by (auto simp: ctx_ready_def ctx_live_def ctx_ok_def tunnel_fd_def)

lemma created_run:
  assumes "ready_run i w w1" "ctx_run i w1 w'"
  shows "ctx_live i w' \<and> same_rest i w w' \<and> (ctx_timer i w' = ctx_timer i w \<or> ctx_timer i w' = None \<and> ctx_notified i w')"
  using assms same_rest_trans [of i w w1 w'] by (auto simp: ready_run_def ctx_run_def)

lemma created_live:
  assumes "ready_run i w w1" "ctx_attached i w1"
  shows "ctx_live i w1 \<and> same_rest i w w1 \<and> (ctx_timer i w1 = ctx_timer i w \<or> ctx_timer i w1 = None \<and> ctx_notified i w1)"
  using assms ready_live by (auto simp: ready_run_def)

lemma stream_on_create_ready:
  assumes "ctx_ready i w"
  shows "ctx_live i (stream_on_create E i w) \<and> same_rest i w (stream_on_create E i w) \<and>
    (ctx_timer i (stream_on_create E i w) = ctx_timer i w \<or>
     ctx_timer i (stream_on_create E i w) = None \<and> ctx_notified i (stream_on_create E i w))"
proof -
  let ?a = "\<lambda>x :: client_ctx. x\<lparr>sc_conn_ptr := Some i, sc_worker_ptr := True\<rparr>"
  define w1 where "w1 = ctx_mark_notified i False w"
  define w2 where "w2 = upd_wctx i ?a w1"
  note r1 = ready_run_upd [OF ready_run_refl [OF assms], of "app_layer_notified_update (\<lambda>_. False)", folded ctx_mark_notified_def, folded w1_def]
  note r2 = ready_run_upd [OF r1(1), of ?a, folded w2_def]
  have "ctx_ptr (w_conn i w) \<noteq> None" using assms by (simp add: ctx_ready_def)
  then have at: "ctx_attached i w2" using r1(2) r2(2) by (auto simp: ctx_attached_def)
  have l: "ctx_live i w2" using created_live [OF r2(1) at] by blast
  show ?thesis
    unfolding stream_on_create_def Let_def w1_def [symmetric] w2_def [symmetric]
    using created_live [OF r2(1) at] created_run [OF r2(1) stream_run_announce [OF ctx_run_refl [OF l], of E]] by simp
qed

lemma ws_on_create_ready:
  assumes "ctx_ready i w"
  shows "ctx_live i (ws_on_create i w) \<and> same_rest i w (ws_on_create i w) \<and>
    (ctx_timer i (ws_on_create i w) = ctx_timer i w \<or> ctx_timer i (ws_on_create i w) = None \<and> ctx_notified i (ws_on_create i w))"
proof -
  let ?a = "\<lambda>x :: websocket_ctx. x\<lparr>sc_conn_ptr := Some i, sc_worker_ptr := True\<rparr>"
  define w1 where "w1 = ctx_mark_notified i False w"
  define w2 where "w2 = upd_ctx i ?a w1"
  define w3 where "w3 = upd_ctx i ws_reset w2"
  note r1 = ready_run_upd [OF ready_run_refl [OF assms], of "app_layer_notified_update (\<lambda>_. False)", folded ctx_mark_notified_def, folded w1_def]
  note r2 = ready_run_upd [OF r1(1), of ?a, folded upd_ctx_def, folded w2_def]
  note r3 = ready_run_upd [OF r2(1), of ws_reset, folded upd_ctx_def, folded w3_def]
  have "ctx_ptr (w_conn i w) \<noteq> None" using assms by (simp add: ctx_ready_def)
  then have at: "ctx_attached i w3" using r1(2) r2(2) r3(2) by (auto simp: ctx_attached_def ws_reset_def)
  show ?thesis
    unfolding ws_on_create_def Let_def w1_def [symmetric] w2_def [symmetric] w3_def [symmetric]
    by (rule created_live [OF r3(1) at])
qed

lemma stream_run_forward_message:
  "ctx_live i w \<Longrightarrow> ctx_run i w (stream_on_client_forward_message E i m w)"
  by (simp add: stream_on_client_forward_message_def stream_send_sync_package_def ctx_run_ops ctx_run_send_data ctx_run_refl)

lemma ws_run_send: "ctx_live i w \<Longrightarrow> ctx_run i w (snd (ws_send_sync_package i b d w))"
  by (simp add: ws_send_sync_package_def ctx_run_ops ctx_run_send_data ctx_run_refl)

lemma ws_run_forward_message: "ctx_live i w \<Longrightarrow> ctx_run i w (ws_on_client_forward_message E i m w)"
  by (simp add: ws_on_client_forward_message_def ws_run_send ctx_run_refl split: option.splits)

lemma stream_on_event_removed:
  assumes "ctx_live i w" "ctx_closing i ev w"
  shows "client_removed i w (stream_on_event E i ev w) \<and> worker_inv (stream_on_event E i ev w)"
proof -
  have at: "ctx_attached i w" using assms(1) by (simp add: ctx_live_def ctx_ok_def)
  have "stream_on_event E i ev w = ctx_close E i (if ev AND ERR \<noteq> 0 then set_conn_is_close i True w else w)"
    using at ctx_closing_gone(1) [OF assms(1), of E ev] ctx_closing_gone(2) [OF assms] by (simp add: stream_on_event_def Let_def split del: if_split)
  then show ?thesis
    using ctx_closing_removed [OF assms(1), of E ev] stream_on_event_closing [OF assms, of E] unfolding ctx_gone_def by metis
qed

lemma ws_on_event_removed:
  assumes "ctx_live i w" "ctx_closing i ev w"
  shows "client_removed i w (ws_on_event E L i ev w) \<and> worker_inv (ws_on_event E L i ev w)"
proof -
  have at: "ctx_attached i w" using assms(1) by (simp add: ctx_live_def ctx_ok_def)
  have "ws_on_event E L i ev w = ctx_close E i (if ev AND ERR \<noteq> 0 then set_conn_is_close i True w else w)"
    using at ctx_closing_gone(1) [OF assms(1), of E ev] ctx_closing_gone(2) [OF assms] by (simp add: ws_on_event_def Let_def split del: if_split)
  then show ?thesis
    using ctx_closing_removed [OF assms(1), of E ev] ws_on_event_closing [OF assms, of E L] unfolding ctx_gone_def by metis
qed

interpretation stask: client_task "stream_task E" for E
  by unfold_locales
    (simp_all add: stream_task_def stream_on_event_open stream_on_event_removed stream_run_forward_message stream_on_create_ready)

interpretation wtask: client_task "websocket_task E L" for E L
  by unfold_locales
    (simp_all add: websocket_task_def ws_on_event_open ws_on_event_removed ws_run_forward_message ws_on_create_ready)

section \<open>The life of a stream client\<close>

text \<open>What the worker calls on a context between its creation and its closing: events and messages for the client.\<close>

datatype stream_op = Op_event u32 | Op_forward client_forward_message

primrec stream_op_step :: "params \<Rightarrow> nat \<Rightarrow> stream_op \<Rightarrow> stream_worker \<Rightarrow> stream_worker" where
  "stream_op_step E i (Op_event ev) w = stream_on_event E i ev w"
| "stream_op_step E i (Op_forward m) w = stream_on_client_forward_message E i m w"

text \<open>None of the events finds the connection in error or marked for closing.\<close>

fun stream_open :: "params \<Rightarrow> nat \<Rightarrow> stream_op list \<Rightarrow> stream_worker \<Rightarrow> bool" where
  "stream_open E i [] w \<longleftrightarrow> True"
| "stream_open E i (Op_event ev # ops) w \<longleftrightarrow>
     ev AND ERR = 0 \<and> \<not> is_close (w_conn i w) \<and> stream_open E i ops (stream_on_event E i ev w)"
| "stream_open E i (Op_forward m # ops) w \<longleftrightarrow> stream_open E i ops (stream_on_client_forward_message E i m w)"

abbreviation ready_ssl :: "params \<Rightarrow> nat \<Rightarrow> stream_worker \<Rightarrow> bool" where
  "ready_ssl E i w \<equiv> is_ready (w_conn i w) \<longleftrightarrow> \<not> p_use_ssl E \<or> m_ssl_accepted (socket_obj (w_conn i w))"

abbreviation said_wire :: "params \<Rightarrow> int \<Rightarrow> u64 \<Rightarrow> bytes list \<Rightarrow> bytes" where
  "said_wire E idx g ds \<equiv> concat (map (\<lambda>d. luavm_wire E idx g (the (parse_package E d))) ds)"

text \<open>The part of a life that is open: the opening is reported when the connection becomes ready, and packages only behind it.\<close>

definition life_report :: "params \<Rightarrow> nat \<Rightarrow> stream_worker \<Rightarrow> stream_worker \<Rightarrow> bool" where
  "life_report E i w w' \<longleftrightarrow>
     ctx_run i w w' \<and> ready_ssl E i w' \<and> (is_ready (w_conn i w) \<longrightarrow> is_ready (w_conn i w')) \<and>
     (\<exists>ds. list_all (\<lambda>d. parse_package E d \<noteq> None) ds \<and> (\<not> is_ready (w_conn i w') \<longrightarrow> ds = []) \<and>
        tunnel_stream w' = tunnel_stream w @
          (if is_ready (w_conn i w') \<and> \<not> is_ready (w_conn i w)
           then new_wire E (worker_idx w) (gid (w_conn i w)) (p_peer E (fd (w_conn i w))) else []) @
          said_wire E (worker_idx w) (gid (w_conn i w)) ds)"

lemma life_report_trans:
  assumes "life_report E i w w'" "life_report E i w' w''"
  shows "life_report E i w w''"
proof -
  have r: "ctx_run i w w'" "ctx_run i w' w''" using assms by (simp_all add: life_report_def)
  note id = ctx_run_ids [OF r(1)]
  obtain ds where 1: "list_all (\<lambda>d. parse_package E d \<noteq> None) ds" "\<not> is_ready (w_conn i w') \<Longrightarrow> ds = []"
      "tunnel_stream w' = tunnel_stream w @ (if is_ready (w_conn i w') \<and> \<not> is_ready (w_conn i w)
         then new_wire E (worker_idx w) (gid (w_conn i w)) (p_peer E (fd (w_conn i w))) else []) @ said_wire E (worker_idx w) (gid (w_conn i w)) ds"
    using assms(1) unfolding life_report_def by blast
  obtain ds' where 2: "list_all (\<lambda>d. parse_package E d \<noteq> None) ds'" "\<not> is_ready (w_conn i w'') \<Longrightarrow> ds' = []"
      "tunnel_stream w'' = tunnel_stream w' @ (if is_ready (w_conn i w'') \<and> \<not> is_ready (w_conn i w')
         then new_wire E (worker_idx w) (gid (w_conn i w)) (p_peer E (fd (w_conn i w))) else []) @ said_wire E (worker_idx w) (gid (w_conn i w)) ds'"
    using assms(2) unfolding life_report_def id by blast
  have m: "is_ready (w_conn i w) \<Longrightarrow> is_ready (w_conn i w')" "is_ready (w_conn i w') \<Longrightarrow> is_ready (w_conn i w'')" "ready_ssl E i w''"
    using assms unfolding life_report_def by blast+
  have "tunnel_stream w'' = tunnel_stream w @ (if is_ready (w_conn i w'') \<and> \<not> is_ready (w_conn i w)
         then new_wire E (worker_idx w) (gid (w_conn i w)) (p_peer E (fd (w_conn i w))) else []) @
         said_wire E (worker_idx w) (gid (w_conn i w)) (ds @ ds')"
    using 1(2,3) 2(3) m by (cases "is_ready (w_conn i w')") auto
  then show ?thesis
    unfolding life_report_def using 1(1,2) 2(1,2) m ctx_run_trans [OF r] by (intro conjI exI [of _ "ds @ ds'"]) auto
qed

lemma event_report_life:
  assumes "ctx_run i w w'" "event_report E i w w'" "ready_ssl E i w"
  shows "life_report E i w w'"
proof -
  obtain ds where ds: "sent_by E i ds w" "p_use_ssl E \<and> \<not> m_ssl_accepted (socket_obj (w_conn i w')) \<longrightarrow> ds = []"
      "tunnel_stream w' = tunnel_stream w @ (if completes_handshake E i w
         then new_wire E (worker_idx w) (gid (w_conn i w)) (p_peer E (fd (w_conn i w))) else []) @ said_wire E (worker_idx w) (gid (w_conn i w)) ds"
    using assms(2) unfolding event_report_def by blast
  have c: "completes_handshake E i w \<Longrightarrow> \<not> is_ready (w_conn i w)" using assms(3) by (simp add: completes_handshake_def)
  have r: "is_ready (w_conn i w') \<longleftrightarrow> is_ready (w_conn i w) \<or> completes_handshake E i w"
    "m_ssl_accepted (socket_obj (w_conn i w')) \<longleftrightarrow> m_ssl_accepted (socket_obj (w_conn i w)) \<or> completes_handshake E i w"
    using assms(2) by (simp_all add: event_report_def)
  have s: "ready_ssl E i w'" using r assms(3) by (auto simp: completes_handshake_def)
  then show ?thesis
    unfolding life_report_def using assms(1) ds r c by (intro conjI exI [of _ ds]) (auto simp: sent_by_def)
qed

lemma open_life:
  "ctx_live i w \<Longrightarrow> ready_ssl E i w \<Longrightarrow> stream_open E i ops w \<Longrightarrow> life_report E i w (fold (stream_op_step E i) ops w)"
proof (induction ops arbitrary: w)
  case Nil
  then show ?case unfolding life_report_def by (intro conjI exI [of _ "[]"]) (auto simp: ctx_run_refl)
next
  case (Cons op ops)
  let ?w' = "stream_op_step E i op w"
  have "life_report E i w ?w' \<and> stream_open E i ops ?w'"
  proof (cases op)
    case (Op_event ev)
    then have nc: "\<not> ctx_closing i ev w" using Cons.prems(3) by (simp add: ctx_closing_def)
    show ?thesis
      using event_report_life [OF stream_on_event_open [OF Cons.prems(1) nc] stream_on_event_report [OF Cons.prems(1) nc] Cons.prems(2)]
        Cons.prems(3) Op_event by simp
  next
    case (Op_forward m)
    have "client_said E i [] w ?w'" using forward_said [OF Cons.prems(1)] Op_forward by simp
    then have "life_report E i w ?w'"
      unfolding life_report_def using Cons.prems(2) by (intro conjI exI [of _ "[]"]) (auto simp: client_said_def)
    then show ?thesis using Cons.prems(3) Op_forward by simp
  qed
  then have r: "life_report E i w ?w'" "stream_open E i ops ?w'" by simp_all
  then have "life_report E i ?w' (fold (stream_op_step E i) ops ?w')"
    by (intro Cons.IH) (auto simp: life_report_def ctx_run_live)
  then show ?case using life_report_trans [OF r(1)] by simp
qed

lemma tunnel_stream_ready: "ctx_ready i w \<Longrightarrow> tunnel_stream (upd_wconn i h w) = tunnel_stream w"
proof -
  assume a: "ctx_ready i w"
  then have inv: "worker_inv w" and u: "i \<in> using_set (worker_connection_mgr w)" by (simp_all add: ctx_ready_def)
  obtain sock j where t: "main_worker_tunnel w = Some sock" "get_conn (m_sockfd sock) (worker_connection_mgr w) = Some j"
      "mgr_inv (worker_connection_mgr w)"
    using inv by (rule worker_inv_tunnel)
  have "j \<noteq> i" using get_conn_facts(2) [OF t(3,2)] a t(1) by (auto simp: ctx_ready_def tunnel_fd_def)
  then show ?thesis using t u by (simp add: tunnel_stream_def conn_at_upd)
qed

lemma stream_on_create_life:
  assumes "ctx_ready i w" "\<not> is_ready (w_conn i w)" "\<not> m_ssl_accepted (socket_obj (w_conn i w))"
  shows "ready_ssl E i (stream_on_create E i w)" "is_ready (w_conn i (stream_on_create E i w)) \<longleftrightarrow> \<not> p_use_ssl E"
    "tunnel_stream (stream_on_create E i w) = tunnel_stream w @
      (if p_use_ssl E then [] else new_wire E (worker_idx w) (gid (w_conn i w)) (p_peer E (fd (w_conn i w))))"
proof -
  let ?a = "\<lambda>x :: client_ctx. x\<lparr>sc_conn_ptr := Some i, sc_worker_ptr := True\<rparr>"
  define w1 where "w1 = ctx_mark_notified i False w"
  define w2 where "w2 = upd_wctx i ?a w1"
  note r1 = ready_run_upd [OF ready_run_refl [OF assms(1)], of "app_layer_notified_update (\<lambda>_. False)", folded ctx_mark_notified_def, folded w1_def]
  note r2 = ready_run_upd [OF r1(1), of ?a, folded w2_def]
  have "ctx_ptr (w_conn i w) \<noteq> None" using assms(1) by (simp add: ctx_ready_def)
  then have at: "ctx_attached i w2" using r1(2) r2(2) by (auto simp: ctx_attached_def)
  have l: "ctx_live i w2" using created_live [OF r2(1) at] by blast
  note a = announce_said [OF l, of E]
  have c: "is_ready (w_conn i w2) = is_ready (w_conn i w)" "socket_obj (w_conn i w2) = socket_obj (w_conn i w)"
      "gid (w_conn i w2) = gid (w_conn i w)" "fd (w_conn i w2) = fd (w_conn i w)" "worker_idx w2 = worker_idx w"
    using r1(2) r2(2) by (simp_all add: w2_def w1_def ctx_mark_notified_def)
  have t: "tunnel_stream w2 = tunnel_stream w"
    using tunnel_stream_ready [OF assms(1)] tunnel_stream_ready [of i w1] r1(1) by (simp add: w2_def w1_def ctx_mark_notified_def ready_run_def)
  have e: "stream_on_create E i w = (if \<not> p_use_ssl E then stream_announce E i w2 else w2)"
    by (simp add: stream_on_create_def w1_def w2_def Let_def)
  show "ready_ssl E i (stream_on_create E i w)" "is_ready (w_conn i (stream_on_create E i w)) \<longleftrightarrow> \<not> p_use_ssl E"
    "tunnel_stream (stream_on_create E i w) = tunnel_stream w @
      (if p_use_ssl E then [] else new_wire E (worker_idx w) (gid (w_conn i w)) (p_peer E (fd (w_conn i w))))"
    unfolding e using a(2,3,5) c t assms(2,3) by simp_all
qed



end
