(* ===== verification/Codec.thy ===== *)
theory Codec
  imports Messages
begin

text \<open>
  A codec for the messages of the tunnel that keeps every field, as an instance of the parameters:
  the examples run on it, and it keeps what is assumed of protobuf. Numbers that do not
  fit the field are refused.
\<close>

definition byte_ok :: "int \<Rightarrow> bool" where
  "byte_ok c \<longleftrightarrow> 0 \<le> c \<and> c < 256"

lemma uint_of_byte: "byte_ok c \<Longrightarrow> uint (of_int c :: 8 word) = c"
  by (simp add: byte_ok_def uint_word_of_int take_bit_eq_mod)

definition id_ok :: "int \<Rightarrow> bool" where
  "id_ok c \<longleftrightarrow> - 128 \<le> c \<and> c < 128"

lemma sint_of_id: "id_ok c \<Longrightarrow> sint (of_int c :: 8 word) = c"
  by (simp add: id_ok_def signed_of_int signed_take_bit_int_eq_self_iff)

definition c_ser_package :: "proto_package serializer" where
  "c_ser_package p = (if byte_ok (cmd p) then Some (of_int (cmd p) # protocol p) else None)"

definition c_parse_package :: "proto_package parser" where
  "c_parse_package d = Some (case d of [] \<Rightarrow> package_default | c # b \<Rightarrow> \<lparr>cmd = uint c, protocol = b\<rparr>)"

definition c_ser_tunnel :: "tunnel_package serializer" where
  "c_ser_tunnel t =
     (if id_ok (sourcetunnelsid t) \<and> list_all id_ok (targettunnelsid t) \<and> length (targettunnelsid t) < 256 \<and> byte_ok (cmd (tp_inner t))
      then Some (of_int (sourcetunnelsid t) # of_nat (length (targettunnelsid t)) # map of_int (targettunnelsid t) @
                 (if targetallworker t then 1 else 0) # of_int (cmd (tp_inner t)) # protocol (tp_inner t))
      else None)"

definition c_parse_tunnel :: "tunnel_package parser" where
  "c_parse_tunnel d =
     (case d of
        [] \<Rightarrow> Some \<lparr>sourcetunnelsid = 0, targettunnelsid = [], targetallworker = False, tp_inner = package_default\<rparr>
      | [_] \<Rightarrow> None
      | s # n # r \<Rightarrow>
          (case drop (unat n) r of
             a # c # b \<Rightarrow> Some \<lparr>sourcetunnelsid = sint s, targettunnelsid = map sint (take (unat n) r),
                             targetallworker = (a \<noteq> 0), tp_inner = \<lparr>cmd = uint c, protocol = b\<rparr>\<rparr>
           | _ \<Rightarrow> None))"

fun take_u64s :: "nat \<Rightarrow> bytes \<Rightarrow> u64 list" where
  "take_u64s 0 d = []"
| "take_u64s (Suc n) d = u64_of_mem (take 8 d) # take_u64s n (drop 8 d)"

definition c_ser_forward :: "client_forward_message serializer" where
  "c_ser_forward m =
     (if length (targetgid m) < 256 \<and> byte_ok (cmd (cf_inner m))
      then Some (of_nat (length (targetgid m)) # of_int (cmd (cf_inner m)) # mem_of_u64 (sourcegid m) @
                 concat (map mem_of_u64 (targetgid m)) @ protocol (cf_inner m))
      else None)"

definition c_parse_forward :: "client_forward_message parser" where
  "c_parse_forward d =
     (case d of
        [] \<Rightarrow> Some \<lparr>sourcegid = 0, targetgid = [], cf_inner = package_default\<rparr>
      | [_] \<Rightarrow> None
      | n # c # r \<Rightarrow> Some \<lparr>sourcegid = u64_of_mem (take 8 r), targetgid = take_u64s (unat n) (drop 8 r),
                         cf_inner = \<lparr>cmd = uint c, protocol = drop (8 + 8 * unat n) r\<rparr>\<rparr>)"

definition c_ser_new_client :: "main2worker_new_client serializer" where
  "c_ser_new_client m = (if byte_ok (nc_fd m) then Some (of_int (nc_fd m) # mem_of_u64 (nc_gid m)) else None)"

definition c_parse_new_client :: "main2worker_new_client parser" where
  "c_parse_new_client d = Some (case d of [] \<Rightarrow> \<lparr>nc_fd = 0, nc_gid = 0\<rparr> | c # b \<Rightarrow> \<lparr>nc_fd = uint c, nc_gid = u64_of_mem (take 8 b)\<rparr>)"

definition codec_params :: params where
  "codec_params = demo_params\<lparr>
     ser_package := c_ser_package, parse_package := c_parse_package, ser_tunnel := c_ser_tunnel, parse_tunnel := c_parse_tunnel,
     ser_forward := c_ser_forward, parse_forward := c_parse_forward, ser_new_client := c_ser_new_client,
     parse_new_client := c_parse_new_client, p_gid_order := \<lambda>m. sorted_list_of_set (dom m)\<rparr>"

lemma codec_params_simps [simp]:
  "ser_package codec_params = c_ser_package" "parse_package codec_params = c_parse_package"
  "ser_tunnel codec_params = c_ser_tunnel" "parse_tunnel codec_params = c_parse_tunnel"
  "ser_forward codec_params = c_ser_forward" "parse_forward codec_params = c_parse_forward"
  "ser_new_client codec_params = c_ser_new_client" "parse_new_client codec_params = c_parse_new_client"
  "p_use_ssl codec_params = False" "m_worker_cnt (p_tunnels codec_params) = 4" "p_pick codec_params = Min"
  "p_int_order codec_params = sorted_list_of_set"
  by (simp_all add: codec_params_def demo_params_def)

lemma take_u64s_concat: "take_u64s (length gs) (concat (map mem_of_u64 gs) @ r) = gs"
  by (induction gs) simp_all

lemma length_concat_u64: "length (concat (map mem_of_u64 gs)) = 8 * length gs"
  by (induction gs) simp_all

lemma codec_package: "round_trips c_ser_package c_parse_package"
  by (auto simp: round_trips_def c_ser_package_def c_parse_package_def uint_of_byte split: if_splits)

lemma unat_of_byte: "n < 256 \<Longrightarrow> unat (of_nat n :: 8 word) = n"
  by (simp add: unat_of_nat)

lemma codec_tunnel: "round_trips c_ser_tunnel c_parse_tunnel"
proof -
  have "map (sint \<circ> (of_int :: int \<Rightarrow> 8 word)) xs = xs" if "list_all id_ok xs" for xs
    using that by (induction xs) (simp_all add: sint_of_id)
  then show ?thesis
    by (auto simp: round_trips_def c_ser_tunnel_def c_parse_tunnel_def uint_of_byte sint_of_id unat_of_byte split: if_splits)
qed

lemma codec_forward: "round_trips c_ser_forward c_parse_forward"
  by (auto simp: round_trips_def c_ser_forward_def c_parse_forward_def uint_of_byte unat_of_byte take_u64s_concat length_concat_u64
      split: if_splits)

lemma codec_new_client: "round_trips c_ser_new_client c_parse_new_client"
  by (auto simp: round_trips_def c_ser_new_client_def c_parse_new_client_def uint_of_byte split: if_splits)

end
