(* ===== verification/Worker_Props.thy ===== *)
theory Worker_Props
  imports Tasks Codec
begin

text \<open>
  What the loop of a worker guarantees for the two tasks, stated over the definitions, with a
  concrete worker for each statement.
\<close>

section \<open>A concrete worker\<close>

lemma codec_env_ok: "env_ok codec_params"
  using codec_tunnel
  by (simp add: env_ok_def c_parse_tunnel_def package_default_def picks_def)

lemma demo_slots:
  "using_set (worker_connection_mgr (demo_worker x rc rx tx)) = {0, 1}" "tunnel_slot (demo_worker x rc rx tx) = Some 0"
  "tunnel_fd (demo_worker x rc rx tx) = Some 5" "m_timeout_fd (demo_worker x rc rx tx) = {}"
  "gid (w_conn 1 (demo_worker x rc rx tx)) = 4096" "fd (w_conn 1 (demo_worker x rc rx tx)) = 9"
  "ctx_ptr (w_conn 1 (demo_worker x rc rx tx)) = x" "ctx_ptr (w_conn 0 (demo_worker x rc rx tx)) = None"
  by (simp_all add: demo_worker_def demo_mgr_def tunnel_slot_def tunnel_fd_def get_conn_def conn_at_def on_alloc_def connection_new_def)

text \<open>The worker with the given timers, and what the main thread has written into the tunnel.\<close>

definition demo_timed :: "'x client_ctx_scheme \<Rightarrow> int timer_manager \<Rightarrow> 'x ctx_worker" where
  "demo_timed x tm = (demo_worker (Some x) [] [] [])\<lparr>m_conn_timeout_timer_manager := tm\<rparr>"

definition demo_tunnel :: "'x client_ctx_scheme \<Rightarrow> bytes \<Rightarrow> rx_event list \<Rightarrow> 'x ctx_worker" where
  "demo_tunnel x received rx =
     upd_wconn 0 (recv_buffer_update (\<lambda>_. \<lparr>m_data = received, m_capacity = 20480\<rparr>))
       ((demo_timed x tm_empty)\<lparr>main_worker_tunnel := Some (socket_new\<lparr>m_sockfd := 5, k_rx := rx\<rparr>), w_to_stop := False\<rparr>)"

lemma demo_timed_ok:
  assumes "sc_conn_ptr x \<noteq> None" "sc_worker_ptr x" "tm_inv tm"
    "tm_abs tm = [4096 \<mapsto> timeout_timer 4096 t 9] \<or> tm_abs tm = Map.empty \<and> app_layer_notified x"
  shows "worker_ok (demo_timed x tm)"
proof -
  let ?w = "demo_worker (Some x) [] [] []"
  have l: "ctx_live 1 ?w" by (rule demo_ctx_live [OF assms(1,2)])
  have inv: "worker_inv (demo_timed x tm)"
    using demo_worker_inv [of "Some x" "[]" "[]" "[]"] assms(3) by (simp add: demo_timed_def worker_inv_def)
  have f: "worker_connection_mgr (demo_timed x tm) = worker_connection_mgr ?w" "tunnel_slot (demo_timed x tm) = Some 0"
      "tunnel_fd (demo_timed x tm) = tunnel_fd ?w" "epoller (demo_timed x tm) = epoller ?w" "m_conn_timeout_timer_manager (demo_timed x tm) = tm"
    using demo_slots(2) by (simp_all add: demo_timed_def tunnel_slot_def tunnel_fd_def)
  have "ctx_live 1 (demo_timed x tm)" by (rule ctx_live_cong [OF l inv]) (simp_all add: f demo_slots del: One_nat_def)
  moreover have "timer_ok 1 (demo_timed x tm)"
    using assms(4) by (auto simp: timer_ok_def ctx_notified_def f demo_slots timeout_timer_def timer_new_def simp del: One_nat_def)
  ultimately show ?thesis
    unfolding clients_ok_def using inv assms(4) by (auto simp: f demo_slots simp del: One_nat_def split: if_splits)
qed

lemma demo_tunnel_ok:
  assumes "sc_conn_ptr x \<noteq> None" "sc_worker_ptr x" "app_layer_notified x"
  shows "worker_ok (demo_tunnel x received rx)" "tunnel_fd (demo_tunnel x received rx) = Some 5"
    "tunnel_slot (demo_tunnel x received rx) = Some 0" "m_timeout_fd (demo_tunnel x received rx) = {}"
    "m_data (recv_buffer (w_conn 0 (demo_tunnel x received rx))) = received"
    "k_rx (the (main_worker_tunnel (demo_tunnel x received rx))) = rx"
proof -
  have ok: "worker_ok (demo_timed x tm_empty)" by (rule demo_timed_ok [OF assms(1,2)]) (use assms(3) in simp_all)
  have s: "tunnel_slot (demo_timed x tm_empty) = Some 0" "tunnel_fd (demo_timed x tm_empty) = Some (m_sockfd (socket_new\<lparr>m_sockfd := 5, k_rx := rx\<rparr>))"
      "m_timeout_fd (demo_timed x tm_empty) = {}"
    using demo_slots by (simp_all add: demo_timed_def tunnel_slot_def tunnel_fd_def)
  note t = tunnel_recv_upd [OF ok s(1,2), of "\<lambda>_. \<lparr>m_data = received, m_capacity = 20480\<rparr>" False, folded demo_tunnel_def]
  show "worker_ok (demo_tunnel x received rx)" "tunnel_fd (demo_tunnel x received rx) = Some 5"
    "tunnel_slot (demo_tunnel x received rx) = Some 0" "m_timeout_fd (demo_tunnel x received rx) = {}"
    "m_data (recv_buffer (w_conn 0 (demo_tunnel x received rx))) = received"
    "k_rx (the (main_worker_tunnel (demo_tunnel x received rx))) = rx"
    using t s(3) by simp_all
qed

lemma all_messages_Nil [simp]: "all_messages E [] = []"
  by (subst all_messages.simps) simp

lemma all_messages_frame:
  assumes "parse_package E d = Some p" "d \<noteq> []" "length d < 2 ^ 64"
  shows "all_messages E (frame d @ rest) = p # all_messages E rest"
  using assms by (subst all_messages.simps) (simp add: unat_of_nat)

text \<open>The announcement of a client, and what its descriptor will do.\<close>

definition demo_announcement :: "int \<Rightarrow> u64 \<Rightarrow> tunnel_package" where
  "demo_announcement f g = \<lparr>sourcetunnelsid = 0, targettunnelsid = [1], targetallworker = False,
     tp_inner = \<lparr>cmd = 2, protocol = of_int f # mem_of_u64 g\<rparr>\<rparr>"

definition demo_body :: "int \<Rightarrow> u64 \<Rightarrow> bytes" where
  "demo_body f g = 3 # the (c_ser_tunnel (demo_announcement f g))"

definition demo_os :: "u64 \<Rightarrow> os_client" where
  "demo_os g = \<lparr>oc_memory = True, oc_ssl = True, oc_rx = [], oc_tx = [], oc_hs = []\<rparr>"

lemma demo_body_parse:
  "parse_package codec_params (demo_body f g) = Some \<lparr>cmd = 3, protocol = the (c_ser_tunnel (demo_announcement f g))\<rparr>"
  "demo_body f g \<noteq> []" "length (demo_body f g) < 2 ^ 64"
  by (simp_all add: demo_body_def c_parse_package_def c_ser_tunnel_def demo_announcement_def byte_ok_def id_ok_def)

lemma demo_announces:
  assumes "byte_ok f"
  shows "announces codec_params \<lparr>cmd = 3, protocol = the (c_ser_tunnel (demo_announcement f g))\<rparr> = Some f"
proof -
  obtain d where d: "c_ser_tunnel (demo_announcement f g) = Some d"
    by (simp add: c_ser_tunnel_def demo_announcement_def byte_ok_def id_ok_def)
  then have "c_parse_tunnel d = Some (demo_announcement f g)" using codec_tunnel by (simp add: round_trips_def)
  then show ?thesis
    using d assms by (simp add: announces_def proto_cmds demo_announcement_def proto_parse_def c_parse_new_client_def uint_of_byte)
qed

lemma demo_input_ok:
  assumes "byte_ok f" "f \<noteq> 5"
  shows "input_ok codec_params (Some 5) (frame (demo_body f g))"
  using all_messages_frame [OF demo_body_parse, of f g "[]"] demo_announces [OF assms(1), of g] assms(2)
  by (simp add: input_ok_def)

section \<open>The loop\<close>

text \<open>
  C28. The loop of a worker that serves stream clients comes to an end for every list of answers
  of the poller, whatever the clients, the kernel and the other threads do, as long as no message
  announces the tunnel's own descriptor and the clock is below its last value; and it keeps the
  tables of the worker consistent: every connection of the pool is a live client, registered
  with the poller, whose timeout timer runs until it is announced.
\<close>

theorem stream_worker_safe:
  assumes "env_ok E" "tunnel_state E tf i w" "\<forall>now \<in> wait_times rs. now < UINT64_MAX"
  shows "\<exists>w'. worker_run (stream_task E) E Os now0 rs w = Some w' \<and> tunnel_state E tf i w'"
  by (rule stask.run_state [OF assms])

theorem stream_worker_safe_witness:
  "\<exists>w'. worker_run (stream_task codec_params) codec_params demo_os 100 [Wait_events 101 [(5, READ)], Wait_events 107 [(9, ERR), (11, READ)]]
     (demo_tunnel demo_ctx [] [Rx_data (frame (demo_body 11 8192))]) = Some w' \<and> tunnel_state codec_params 5 0 w'"
proof -
  have "tunnel_state codec_params 5 0 (demo_tunnel demo_ctx [] [Rx_data (frame (demo_body 11 8192))])"
    using demo_tunnel_ok [of demo_ctx "[]" "[Rx_data (frame (demo_body 11 8192))]"] demo_input_ok [of 11 8192]
    by (simp add: tunnel_state_def byte_ok_def)
  from stream_worker_safe [OF codec_env_ok this,
      of "[Wait_events 101 [(5, READ)], Wait_events 107 [(9, ERR), (11, READ)]]" demo_os 100]
  show ?thesis by (simp add: UINT64_MAX_def)
qed

text \<open>
  C29. The same of a worker that serves websocket clients, under the same two conditions, whatever the
  HTTP parser calls back.
\<close>

theorem websocket_worker_safe:
  assumes "env_ok E" "tunnel_state E tf i w" "\<forall>now \<in> wait_times rs. now < UINT64_MAX"
  shows "\<exists>w'. worker_run (websocket_task E L) E Os now0 rs w = Some w' \<and> tunnel_state E tf i w'"
  by (rule wtask.run_state [OF assms])

theorem websocket_worker_safe_witness:
  "\<exists>w'. worker_run (websocket_task codec_params (\<lambda>_ _. ([], HPE_OK, False))) codec_params demo_os 100
     [Wait_events 101 [(5, READ)], Wait_events 107 [(9, ERR)]]
     (demo_tunnel (websocket_ctx_new\<lparr>app_layer_notified := True, sc_conn_ptr := Some 1, sc_worker_ptr := True\<rparr>) []
        [Rx_data (frame (demo_body 11 8192))]) = Some w' \<and> tunnel_state codec_params 5 0 w'"
proof -
  let ?x = "websocket_ctx_new\<lparr>app_layer_notified := True, sc_conn_ptr := Some 1, sc_worker_ptr := True\<rparr>"
  have "tunnel_state codec_params 5 0 (demo_tunnel ?x [] [Rx_data (frame (demo_body 11 8192))])"
    using demo_tunnel_ok [of ?x "[]" "[Rx_data (frame (demo_body 11 8192))]"] demo_input_ok [of 11 8192]
    by (simp add: tunnel_state_def byte_ok_def)
  from websocket_worker_safe [OF codec_env_ok this,
      of "[Wait_events 101 [(5, READ)], Wait_events 107 [(9, ERR)]]" "\<lambda>_ _. ([], HPE_OK, False)" demo_os 100]
  show ?thesis by (simp add: UINT64_MAX_def)
qed

section \<open>Timeouts\<close>

text \<open>
  C30. Once per second the clients whose timer has run out before the application was told of them
  are closed: each of their descriptors exactly once, and no other; they leave the tables, every other
  client stays as it was, and no client is overdue behind the pass.
\<close>

theorem overdue_clients_closed:
  assumes "env_ok E" "worker_ok w" "m_timeout_fd w = {}" "now < UINT64_MAX" "m_latest_tick_time_monotonic w \<noteq> now"
  shows "\<exists>w' fs. worker_timeouts E now w = Some (w', set fs) \<and> distinct fs \<and>
    set fs = (\<lambda>i. fd (w_conn i w)) ` overdue now w \<and> os_closed w' = os_closed w @ fs \<and> worker_ok w' \<and>
    using_set (worker_connection_mgr w') = using_set (worker_connection_mgr w) - overdue now w \<and> overdue now w' = {} \<and>
    (\<forall>j \<in> using_set (worker_connection_mgr w) - overdue now w. tunnel_slot w \<noteq> Some j \<longrightarrow> w_conn j w' = w_conn j w)"
proof -
  obtain w' fs where t: "worker_timeouts E now w = Some (w', set fs)" "all_removed (overdue now w) fs w w'"
    "set fs = (\<lambda>i. fd (w_conn i w)) ` overdue now w" "distinct fs" "overdue now w' = {}"
    by (rule timeouts_ok [OF assms])
  then show ?thesis unfolding all_removed_def by (intro exI [of _ w'] exI [of _ fs]) simp
qed

theorem overdue_clients_closed_witness:
  "\<exists>w'. worker_timeouts codec_params 106
       (demo_timed (demo_ctx\<lparr>app_layer_notified := False\<rparr>) (snd (tm_add (Some (timeout_timer 4096 101 9)) tm_empty))) = Some (w', {9}) \<and>
     os_closed w' = [9] \<and> using_set (worker_connection_mgr w') = {0}"
proof -
  define x where "x = demo_ctx\<lparr>app_layer_notified := False\<rparr>"
  have x: "sc_conn_ptr x \<noteq> None" "sc_worker_ptr x" "\<not> app_layer_notified x" by (simp_all add: x_def)
  let ?t = "timeout_timer 4096 101 9"
  obtain tm where tm: "tm_add (Some ?t) tm_empty = (Some ?t, tm)" "tm_inv tm" "tm_abs tm = [4096 \<mapsto> ?t]"
    by (rule tm_add_accepted [of ?t tm_empty]) (simp_all add: timeout_timer_def timer_new_def armed_def)
  let ?w = "demo_timed x tm"
  have ok: "worker_ok ?w" by (rule demo_timed_ok) (use tm x in simp_all)
  have e: "m_expired_time ?t = 106" by (simp add: timeout_timer_def timer_new_def saturating_expiry_def UINT64_MAX_def)
  have f: "worker_connection_mgr ?w = worker_connection_mgr (demo_worker (Some x) [] [] [])" "tunnel_slot ?w = Some 0"
      "m_timeout_fd ?w = {}" "m_latest_tick_time_monotonic ?w = 100" "m_conn_timeout_timer_manager ?w = tm" "os_closed ?w = []"
    using demo_slots by (simp_all add: demo_timed_def tunnel_slot_def tunnel_fd_def demo_worker_def)
  have d: "overdue 106 ?w = {1}"
    using tm(3) e x(3) by (auto simp: overdue_def f demo_slots ctx_notified_def simp del: One_nat_def)
  have h: "106 < UINT64_MAX" "m_latest_tick_time_monotonic ?w \<noteq> 106" using f(4) by (simp_all add: UINT64_MAX_def)
  obtain w' fs where r: "worker_timeouts codec_params 106 ?w = Some (w', set fs)" "distinct fs"
      "set fs = (\<lambda>i. fd (w_conn i ?w)) ` {1}" "os_closed w' = [] @ fs" "using_set (worker_connection_mgr w') = {0, 1} - {1}"
    using overdue_clients_closed [OF codec_env_ok ok f(3) h] unfolding d f(1,6) demo_slots(1) by blast
  then have "set fs = {9}" using demo_slots(6) [of "Some x" "[]" "[]" "[]"] by (simp add: f(1))
  then have "fs = [9]" using r(2) by (cases fs; cases "tl fs") auto
  then show ?thesis using r tm(1) unfolding x_def [symmetric] by auto
qed

section \<open>The tunnel\<close>

text \<open>
  C31. Whatever complete packages the main thread has written into the tunnel, each non-empty,
  parsable and not announcing the tunnel's own descriptor, followed by an incomplete one, a worker
  of the stream task processes every one of them, in order and exactly once, and keeps the
  incomplete rest for the next event.
\<close>

theorem tunnel_packages_processed:
  assumes "tunnel_ok E tf i w" "tunnel_buf i w = concat (map frame ds) @ tail" "incomplete (2 ^ 63) tail"
    "\<forall>d \<in> set ds. d \<noteq> [] \<and> tunnel_parse E tf d \<noteq> None" "length (tunnel_buf i w) < 2 ^ 63"
  shows "tunnel_parse_loop (Suc (length (tunnel_buf i w))) (stream_task E) E Os i w =
      fold (\<lambda>d w. tunnel_move i (8 + length d) (on_tunnel_process (stream_task E) E Os (the (parse_package E d)) w)) ds w \<and>
    tunnel_buf i (tunnel_parse_loop (Suc (length (tunnel_buf i w))) (stream_task E) E Os i w) = tail"
proof -
  have short: "length d \<le> 2 ^ 63" "length ds < Suc (length (tunnel_buf i w))" if "d \<in> set ds \<or> d = []" for d
  proof -
    have "length (concat (map frame ds)) < 2 ^ 63" using assms(2,5) by simp
    moreover have "length d \<le> length (concat (map frame ds))" if "d \<in> set ds" using that by (induction ds) auto
    ultimately show "length d \<le> 2 ^ 63" using that by auto
    have "length ds \<le> length (concat (map frame ds))" by (induction ds) auto
    then show "length ds < Suc (length (tunnel_buf i w))" using assms(2) by simp
  qed
  have wf: "stask.tfr.well_formed E tf ds" unfolding stask.tfr.well_formed_def using assms(4) short(1) by auto
  have "fold (stask.tfr.deliver E tf E Os i) ds w =
      fold (\<lambda>d w. tunnel_move i (8 + length d) (on_tunnel_process (stream_task E) E Os (the (parse_package E d)) w)) ds w"
    using assms(4)
    by (intro fold_cong) (auto simp: stask.tfr.deliver_def tunnel_consume_def tunnel_parse_def split: option.splits if_splits)
  then show ?thesis
    using stask.tfr.drains [OF assms(1,2) wf assms(3) short(2) [of "[]"] assms(5), of E Os] by simp
qed

theorem tunnel_packages_processed_witness:
  "tunnel_buf 0 (tunnel_parse_loop (Suc (length (frame (demo_body 11 8192) @ [0, 0]))) (stream_task codec_params) codec_params demo_os 0
     (demo_tunnel demo_ctx (frame (demo_body 11 8192) @ [0, 0]) [])) = [0, 0]"
proof -
  let ?w = "demo_tunnel demo_ctx (frame (demo_body 11 8192) @ [0, 0]) []"
  have ok: "tunnel_ok codec_params 5 0 ?w" "tunnel_buf 0 ?w = frame (demo_body 11 8192) @ [0, 0]"
    using demo_tunnel_ok [of demo_ctx "frame (demo_body 11 8192) @ [0, 0]" "[]"] codec_env_ok by (simp_all add: tunnel_ok_def tunnel_buf_def)
  have p: "tunnel_parse codec_params 5 (demo_body 11 8192) \<noteq> None"
    using demo_body_parse(1) [of 11 8192] demo_announces [of 11 8192] by (simp add: tunnel_parse_def byte_ok_def)
  have "length (demo_body 11 8192) < 100"
    by (simp add: demo_body_def c_ser_tunnel_def demo_announcement_def byte_ok_def id_ok_def)
  then show ?thesis
    using tunnel_packages_processed [OF ok(1), of "[demo_body 11 8192]" "[0, 0]" demo_os, THEN conjunct2] ok(2) p demo_body_parse(2) [of 11 8192]
    by (simp add: incomplete_def)
qed

text \<open>A message that a worker sends to itself is handled without the argument \<open>self\<close>.\<close>

lemma self_message_direct:
  assumes "env_ok E" "cmd (tp_inner t) = PROTO_CMD_TUNNEL_CLIENT_FORWARD_MESSAGE"
    "p = pack_package_into (ser_tunnel E) package_default t PROTO_CMD_TUNNEL_PACKAGE"
  shows "on_tunnel_process_with self T E Os p w = on_tunnel_process_with self' T E Os p w"
proof (cases "ser_tunnel E t")
  case None
  have z: "\<And>t. parse_tunnel E [] = Some t \<Longrightarrow> cmd (tp_inner t) = 0" using assms(1) by (simp add: env_ok_def)
  have a: "app_on_worker_tunnel s E m w = w" if "cmd m = 0" for s m
    using that by (simp add: app_on_worker_tunnel_def proto_cmds)
  have p: "protocol p = []" using None assms(3) by (simp add: pack_package_into_def)
  show ?thesis
    unfolding on_tunnel_process_with_def p Let_def using z a by (auto simp: proto_cmds split: option.splits task_type.splits)
next
  case (Some d)
  then have "parse_tunnel E d = Some t" using assms(1) by (simp add: env_ok_def round_trips_def)
  moreover have "protocol p = d" using Some assms(3) by (simp add: pack_package_into_def)
  ultimately show ?thesis
    unfolding on_tunnel_process_with_def Let_def using assms(2) by (simp add: proto_cmds)
qed

lemma process_with_cong:
  assumes "\<And>t p w. cmd (tp_inner t) = PROTO_CMD_TUNNEL_CLIENT_FORWARD_MESSAGE \<Longrightarrow>
      p = pack_package_into (ser_tunnel E) package_default t PROTO_CMD_TUNNEL_PACKAGE \<Longrightarrow> self p w = self' p w"
  shows "on_tunnel_process_with self T E Os p w = on_tunnel_process_with self' T E Os p w"
proof -
  have "cmd (pack_package_into (ser_forward E) package_default m PROTO_CMD_TUNNEL_CLIENT_FORWARD_MESSAGE) =
      PROTO_CMD_TUNNEL_CLIENT_FORWARD_MESSAGE" for m by (simp add: pack_package_into_def split: option.splits)
  then have "forward_to_self self E d m w = forward_to_self self' E d m w" for d m w
    unfolding forward_to_self_def Let_def by (intro assms) simp_all
  then have f: "forward_to_self self E = forward_to_self self' E" by (intro ext)
  have s: "send_client_forward_message self E = send_client_forward_message self' E"
    by (intro ext) (simp only: send_client_forward_message_def f)
  have a: "app_on_worker_tunnel self E = app_on_worker_tunnel self' E" by (intro ext) (simp only: app_on_worker_tunnel_def s)
  show ?thesis unfolding on_tunnel_process_with_def a ..
qed

text \<open>
  C32. The recursion of \<^verbatim>\<open>on_tunnel_process\<close>, \<^verbatim>\<open>on_worker_tunnel\<close> and \<^verbatim>\<open>send_client_forward_message\<close> ends: a
  message a worker sends to itself is handled without a further call, so deeper recursion changes
  nothing.
\<close>

theorem tunnel_process_two_levels:
  assumes "env_ok E"
  shows "on_tunnel_process_depth (Suc (Suc d)) T E Os message w = on_tunnel_process T E Os message w"
proof -
  have "on_tunnel_process_depth (Suc d) T E Os p w = on_tunnel_process_depth (Suc 0) T E Os p w"
    if "cmd (tp_inner t) = PROTO_CMD_TUNNEL_CLIENT_FORWARD_MESSAGE"
      "p = pack_package_into (ser_tunnel E) package_default t PROTO_CMD_TUNNEL_PACKAGE" for t p w
    unfolding on_tunnel_process_depth.simps by (rule self_message_direct [OF assms that])
  then have "on_tunnel_process_with (on_tunnel_process_depth (Suc d) T E Os) T E Os message w =
      on_tunnel_process_with (on_tunnel_process_depth (Suc 0) T E Os) T E Os message w"
    by (intro process_with_cong) blast
  then show ?thesis unfolding on_tunnel_process_def numeral_2_eq_2 on_tunnel_process_depth.simps(2) [of "Suc _"] .
qed

theorem tunnel_process_two_levels_witness:
  "on_tunnel_process_depth 7 (stream_task codec_params) codec_params demo_os
     \<lparr>cmd = 3, protocol = the (c_ser_tunnel (demo_announcement 11 8192))\<rparr> (demo_tunnel demo_ctx [] []) =
   on_tunnel_process (stream_task codec_params) codec_params demo_os
     \<lparr>cmd = 3, protocol = the (c_ser_tunnel (demo_announcement 11 8192))\<rparr> (demo_tunnel demo_ctx [] [])"
proof -
  have e: "Suc (Suc 5) = 7" by simp
  show ?thesis by (rule tunnel_process_two_levels [OF codec_env_ok, of 5, unfolded e])
qed

end
