(* ===== verification/Server.thy ===== *)
theory Server
  imports Worker_Loop
begin

text \<open>
  The main thread (src/server/server.cpp): it accepts clients and gives each to a worker, and it
  relays the messages between the workers and the other thread. The tunnels are socket pairs of
  which this thread holds one end each. What the kernel will answer to \<^verbatim>\<open>accept\<close> is a list of
  descriptors, a negative one or the end of the list meaning that there is none; the counters
  shared with the other threads are plain integers; a call of the reload hook is counted.
\<close>

datatype tunnel_ref = Worker_tunnel nat | Other_tunnel

record server =
  sv_gids :: gid_source
  worker_nums :: "int list"
  workers_to_stop :: bool
  other_to_stop :: bool
  m_main_worker_tunnel :: "socket list"
  m_main_worker_tunnel_fd2index :: "int \<rightharpoonup> nat"
  m_main_other_tunnel :: socket
  m_epoller :: event_poller
  m_main_connection_mgr :: "unit connection_mgr"
  stop_flag :: bool
  m_curr_connection_num :: int
  m_listen_fd :: int
  m_signal_pipe_rd :: int
  g_stop_request :: bool
  g_reload_request :: bool
  max_client_cnt :: int
  accept_per_tick :: nat
  k_accept :: "int list"
  sv_closed :: "int list"
  sv_reloads :: nat

abbreviation s_conn :: "nat \<Rightarrow> server \<Rightarrow> unit connection" where
  "s_conn i s \<equiv> conn_at i (m_main_connection_mgr s)"

fun tunnel_sock :: "tunnel_ref \<Rightarrow> server \<Rightarrow> socket" where
  "tunnel_sock (Worker_tunnel k) s = m_main_worker_tunnel s ! k"
| "tunnel_sock Other_tunnel s = m_main_other_tunnel s"

fun set_tunnel_sock :: "tunnel_ref \<Rightarrow> socket \<Rightarrow> server \<Rightarrow> server" where
  "set_tunnel_sock (Worker_tunnel k) sock s = s\<lparr>m_main_worker_tunnel := (m_main_worker_tunnel s)[k := sock]\<rparr>"
| "set_tunnel_sock Other_tunnel sock s = s\<lparr>m_main_other_tunnel := sock\<rparr>"

definition upd_sconn :: "nat \<Rightarrow> (unit connection \<Rightarrow> unit connection) \<Rightarrow> server \<Rightarrow> server" where
  "upd_sconn i h s = s\<lparr>m_main_connection_mgr := upd_conn i h (m_main_connection_mgr s)\<rparr>"

definition s_epoll_mod :: "int \<Rightarrow> u32 \<Rightarrow> server \<Rightarrow> server" where
  "s_epoll_mod f ev s = s\<lparr>m_epoller := snd (poller_mod f ev False (m_epoller s))\<rparr>"

definition server_to_stop :: "server \<Rightarrow> server" where
  "server_to_stop s = s\<lparr>stop_flag := True, workers_to_stop := True, other_to_stop := True\<rparr>"

section \<open>Writing to the tunnels\<close>

definition server_try_send_flush_tunnel :: "tunnel_ref \<Rightarrow> server \<Rightarrow> server" where
  "server_try_send_flush_tunnel tunnel s =
     (let sock = tunnel_sock tunnel s
      in case get_conn (m_sockfd sock) (m_main_connection_mgr s) of
           None \<Rightarrow> s
         | Some i \<Rightarrow>
             if vsb_is_empty (send_buffer (s_conn i s)) then s_epoll_mod (m_sockfd sock) RE s
             else
               (let (b', sock', r) = send_loop (send_buffer (s_conn i s)) sock;
                    s1 = upd_sconn i (send_buffer_update (\<lambda>_. b')) (set_tunnel_sock tunnel sock' s)
                in case r of
                     None \<Rightarrow> s1
                   | Some oper_errno \<Rightarrow>
                       if oper_errno \<noteq> COMM_ERRNO_EAGAIN \<and> oper_errno \<noteq> COMM_ERRNO_EINTR \<and>
                          oper_errno \<noteq> COMM_ERRNO_EWOULDBLOCK
                       then server_to_stop s1
                       else s_epoll_mod (m_sockfd sock') RWE s1))"

definition get_main2worker_tunnel :: "params \<Rightarrow> int \<Rightarrow> server \<Rightarrow> nat option" where
  "get_main2worker_tunnel E worker_tunnel_id s =
     (if \<not> is_worker_tunnel_id (p_tunnels E) worker_tunnel_id then None
      else
        (let idx = nat (get_worker_idx_by_tunnel_id worker_tunnel_id)
         in get_conn (m_sockfd (m_main_worker_tunnel s ! idx)) (m_main_connection_mgr s)))"

definition get_main2other_tunnel :: "server \<Rightarrow> nat option" where
  "get_main2other_tunnel s = get_conn (m_sockfd (m_main_other_tunnel s)) (m_main_connection_mgr s)"

definition server_tunnel_forward :: "params \<Rightarrow> int \<Rightarrow> int \<Rightarrow> proto_package \<Rightarrow> bool \<Rightarrow> server \<Rightarrow> int \<times> server" where
  "server_tunnel_forward E source_tunnelid dest_tunnel_id message flush s =
     (if \<not> is_tunnel_id (p_tunnels E) source_tunnelid then (- 1, s)
      else if \<not> is_tunnel_id (p_tunnels E) dest_tunnel_id then (- 2, s)
      else
        case (if is_worker_tunnel_id (p_tunnels E) dest_tunnel_id then get_main2worker_tunnel E dest_tunnel_id s
              else if PROTO_TUNNEL_ID_OTHER = dest_tunnel_id then get_main2other_tunnel s
              else None) of
          None \<Rightarrow> (- 3, s)
        | Some i \<Rightarrow>
            (let package = \<lparr>sourcetunnelsid = source_tunnelid, targettunnelsid = [dest_tunnel_id],
                            targetallworker = False, tp_inner = message\<rparr>;
                 data = pack_package_msg (ser_package E) (ser_tunnel E) package PROTO_CMD_TUNNEL_PACKAGE;
                 s1 = upd_sconn i (\<lambda>c. c\<lparr>send_buffer := vsb_append data (send_buffer c)\<rparr>) s;
                 dest_fd = fd (s_conn i s1)
             in if flush
                then
                  (case m_main_worker_tunnel_fd2index s1 dest_fd of
                     Some idx \<Rightarrow> (0, server_try_send_flush_tunnel (Worker_tunnel idx) s1)
                   | None \<Rightarrow>
                       if m_sockfd (m_main_other_tunnel s1) = dest_fd
                       then (0, server_try_send_flush_tunnel Other_tunnel s1) else (- 4, s1))
                else (0, s_epoll_mod dest_fd RWE s1)))"

section \<open>New clients\<close>

text \<open>One round of the loop in \<^verbatim>\<open>on_listen_event\<close>.\<close>

definition announce_client :: "params \<Rightarrow> int \<times> u64 \<Rightarrow> server \<Rightarrow> server" where
  "announce_client E client s =
     (case client of (new_client_fd, client_gid) \<Rightarrow>
        (let target_worker_idx = choose_worker (worker_nums s);
             k = unat target_worker_idx;
             s1 = s\<lparr>worker_nums := (worker_nums s)[k := worker_nums s ! k + 1]\<rparr>;
             target_worker_tunnel_id = get_worker_tunnel_id (int k);
             need_forward_package =
               pack_package_into (ser_new_client E) package_default
                 \<lparr>nc_fd = new_client_fd, nc_gid = real_gid client_gid target_worker_idx\<rparr> PROTO_CMD_TUNNEL_MAIN2WORKER_NEW_CLIENT;
             (forward_ret, s2) = server_tunnel_forward E PROTO_TUNNEL_ID_MAIN target_worker_tunnel_id need_forward_package True s1
         in if forward_ret \<noteq> 0
            then s2\<lparr>sv_closed := sv_closed s2 @ [new_client_fd], m_curr_connection_num := m_curr_connection_num s2 - 1\<rparr>
            else s2))"

definition on_listen_event :: "params \<Rightarrow> int list \<Rightarrow> u64 list \<Rightarrow> server \<Rightarrow> server" where
  "on_listen_event E vec_new_client_fd vec_gid s = fold (announce_client E) (zip vec_new_client_fd vec_gid) s"

fun accept_loop :: "nat \<Rightarrow> int list \<Rightarrow> u64 list \<Rightarrow> server \<Rightarrow> int list \<times> u64 list \<times> server" where
  "accept_loop 0 clients_fd gids s = (clients_fd, gids, s)"
| "accept_loop (Suc n) clients_fd gids s =
     (case k_accept s of
        [] \<Rightarrow> (clients_fd, gids, s)
      | new_client_fd # rest \<Rightarrow>
          (let s1 = s\<lparr>k_accept := rest\<rparr>
           in if new_client_fd < 0 then (clients_fd, gids, s1)
              else if m_curr_connection_num s1 \<ge> max_client_cnt s1
              then (clients_fd, gids, s1\<lparr>sv_closed := sv_closed s1 @ [new_client_fd]\<rparr>)
              else
                (let s2 = s1\<lparr>m_curr_connection_num := m_curr_connection_num s1 + 1\<rparr>;
                     (g, src) = server_gen_gid (sv_gids s2)
                 in accept_loop n (clients_fd @ [new_client_fd]) (gids @ [g]) (s2\<lparr>sv_gids := src\<rparr>))))"

definition server_accept :: "params \<Rightarrow> server \<Rightarrow> server" where
  "server_accept E s =
     (let (clients_fd, gids, s1) = accept_loop (accept_per_tick s) [] [] s
      in if clients_fd \<noteq> [] then on_listen_event E clients_fd gids s1 else s1)"

section \<open>Relaying messages\<close>

text \<open>The targets of a message by its source; \<open>None\<close> for an unknown source.\<close>

definition relay_targets :: "params \<Rightarrow> tunnel_package \<Rightarrow> int set option" where
  "relay_targets E t =
     (let source = sourcetunnelsid t; target = targettunnelsid t; lo = PROTO_TUNNEL_WORKER_MIN; hi = get_worker_tunnel_id_max (p_tunnels E)
      in if source = PROTO_TUNNEL_ID_OTHER
         then Some (if target = [] then {lo .. hi}
                    else {i \<in> set target. i \<noteq> PROTO_TUNNEL_ID_MAIN \<and> lo \<le> i \<and> i \<le> hi})
         else if lo \<le> source \<and> source \<le> hi
         then Some (if target = [] then {lo .. hi}
                    else {i \<in> set target. i \<noteq> PROTO_TUNNEL_ID_MAIN \<and> (i = PROTO_TUNNEL_ID_OTHER \<or> lo \<le> i \<and> i \<le> hi)})
         else None)"

definition server_on_tunnel_process :: "params \<Rightarrow> proto_package \<Rightarrow> server \<Rightarrow> server" where
  "server_on_tunnel_process E message s =
     (if cmd message \<noteq> PROTO_CMD_TUNNEL_PACKAGE then s
      else case parse_tunnel E (protocol message) of
             None \<Rightarrow> s
           | Some tunnelPackage \<Rightarrow>
               (case relay_targets E tunnelPackage of
                  None \<Rightarrow> s
                | Some all_target \<Rightarrow>
                    fold (\<lambda>target_tunnel_id s.
                        snd (server_tunnel_forward E (sourcetunnelsid tunnelPackage) target_tunnel_id (tp_inner tunnelPackage) True s))
                      (p_int_order E all_target) s))"

fun server_parse_loop :: "nat \<Rightarrow> params \<Rightarrow> nat \<Rightarrow> server \<Rightarrow> server" where
  "server_parse_loop 0 E i s = s"
| "server_parse_loop (Suc fuel) E i s =
     (let buf = get_read_ptr (recv_buffer (s_conn i s))
      in if buf = [] then s
         else if length buf \<ge> 8 then
           (let data_size = toh64_from_buffer buf
            in if data_size > of_nat (length buf) \<or> data_size > of_nat (length buf) - 8 then s
               else if data_size = 0 then upd_sconn i (recv_buffer_update (move_read_ptr_n 8)) s
               else
                 (case parse_package E (take (unat data_size) (drop 8 buf)) of
                    None \<Rightarrow> upd_sconn i (recv_buffer_update (move_read_ptr_n (8 + unat data_size))) s
                  | Some protoPackage \<Rightarrow>
                      server_parse_loop fuel E i
                        (upd_sconn i (recv_buffer_update (move_read_ptr_n (8 + unat data_size)))
                          (server_on_tunnel_process E protoPackage s))))
         else s)"

definition server_on_tunnel_event :: "params \<Rightarrow> tunnel_ref \<Rightarrow> u32 \<Rightarrow> server \<Rightarrow> server" where
  "server_on_tunnel_event E tunnel event s =
     (let sock = tunnel_sock tunnel s
      in case get_conn (m_sockfd sock) (m_main_connection_mgr s) of
           None \<Rightarrow> s
         | Some i \<Rightarrow>
             (let s1 =
                (if event AND READ \<noteq> 0
                 then
                   (let (buffer, broken, sock') = tunnel_read_loop (Suc (rx_weight (k_rx sock))) [] sock;
                        s2 = set_tunnel_sock tunnel sock' s;
                        s3 = (if broken then server_to_stop s2 else s2);
                        s4 = (if length buffer > 0 then upd_sconn i (recv_buffer_update (vsb_append buffer)) s3 else s3)
                    in server_parse_loop (Suc (vsb_size (recv_buffer (s_conn i s4)))) E i s4)
                 else s)
              in if event AND WRITE \<noteq> 0 then server_try_send_flush_tunnel tunnel s1 else s1))"

section \<open>The loop of the main thread\<close>

definition process_signal_requests :: "server \<Rightarrow> server" where
  "process_signal_requests s =
     (let stop_requested = g_stop_request s;
          s1 = (if stop_requested then server_to_stop s else s)
      in if g_reload_request s1
         then (let s2 = s1\<lparr>g_reload_request := False\<rparr>
               in if \<not> stop_requested then s2\<lparr>sv_reloads := Suc (sv_reloads s2)\<rparr> else s2)
         else s1)"

definition server_dispatch :: "params \<Rightarrow> int \<times> u32 \<Rightarrow> server \<Rightarrow> server" where
  "server_dispatch E ev s =
     (case ev of (evented_fd, event_come) \<Rightarrow>
        if evented_fd < 0 then s
        else if evented_fd = m_listen_fd s then server_accept E s
        else case m_main_worker_tunnel_fd2index s evented_fd of
               Some idx \<Rightarrow> server_on_tunnel_event E (Worker_tunnel idx) event_come s
             | None \<Rightarrow>
                 if m_sockfd (m_main_other_tunnel s) = evented_fd then server_on_tunnel_event E Other_tunnel event_come s
                 else if evented_fd = m_signal_pipe_rd s then process_signal_requests s
                 else s\<lparr>m_epoller := k_close evented_fd (snd (poller_del evented_fd (m_epoller s))),
                        sv_closed := sv_closed s @ [evented_fd]\<rparr>)"

text \<open>
  What the loop sees from outside: the answer of \<^verbatim>\<open>epoller.wait\<close>, the clock, whether the
  workers and the other thread have stopped, and the requests of the signal handlers since the
  last round.
\<close>

record main_input =
  mi_stop :: bool
  mi_reload :: bool
  mi_wait :: "wait_result"
  mi_workers_stoped :: bool
  mi_other_stoped :: bool

text \<open>The second result tells whether the loop has been left.\<close>

definition server_iteration :: "params \<Rightarrow> main_input \<Rightarrow> server \<Rightarrow> server \<times> bool" where
  "server_iteration E inp s =
     (let s0 = s\<lparr>g_stop_request := g_stop_request s \<or> mi_stop inp, g_reload_request := g_reload_request s \<or> mi_reload inp\<rparr>;
          s1 = process_signal_requests s0
      in case mi_wait inp of
           Wait_error e \<Rightarrow> (if e = COMM_ERRNO_EINTR then s1 else server_to_stop s1, False)
         | Wait_events now events \<Rightarrow>
             (let s2 = (if stop_flag s1 \<and> mi_workers_stoped inp then s1\<lparr>other_to_stop := True\<rparr> else s1)
              in if stop_flag s1 \<and> mi_workers_stoped inp \<and> mi_other_stoped inp then (s2, True)
                 else (fold (server_dispatch E) events (s2\<lparr>sv_gids := gid_tick now (sv_gids s2)\<rparr>), False)))"

fun server_loop :: "params \<Rightarrow> main_input list \<Rightarrow> server \<Rightarrow> server" where
  "server_loop E [] s = s"
| "server_loop E (inp # inps) s =
     (case server_iteration E inp s of (s', left) \<Rightarrow> if left then s' else server_loop E inps s')"

end
