(* ===== verification/Server_Props.thy ===== *)
theory Server_Props
  imports Server Worker_Safe
begin

text \<open>
  The main thread keeps its tables consistent, relays every message to exactly its targets and
  gives every client to exactly one worker. The byte stream of a tunnel is what the kernel has
  taken from it and what is queued behind.
\<close>

section \<open>The invariant\<close>

definition refs :: "server \<Rightarrow> tunnel_ref set" where
  "refs s = insert Other_tunnel (Worker_tunnel ` {..<length (m_main_worker_tunnel s)})"

abbreviation ref_fd :: "tunnel_ref \<Rightarrow> server \<Rightarrow> int" where
  "ref_fd r s \<equiv> m_sockfd (tunnel_sock r s)"

definition slot :: "tunnel_ref \<Rightarrow> server \<Rightarrow> nat" where
  "slot r s = the (get_conn (ref_fd r s) (m_main_connection_mgr s))"

abbreviation ref_conn :: "tunnel_ref \<Rightarrow> server \<Rightarrow> unit connection" where
  "ref_conn r s \<equiv> s_conn (slot r s) s"

definition server_inv :: "params \<Rightarrow> server \<Rightarrow> bool" where
  "server_inv E s \<longleftrightarrow>
     mgr_inv (m_main_connection_mgr s) \<and> poller_inv (m_epoller s) \<and> 0 \<le> m_epfd (m_epoller s) \<and>
     m_main_worker_tunnel s \<noteq> [] \<and> m_worker_cnt (p_tunnels E) = int (length (m_main_worker_tunnel s)) \<and>
     length (worker_nums s) = length (m_main_worker_tunnel s) \<and>
     inj_on (\<lambda>r. ref_fd r s) (refs s) \<and>
     (\<forall>r \<in> refs s. get_conn (ref_fd r s) (m_main_connection_mgr s) \<noteq> None \<and> k_interest (m_epoller s) (ref_fd r s) \<noteq> None) \<and>
     (\<forall>f k. m_main_worker_tunnel_fd2index s f = Some k \<longleftrightarrow> k < length (m_main_worker_tunnel s) \<and> ref_fd (Worker_tunnel k) s = f)"

definition sv_stream :: "tunnel_ref \<Rightarrow> server \<Rightarrow> bytes" where
  "sv_stream r s = k_wire (tunnel_sock r s) @ m_data (send_buffer (ref_conn r s))"

definition sv_watched :: "tunnel_ref \<Rightarrow> server \<Rightarrow> bool" where
  "sv_watched r s \<longleftrightarrow> m_data (send_buffer (ref_conn r s)) = [] \<or> k_interest (m_epoller s) (ref_fd r s) = Some RWE \<or> stop_flag s"

text \<open>What a step on the tunnel \<open>r\<close> leaves alone.\<close>

definition sv_rest :: "server \<Rightarrow> _" where
  "sv_rest s = (worker_nums s, sv_gids s, m_listen_fd s, m_signal_pipe_rd s, m_curr_connection_num s, sv_closed s,
     k_accept s, max_client_cnt s, accept_per_tick s)"

definition sv_frame :: "tunnel_ref \<Rightarrow> server \<Rightarrow> server \<Rightarrow> bool" where
  "sv_frame r s s' \<longleftrightarrow>
     refs s' = refs s \<and> (\<forall>q \<in> refs s. ref_fd q s' = ref_fd q s \<and> slot q s' = slot q s) \<and>
     (\<forall>q \<in> refs s. q \<noteq> r \<longrightarrow> tunnel_sock q s' = tunnel_sock q s \<and> s_conn (slot q s) s' = ref_conn q s \<and>
        k_interest (m_epoller s') (ref_fd q s) = k_interest (m_epoller s) (ref_fd q s)) \<and>
     sv_rest s' = sv_rest s \<and> (stop_flag s \<longrightarrow> stop_flag s')"

lemma sv_frame_refl: "sv_frame r s s"
  by (simp add: sv_frame_def)

lemma sv_frame_trans: "sv_frame r s s' \<Longrightarrow> sv_frame r s' s'' \<Longrightarrow> sv_frame r s s''"
  by (simp add: sv_frame_def)

lemma server_invD:
  assumes "server_inv E s"
  shows "mgr_inv (m_main_connection_mgr s)" "poller_inv (m_epoller s)" "0 \<le> m_epfd (m_epoller s)"
    "r \<in> refs s \<Longrightarrow> get_conn (ref_fd r s) (m_main_connection_mgr s) = Some (slot r s)"
    "r \<in> refs s \<Longrightarrow> k_interest (m_epoller s) (ref_fd r s) \<noteq> None"
    "r \<in> refs s \<Longrightarrow> q \<in> refs s \<Longrightarrow> ref_fd r s = ref_fd q s \<Longrightarrow> r = q"
  using assms by (auto simp: server_inv_def slot_def inj_on_def)

lemma slots:
  assumes "server_inv E s" "r \<in> refs s"
  shows "slot r s \<in> using_set (m_main_connection_mgr s)" "fd (ref_conn r s) = ref_fd r s"
    "q \<in> refs s \<Longrightarrow> slot q s = slot r s \<Longrightarrow> q = r"
proof -
  note d = server_invD [OF assms(1)]
  note g = get_conn_facts [OF d(1) d(4) [OF assms(2)]]
  show "slot r s \<in> using_set (m_main_connection_mgr s)" "fd (ref_conn r s) = ref_fd r s" by (rule g(1), rule g(2))
  show "q = r" if "q \<in> refs s" "slot q s = slot r s"
    using d(6) [OF that(1) assms(2)] get_conn_facts(2) [OF d(1) d(4) [OF that(1)]] g(2) that(2) by simp
qed

lemma tunnel_sock_set:
  "r \<in> refs s \<Longrightarrow> tunnel_sock q (set_tunnel_sock r sock s) = (if q = r then sock else tunnel_sock q s)"
  by (cases q; cases r) (auto simp: refs_def nth_list_update)

lemma set_tunnel_sock_simps [simp]:
  "m_main_connection_mgr (set_tunnel_sock r sock s) = m_main_connection_mgr s" "m_epoller (set_tunnel_sock r sock s) = m_epoller s"
  "refs (set_tunnel_sock r sock s) = refs s" "sv_rest (set_tunnel_sock r sock s) = sv_rest s"
  "stop_flag (set_tunnel_sock r sock s) = stop_flag s" "worker_nums (set_tunnel_sock r sock s) = worker_nums s"
  "m_main_worker_tunnel_fd2index (set_tunnel_sock r sock s) = m_main_worker_tunnel_fd2index s"
  "length (m_main_worker_tunnel (set_tunnel_sock r sock s)) = length (m_main_worker_tunnel s)"
  by (cases r; simp add: refs_def sv_rest_def)+

lemma upd_sconn_simps [simp]:
  "m_epoller (upd_sconn i h s) = m_epoller s" "refs (upd_sconn i h s) = refs s" "sv_rest (upd_sconn i h s) = sv_rest s"
  "stop_flag (upd_sconn i h s) = stop_flag s" "worker_nums (upd_sconn i h s) = worker_nums s"
  "m_main_worker_tunnel_fd2index (upd_sconn i h s) = m_main_worker_tunnel_fd2index s"
  "m_main_worker_tunnel (upd_sconn i h s) = m_main_worker_tunnel s" "tunnel_sock q (upd_sconn i h s) = tunnel_sock q s"
  "m_main_connection_mgr (upd_sconn i h s) = upd_conn i h (m_main_connection_mgr s)"
  "slot q (upd_sconn i h s) = slot q s" "m_main_other_tunnel (upd_sconn i h s) = m_main_other_tunnel s"
  by (cases q; simp add: upd_sconn_def refs_def sv_rest_def slot_def)+

lemma server_inv_cong:
  assumes "server_inv E s" "mgr_inv (m_main_connection_mgr s')" "poller_inv (m_epoller s')" "m_epfd (m_epoller s') = m_epfd (m_epoller s)"
    "length (m_main_worker_tunnel s') = length (m_main_worker_tunnel s)" "length (worker_nums s') = length (worker_nums s)"
    "\<And>r. r \<in> refs s \<Longrightarrow> ref_fd r s' = ref_fd r s"
    "\<And>f. get_conn f (m_main_connection_mgr s') = get_conn f (m_main_connection_mgr s)"
    "\<And>r. r \<in> refs s \<Longrightarrow> k_interest (m_epoller s') (ref_fd r s) \<noteq> None"
    "m_main_worker_tunnel_fd2index s' = m_main_worker_tunnel_fd2index s"
  shows "server_inv E s'"
proof -
  have r: "refs s' = refs s" using assms(5) by (simp add: refs_def)
  have k: "Worker_tunnel k \<in> refs s" if "k < length (m_main_worker_tunnel s)" for k using that by (simp add: refs_def)
  have i: "inj_on (\<lambda>r. ref_fd r s') (refs s)" using assms(1,7) by (simp add: server_inv_def inj_on_def)
  have f: "m_main_worker_tunnel_fd2index s' f = Some k \<longleftrightarrow> k < length (m_main_worker_tunnel s') \<and> ref_fd (Worker_tunnel k) s' = f" for f k
    using assms(1) assms(7) [OF k, of k] unfolding assms(5,10) server_inv_def by auto
  have g: "get_conn (ref_fd q s') (m_main_connection_mgr s') \<noteq> None \<and> k_interest (m_epoller s') (ref_fd q s') \<noteq> None" if "q \<in> refs s" for q
    using assms(1) that unfolding assms(7) [OF that] assms(8) server_inv_def using assms(9) [OF that] by blast
  have n: "m_main_worker_tunnel s' \<noteq> []" using assms(1,5) by (auto simp: server_inv_def)
  show ?thesis
    unfolding server_inv_def r using assms(1,2,3,4,5,6) i f g n by (simp add: server_inv_def)
qed

section \<open>Steps on one tunnel\<close>

lemma tunnel_upd:
  assumes "server_inv E s" "r \<in> refs s" "m_sockfd sock = ref_fd r s"
    "fd (h (ref_conn r s)) = fd (ref_conn r s)" "gid (h (ref_conn r s)) = gid (ref_conn r s)"
  defines "s' \<equiv> upd_sconn (slot r s) h (set_tunnel_sock r sock s)"
  shows "server_inv E s'" "sv_frame r s s'" "tunnel_sock r s' = sock" "ref_conn r s' = h (ref_conn r s)"
    "m_epoller s' = m_epoller s" "stop_flag s' = stop_flag s"
proof -
  note d = server_invD [OF assms(1)] and sl = slots [OF assms(1)]
  have t: "tunnel_sock q s' = (if q = r then sock else tunnel_sock q s)" for q
    using assms(2) by (simp add: s'_def tunnel_sock_set)
  have f: "ref_fd q s' = ref_fd q s" for q using t assms(3) by simp
  have g: "get_conn f (m_main_connection_mgr s') = get_conn f (m_main_connection_mgr s)" for f by (simp add: s'_def)
  have sq: "slot q s' = slot q s" for q by (simp add: slot_def f g)
  have c: "s_conn j s' = (if slot r s = j then h (s_conn j s) else s_conn j s)" for j
    using conn_at_upd [OF d(1) sl(1) [OF assms(2)]] by (simp add: s'_def)
  show "tunnel_sock r s' = sock" "ref_conn r s' = h (ref_conn r s)" by (simp_all add: t sq c)
  show e: "m_epoller s' = m_epoller s" "stop_flag s' = stop_flag s" by (simp_all add: s'_def)
  have m: "mgr_inv (m_main_connection_mgr s')"
    using upd_conn_inv [of _ h "slot r s", OF d(1) assms(4,5) sl(1) [OF assms(2)]] by (simp add: s'_def)
  show "server_inv E s'"
    by (rule server_inv_cong [OF assms(1) m]) (use d f g e in \<open>simp_all add: s'_def\<close>)
  have "ref_conn q s' = ref_conn q s" if "q \<in> refs s" "q \<noteq> r" for q
    using sl(3) [OF assms(2) that(1)] that(2) by (auto simp: sq c)
  then show "sv_frame r s s'" using f sq t e by (simp add: sv_frame_def) (simp add: s'_def)
qed

lemma epoll_upd:
  assumes "server_inv E s" "r \<in> refs s"
  shows "server_inv E (s_epoll_mod (ref_fd r s) ev s)" "sv_frame r s (s_epoll_mod (ref_fd r s) ev s)"
    "tunnel_sock q (s_epoll_mod f ev s) = tunnel_sock q s" "ref_conn q (s_epoll_mod f ev s) = ref_conn q s"
    "k_interest (m_epoller (s_epoll_mod (ref_fd r s) ev s)) (ref_fd r s) = Some ev"
    "stop_flag (s_epoll_mod f ev s) = stop_flag s"
proof -
  note d = server_invD [OF assms(1)]
  have simps: "tunnel_sock q (s_epoll_mod f ev s) = tunnel_sock q s" "m_main_connection_mgr (s_epoll_mod f ev s) = m_main_connection_mgr s"
      "refs (s_epoll_mod f ev s) = refs s" "slot q (s_epoll_mod f ev s) = slot q s" "sv_rest (s_epoll_mod f ev s) = sv_rest s" for q f
    by (cases q; simp add: s_epoll_mod_def refs_def slot_def sv_rest_def)+
  show "tunnel_sock q (s_epoll_mod f ev s) = tunnel_sock q s" "ref_conn q (s_epoll_mod f ev s) = ref_conn q s" by (simp_all add: simps)
  show sf: "stop_flag (s_epoll_mod f ev s) = stop_flag s" for f by (simp add: s_epoll_mod_def)
  have k: "k_interest (m_epoller (s_epoll_mod (ref_fd r s) ev s)) f =
      (if f = ref_fd r s then Some ev else k_interest (m_epoller s) f)" for f
    using poller_mod_inv(2,5) [OF d(2), of "ref_fd r s" ev False] poller_mod_inv(3) [OF d(2), of f "ref_fd r s" ev False] d(3) d(5) [OF assms(2)]
    by (simp add: s_epoll_mod_def)
  then show "k_interest (m_epoller (s_epoll_mod (ref_fd r s) ev s)) (ref_fd r s) = Some ev" by simp
  show "server_inv E (s_epoll_mod (ref_fd r s) ev s)"
    by (rule server_inv_cong [OF assms(1)])
      (use d(1,5) k poller_mod_inv(1) [OF d(2)] simps in \<open>simp_all add: s_epoll_mod_def\<close>)
  have "k_interest (m_epoller (s_epoll_mod (ref_fd r s) ev s)) (ref_fd q s) = k_interest (m_epoller s) (ref_fd q s)"
    if "q \<in> refs s" "q \<noteq> r" for q using k d(6) [OF that(1) assms(2)] that(2) by auto
  then show "sv_frame r s (s_epoll_mod (ref_fd r s) ev s)" using simps sf by (simp add: sv_frame_def)
qed

lemma stop_upd:
  assumes "server_inv E s"
  shows "server_inv E (server_to_stop s)" "sv_frame r s (server_to_stop s)" "tunnel_sock q (server_to_stop s) = tunnel_sock q s"
    "ref_conn q (server_to_stop s) = ref_conn q s" "stop_flag (server_to_stop s)" "m_epoller (server_to_stop s) = m_epoller s"
proof -
  have simps: "tunnel_sock q (server_to_stop s) = tunnel_sock q s" "slot q (server_to_stop s) = slot q s"
      "refs (server_to_stop s) = refs s" "sv_rest (server_to_stop s) = sv_rest s" for q
    by (cases q; simp add: server_to_stop_def refs_def slot_def sv_rest_def)+
  show "tunnel_sock q (server_to_stop s) = tunnel_sock q s" "ref_conn q (server_to_stop s) = ref_conn q s" by (simp_all add: simps) (simp add: server_to_stop_def)
  show "stop_flag (server_to_stop s)" "m_epoller (server_to_stop s) = m_epoller s" by (simp_all add: server_to_stop_def)
  show "server_inv E (server_to_stop s)"
    by (rule server_inv_cong [OF assms]) (use server_invD [OF assms] simps in \<open>simp_all add: server_to_stop_def\<close>)
  show "sv_frame r s (server_to_stop s)" using simps by (simp add: sv_frame_def) (simp add: server_to_stop_def)
qed

lemma server_flush_ok:
  assumes "server_inv E s" "r \<in> refs s"
  defines "s' \<equiv> server_try_send_flush_tunnel r s"
  shows "server_inv E s'" "sv_frame r s s'" "sv_stream r s' = sv_stream r s" "sv_watched r s'"
    "recv_buffer (ref_conn r s') = recv_buffer (ref_conn r s)" "k_rx (tunnel_sock r s') = k_rx (tunnel_sock r s)"
proof -
  let ?sock = "tunnel_sock r s" and ?i = "slot r s"
  have g: "get_conn (ref_fd r s) (m_main_connection_mgr s) = Some ?i" by (rule server_invD(4) [OF assms(1,2)])
  note em = epoll_upd [OF assms(1,2), where ev = RE]
  obtain b' sock' e where sl: "send_loop (send_buffer (ref_conn r s)) ?sock = (b', sock', e)" by (metis prod_cases3)
  note f = send_loop_facts [OF sl]
  define s1 where "s1 = upd_sconn ?i (send_buffer_update (\<lambda>_. b')) (set_tunnel_sock r sock' s)"
  note u = tunnel_upd [OF assms(1,2) f(3), of "send_buffer_update (\<lambda>_. b')", folded s1_def, simplified]
  have r1: "r \<in> refs s1" using u(2) assms(2) by (simp add: sv_frame_def)
  have s1s: "slot r s1 = slot r s" "ref_fd r s1 = ref_fd r s" using u(2) assms(2) by (simp_all add: sv_frame_def)
  note em1 = epoll_upd [OF u(1) r1, where ev = RWE] and st1 = stop_upd [OF u(1)]
  have emp: "s' = s_epoll_mod (ref_fd r s) RE s" if "m_data (send_buffer (ref_conn r s)) = []"
    using that g by (simp add: s'_def server_try_send_flush_tunnel_def Let_def)
  have full: "s' = (case e of None \<Rightarrow> s1 | Some x \<Rightarrow> if \<not> would_block x then server_to_stop s1 else s_epoll_mod (ref_fd r s1) RWE s1)"
    if "m_data (send_buffer (ref_conn r s)) \<noteq> []"
    using that g sl u(3) by (auto simp: s'_def server_try_send_flush_tunnel_def Let_def s1_def would_block_def split: option.splits)
  have "server_inv E s' \<and> sv_frame r s s' \<and> sv_stream r s' = sv_stream r s \<and> sv_watched r s' \<and>
      recv_buffer (ref_conn r s') = recv_buffer (ref_conn r s) \<and> k_rx (tunnel_sock r s') = k_rx (tunnel_sock r s)"
  proof (cases "m_data (send_buffer (ref_conn r s)) = []")
    case True
    then show ?thesis using emp em by (simp add: sv_stream_def sv_watched_def)
  next
    case False
    have str1: "sv_stream r s1 = sv_stream r s" using u(3,4) f(1) by (simp add: sv_stream_def)
    have c1: "recv_buffer (ref_conn r s1) = recv_buffer (ref_conn r s)" "k_rx (tunnel_sock r s1) = k_rx (tunnel_sock r s)"
      using u(3,4) f(7) by simp_all
    consider "e = None" | x where "e = Some x" "\<not> would_block x" | x where "e = Some x" "would_block x" by (cases e) auto
    then show ?thesis
    proof cases
      case 1
      then show ?thesis using full [OF False] u str1 c1 f(2) by (simp add: sv_watched_def)
    next
      case 2
      then have "s' = server_to_stop s1" using full [OF False] by simp
      then show ?thesis using st1 str1 c1 sv_frame_trans [OF u(2) st1(2)] by (simp add: sv_watched_def sv_stream_def)
    next
      case 3
      then have e: "s' = s_epoll_mod (ref_fd r s1) RWE s1" using full [OF False] by simp
      show ?thesis unfolding e using em1 str1 c1 sv_frame_trans [OF u(2) em1(2)] by (simp add: sv_watched_def sv_stream_def)
    qed
  qed
  then show "server_inv E s'" "sv_frame r s s'" "sv_stream r s' = sv_stream r s" "sv_watched r s'"
    "recv_buffer (ref_conn r s') = recv_buffer (ref_conn r s)" "k_rx (tunnel_sock r s') = k_rx (tunnel_sock r s)" by simp_all
qed

section \<open>Forwarding\<close>

definition tref :: "int \<Rightarrow> tunnel_ref" where
  "tref d = (if d = PROTO_TUNNEL_ID_OTHER then Other_tunnel else Worker_tunnel (nat d))"

definition relayed :: "params \<Rightarrow> int \<Rightarrow> int \<Rightarrow> proto_package \<Rightarrow> bytes" where
  "relayed E src dest msg = pack_package_msg (ser_package E) (ser_tunnel E)
     \<lparr>sourcetunnelsid = src, targettunnelsid = [dest], targetallworker = False, tp_inner = msg\<rparr> PROTO_CMD_TUNNEL_PACKAGE"

lemma worker_ids:
  assumes "server_inv E s"
  shows "is_worker_tunnel_id (p_tunnels E) d \<longleftrightarrow> 0 \<le> d \<and> nat d < length (m_main_worker_tunnel s)"
    "is_tunnel_id (p_tunnels E) d \<longleftrightarrow> is_worker_tunnel_id (p_tunnels E) d \<or> d = PROTO_TUNNEL_ID_OTHER \<or> d = PROTO_TUNNEL_ID_MAIN"
    "is_worker_tunnel_id (p_tunnels E) d \<Longrightarrow> d \<noteq> PROTO_TUNNEL_ID_OTHER \<and> d \<noteq> PROTO_TUNNEL_ID_MAIN"
  using assms
  by (auto simp: server_inv_def is_worker_tunnel_id_def is_tunnel_id_def get_worker_tunnel_id_max_def PROTO_TUNNEL_WORKER_MIN_def
      PROTO_TUNNEL_ID_OTHER_def PROTO_TUNNEL_ID_MAIN_def)

lemma tref_refs:
  assumes "server_inv E s" "is_tunnel_id (p_tunnels E) d" "d \<noteq> PROTO_TUNNEL_ID_MAIN"
  shows "tref d \<in> refs s"
  using worker_ids(1,2) [OF assms(1), of d] assms(2,3) by (auto simp: tref_def refs_def)

lemma tref_inj:
  assumes "server_inv E s" "is_tunnel_id (p_tunnels E) d" "is_tunnel_id (p_tunnels E) d'" "d \<noteq> PROTO_TUNNEL_ID_MAIN" "d' \<noteq> PROTO_TUNNEL_ID_MAIN"
    "tref d = tref d'"
  shows "d = d'"
  using worker_ids(1,2) [OF assms(1), of d] worker_ids(1,2) [OF assms(1), of d'] assms(2-6) by (auto simp: tref_def split: if_splits)

lemma set_same_sock: "set_tunnel_sock r (tunnel_sock r s) s = s"
  by (cases r) simp_all

lemma dest_conn:
  assumes "server_inv E s" "is_tunnel_id (p_tunnels E) d"
  shows "(if is_worker_tunnel_id (p_tunnels E) d then get_main2worker_tunnel E d s
          else if PROTO_TUNNEL_ID_OTHER = d then get_main2other_tunnel s else None) =
    (if d = PROTO_TUNNEL_ID_MAIN then None else Some (slot (tref d) s))"
proof (cases "d = PROTO_TUNNEL_ID_MAIN")
  case True
  then show ?thesis using worker_ids(3) [OF assms(1), of d] by (auto simp: PROTO_TUNNEL_ID_MAIN_def PROTO_TUNNEL_ID_OTHER_def)
next
  case False
  have g: "get_conn (ref_fd (tref d) s) (m_main_connection_mgr s) = Some (slot (tref d) s)"
    by (rule server_invD(4) [OF assms(1) tref_refs [OF assms False]])
  show ?thesis
    using worker_ids [OF assms(1), of d] assms(2) False g
    by (auto simp: get_main2worker_tunnel_def get_main2other_tunnel_def tref_def get_worker_idx_by_tunnel_id_def PROTO_TUNNEL_WORKER_MIN_def Let_def)
qed

lemma fd2index_ref:
  assumes "server_inv E s" "r \<in> refs s"
  shows "(case m_main_worker_tunnel_fd2index s (ref_fd r s) of Some k \<Rightarrow> A (Worker_tunnel k)
          | None \<Rightarrow> if m_sockfd (m_main_other_tunnel s) = ref_fd r s then A Other_tunnel else B) = A r"
proof (cases r)
  case (Worker_tunnel k)
  then have "m_main_worker_tunnel_fd2index s (ref_fd r s) = Some k" using assms by (auto simp: server_inv_def refs_def)
  then show ?thesis using Worker_tunnel by simp
next
  case Other_tunnel
  have "m_main_worker_tunnel_fd2index s (ref_fd r s) = None"
  proof (rule ccontr)
    assume "m_main_worker_tunnel_fd2index s (ref_fd r s) \<noteq> None"
    then obtain k where "k < length (m_main_worker_tunnel s)" "ref_fd (Worker_tunnel k) s = ref_fd r s"
      using assms(1) unfolding server_inv_def by blast
    then show False using server_invD(6) [OF assms(1) _ assms(2), of "Worker_tunnel k"] Other_tunnel by (simp add: refs_def)
  qed
  then show ?thesis using Other_tunnel by simp
qed

text \<open>Everything but the streams of the tunnels is kept, and the stream of one tunnel grows.\<close>

definition sv_sent :: "params \<Rightarrow> (tunnel_ref \<Rightarrow> bytes) \<Rightarrow> server \<Rightarrow> server \<Rightarrow> bool" where
  "sv_sent E d s s' \<longleftrightarrow> server_inv E s' \<and> refs s' = refs s \<and> sv_rest s' = sv_rest s \<and> (stop_flag s \<longrightarrow> stop_flag s') \<and>
     (\<forall>q \<in> refs s. ref_fd q s' = ref_fd q s \<and> slot q s' = slot q s \<and> sv_stream q s' = sv_stream q s @ d q \<and>
        recv_buffer (s_conn (slot q s) s') = recv_buffer (ref_conn q s) \<and> k_rx (tunnel_sock q s') = k_rx (tunnel_sock q s) \<and>
        (sv_watched q s \<or> d q \<noteq> [] \<longrightarrow> sv_watched q s'))"

lemma sv_sent_refl: "server_inv E s \<Longrightarrow> sv_sent E (\<lambda>_. []) s s"
  by (simp add: sv_sent_def)

lemma sv_sent_trans:
  assumes "sv_sent E d s s'" "sv_sent E d' s' s''"
  shows "sv_sent E (\<lambda>q. d q @ d' q) s s''"
  using assms by (auto simp: sv_sent_def)

lemma sv_sent_frame:
  assumes "server_inv E s'" "sv_frame r s s'" "sv_stream r s' = sv_stream r s @ d" "sv_watched r s'"
    "recv_buffer (ref_conn r s') = recv_buffer (ref_conn r s)" "k_rx (tunnel_sock r s') = k_rx (tunnel_sock r s)"
  shows "sv_sent E (\<lambda>q. if q = r then d else []) s s'"
proof -
  have "sv_stream q s' = sv_stream q s \<and> recv_buffer (ref_conn q s') = recv_buffer (ref_conn q s) \<and>
      k_rx (tunnel_sock q s') = k_rx (tunnel_sock q s) \<and> (sv_watched q s \<longrightarrow> sv_watched q s')"
    if "q \<in> refs s" "q \<noteq> r" for q
    using assms(2) that by (auto simp: sv_frame_def sv_stream_def sv_watched_def)
  then show ?thesis using assms by (auto simp: sv_sent_def sv_frame_def)
qed

lemma server_forward_ok:
  assumes "server_inv E s" "is_tunnel_id (p_tunnels E) src" "is_tunnel_id (p_tunnels E) dest" "dest \<noteq> PROTO_TUNNEL_ID_MAIN"
  obtains s' where "server_tunnel_forward E src dest msg flush s = (0, s')"
    "sv_sent E (\<lambda>q. if q = tref dest then relayed E src dest msg else []) s s'"
proof -
  let ?r = "tref dest" and ?data = "relayed E src dest msg"
  have r: "?r \<in> refs s" by (rule tref_refs [OF assms(1,3,4)])
  let ?h = "\<lambda>c :: unit connection. c\<lparr>send_buffer := vsb_append ?data (send_buffer c)\<rparr>"
  define s1 where "s1 = upd_sconn (slot ?r s) ?h s"
  note u = tunnel_upd [OF assms(1) r refl, of ?h, unfolded set_same_sock, folded s1_def, simplified]
  have r1: "?r \<in> refs s1" "slot ?r s1 = slot ?r s" "ref_fd ?r s1 = ref_fd ?r s" using u(2) r by (simp_all add: sv_frame_def)
  have str: "sv_stream ?r s1 = sv_stream ?r s @ ?data" using u(3,4) by (simp add: sv_stream_def)
  have dfd: "fd (s_conn (slot ?r s) s1) = ref_fd ?r s1" using slots(2) [OF u(1) r1(1)] r1(2) by simp
  have e: "server_tunnel_forward E src dest msg flush s =
      (0, if flush then server_try_send_flush_tunnel ?r s1 else s_epoll_mod (ref_fd ?r s1) RWE s1)"
    unfolding server_tunnel_forward_def dest_conn [OF assms(1,3)] Let_def if_not_P [OF assms(4)] option.case
    unfolding relayed_def [symmetric] s1_def [symmetric] dfd
    using assms(2,3) by (cases flush)
      (simp_all add: fd2index_ref [OF u(1) r1(1), of "\<lambda>q. (0, server_try_send_flush_tunnel q s1)"] split del: if_split)
  note fl = server_flush_ok [OF u(1) r1(1)] and em = epoll_upd [OF u(1) r1(1), where ev = RWE]
  have 1: "sv_sent E (\<lambda>q. if q = ?r then ?data else []) s (server_try_send_flush_tunnel ?r s1)"
    by (rule sv_sent_frame [OF fl(1) sv_frame_trans [OF u(2) fl(2)]]) (use fl str u(3,4) in simp_all)
  have 2: "sv_sent E (\<lambda>q. if q = ?r then ?data else []) s (s_epoll_mod (ref_fd ?r s1) RWE s1)"
    by (rule sv_sent_frame [OF em(1) sv_frame_trans [OF u(2) em(2)]])
      (use em str u(3,4) in \<open>simp_all add: sv_stream_def sv_watched_def\<close>)
  show thesis by (rule that [OF e]) (use 1 2 in simp)
qed

lemma server_forward_refused:
  assumes "server_inv E s"
  shows "\<not> is_tunnel_id (p_tunnels E) src \<Longrightarrow> server_tunnel_forward E src dest msg flush s = (- 1, s)"
    "is_tunnel_id (p_tunnels E) src \<Longrightarrow> \<not> is_tunnel_id (p_tunnels E) dest \<Longrightarrow> server_tunnel_forward E src dest msg flush s = (- 2, s)"
    "is_tunnel_id (p_tunnels E) src \<Longrightarrow> dest = PROTO_TUNNEL_ID_MAIN \<Longrightarrow> server_tunnel_forward E src dest msg flush s = (- 3, s)"
  using dest_conn [OF assms, of dest] worker_ids(2) [OF assms, of dest]
  by (auto simp: server_tunnel_forward_def)

section \<open>Relaying\<close>

text \<open>The bytes that a message from a tunnel adds to the stream of the tunnel \<open>q\<close>.\<close>

definition relay_out :: "params \<Rightarrow> proto_package \<Rightarrow> tunnel_ref \<Rightarrow> bytes" where
  "relay_out E p q =
     (if cmd p \<noteq> PROTO_CMD_TUNNEL_PACKAGE then []
      else case parse_tunnel E (protocol p) of
             None \<Rightarrow> []
           | Some t \<Rightarrow>
               (case relay_targets E t of
                  None \<Rightarrow> []
                | Some D \<Rightarrow> concat (map (\<lambda>d. if q = tref d then relayed E (sourcetunnelsid t) d (tp_inner t) else []) (p_int_order E D))))"

lemma relay_targets_ids:
  assumes "server_inv E s" "relay_targets E t = Some D"
  shows "is_tunnel_id (p_tunnels E) (sourcetunnelsid t)" "finite D"
    "d \<in> D \<Longrightarrow> is_tunnel_id (p_tunnels E) d \<and> d \<noteq> PROTO_TUNNEL_ID_MAIN"
proof -
  let ?lo = PROTO_TUNNEL_WORKER_MIN and ?hi = "get_worker_tunnel_id_max (p_tunnels E)"
  have sub: "D \<subseteq> insert PROTO_TUNNEL_ID_OTHER {?lo .. ?hi}"
    using assms(2) unfolding relay_targets_def Let_def by (simp split: if_splits) force+
  show "is_tunnel_id (p_tunnels E) (sourcetunnelsid t)"
    using assms(2) unfolding relay_targets_def Let_def is_tunnel_id_def by (auto split: if_splits)
  show "finite D" using finite_subset [OF sub] by simp
  show "is_tunnel_id (p_tunnels E) d \<and> d \<noteq> PROTO_TUNNEL_ID_MAIN" if "d \<in> D"
    using sub that by (auto simp: is_tunnel_id_def PROTO_TUNNEL_WORKER_MIN_def PROTO_TUNNEL_ID_OTHER_def PROTO_TUNNEL_ID_MAIN_def)
qed

lemma relay_fold:
  assumes "server_inv E s" "is_tunnel_id (p_tunnels E) src" "\<forall>d \<in> set ds. is_tunnel_id (p_tunnels E) d \<and> d \<noteq> PROTO_TUNNEL_ID_MAIN"
  shows "sv_sent E (\<lambda>q. concat (map (\<lambda>d. if q = tref d then relayed E src d msg else []) ds)) s
    (fold (\<lambda>d s. snd (server_tunnel_forward E src d msg True s)) ds s)"
  using assms
proof (induction ds arbitrary: s)
  case Nil
  then show ?case using sv_sent_refl by simp
next
  case (Cons d ds)
  obtain s1 where s1: "server_tunnel_forward E src d msg True s = (0, s1)"
      "sv_sent E (\<lambda>q. if q = tref d then relayed E src d msg else []) s s1"
    by (rule server_forward_ok [OF Cons.prems(1,2), of d msg True]) (use Cons.prems(3) in auto)
  have "server_inv E s1" using s1(2) by (simp add: sv_sent_def)
  from Cons.IH [OF this Cons.prems(2)] Cons.prems(3)
  have "sv_sent E (\<lambda>q. concat (map (\<lambda>d. if q = tref d then relayed E src d msg else []) ds)) s1
      (fold (\<lambda>d s. snd (server_tunnel_forward E src d msg True s)) ds s1)" by simp
  from sv_sent_trans [OF s1(2) this] show ?case using s1(1) by simp
qed

lemma server_process_sent:
  assumes "server_inv E s" "env_ok E"
  shows "sv_sent E (relay_out E p) s (server_on_tunnel_process E p s)"
proof (cases "cmd p \<noteq> PROTO_CMD_TUNNEL_PACKAGE \<or> (\<exists>t. parse_tunnel E (protocol p) = Some t \<and> relay_targets E t = None) \<or>
    parse_tunnel E (protocol p) = None")
  case True
  then have "relay_out E p = (\<lambda>_. [])" "server_on_tunnel_process E p s = s"
    by (auto simp: relay_out_def server_on_tunnel_process_def split: option.splits)
  then show ?thesis using sv_sent_refl [OF assms(1)] by simp
next
  case False
  then obtain t D where t: "cmd p = PROTO_CMD_TUNNEL_PACKAGE" "parse_tunnel E (protocol p) = Some t" "relay_targets E t = Some D" by auto
  note i = relay_targets_ids [OF assms(1) t(3)]
  have "set (p_int_order E D) = D" using assms(2) i(2) by (simp add: env_ok_def)
  then have ids: "\<forall>d \<in> set (p_int_order E D). is_tunnel_id (p_tunnels E) d \<and> d \<noteq> PROTO_TUNNEL_ID_MAIN" using i(3) by simp
  have "server_on_tunnel_process E p s =
      fold (\<lambda>d s. snd (server_tunnel_forward E (sourcetunnelsid t) d (tp_inner t) True s)) (p_int_order E D) s"
    using t by (simp add: server_on_tunnel_process_def)
  moreover have "relay_out E p = (\<lambda>q. concat (map (\<lambda>d. if q = tref d then relayed E (sourcetunnelsid t) d (tp_inner t) else []) (p_int_order E D)))"
    using t by (intro ext) (simp add: relay_out_def)
  ultimately show ?thesis using relay_fold [OF assms(1) i(1) ids, of "tp_inner t"] by simp
qed

text \<open>Each target is reached once.\<close>

lemma concat_single:
  assumes "distinct ds" "d \<in> set ds" "\<And>d'. d' \<in> set ds \<Longrightarrow> P d' \<longleftrightarrow> d' = d"
  shows "concat (map (\<lambda>d'. if P d' then f d' else []) ds) = f d"
  using assms
proof (induction ds)
  case (Cons x ds)
  show ?case
  proof (cases "x = d")
    case True
    have none: "concat (map (\<lambda>d'. if P d' then f d' else []) ds) = []" using Cons.prems True by (intro concat_eq_Nil_conv [THEN iffD2]) auto
    show ?thesis using True none Cons.prems(3) [of x] by simp
  next
    case False
    then show ?thesis using Cons.IH Cons.prems by simp
  qed
qed simp

lemma relay_out_target:
  assumes "server_inv E s" "env_ok E" "cmd p = PROTO_CMD_TUNNEL_PACKAGE" "parse_tunnel E (protocol p) = Some t" "relay_targets E t = Some D"
    "is_tunnel_id (p_tunnels E) d" "d \<noteq> PROTO_TUNNEL_ID_MAIN"
  shows "relay_out E p (tref d) = (if d \<in> D then relayed E (sourcetunnelsid t) d (tp_inner t) else [])"
proof -
  note i = relay_targets_ids [OF assms(1,5)]
  have o: "set (p_int_order E D) = D" "distinct (p_int_order E D)" using assms(2) i(2) by (simp_all add: env_ok_def)
  have inj: "tref d = tref d' \<longleftrightarrow> d' = d" if "d' \<in> D" for d'
    using tref_inj [OF assms(1,6), of d'] i(3) [OF that] assms(7) by auto
  have e: "relay_out E p (tref d) =
      concat (map (\<lambda>d'. if tref d = tref d' then relayed E (sourcetunnelsid t) d' (tp_inner t) else []) (p_int_order E D))"
    using assms(3-5) by (simp add: relay_out_def)
  show ?thesis
  proof (cases "d \<in> D")
    case True
    then show ?thesis unfolding e using concat_single [OF o(2), of d "\<lambda>d'. tref d = tref d'"] o(1) inj by simp
  next
    case False
    then show ?thesis unfolding e using o(1) inj by (auto simp: concat_eq_Nil_conv)
  qed
qed

section \<open>Reading the tunnels\<close>

definition main_ok :: "params \<Rightarrow> tunnel_ref \<Rightarrow> nat \<Rightarrow> server \<Rightarrow> bool" where
  "main_ok E r i s \<longleftrightarrow> env_ok E \<and> server_inv E s \<and> r \<in> refs s \<and> slot r s = i"

definition main_buf :: "nat \<Rightarrow> server \<Rightarrow> bytes" where
  "main_buf i s = m_data (recv_buffer (s_conn i s))"

abbreviation main_move :: "nat \<Rightarrow> nat \<Rightarrow> server \<Rightarrow> server" where
  "main_move i n s \<equiv> upd_sconn i (recv_buffer_update (move_read_ptr_n n)) s"

definition main_consume :: "params \<Rightarrow> nat \<Rightarrow> nat \<Rightarrow> proto_package \<Rightarrow> server \<Rightarrow> server" where
  "main_consume E i n p s = main_move i n (server_on_tunnel_process E p s)"

text \<open>Changes of the receive buffer of a tunnel.\<close>

lemma recv_upd:
  fixes h :: "vec_str_buffer \<Rightarrow> vec_str_buffer"
  assumes "server_inv E s" "r \<in> refs s"
  defines "s' \<equiv> upd_sconn (slot r s) (recv_buffer_update h) s"
  shows "server_inv E s'" "refs s' = refs s" "slot q s' = slot q s" "sv_stream q s' = sv_stream q s" "sv_watched q s' = sv_watched q s"
    "main_buf (slot r s) s' = m_data (h (recv_buffer (ref_conn r s)))" "tunnel_sock q s' = tunnel_sock q s" "sv_rest s' = sv_rest s"
    "stop_flag s' = stop_flag s" "q \<in> refs s \<Longrightarrow> q \<noteq> r \<Longrightarrow> s_conn (slot q s) s' = s_conn (slot q s) s"
proof -
  note u = tunnel_upd [OF assms(1,2) refl, of "recv_buffer_update h", unfolded set_same_sock, folded s'_def, simplified]
  have c: "s_conn j s' = (if slot r s = j then recv_buffer_update h (s_conn j s) else s_conn j s)" for j
    using conn_at_upd [OF server_invD(1) [OF assms(1)] slots(1) [OF assms(1,2)]] by (simp add: s'_def)
  show "server_inv E s'" by (rule u(1))
  show r: "refs s' = refs s" "slot q s' = slot q s" "tunnel_sock q s' = tunnel_sock q s" "sv_rest s' = sv_rest s" "stop_flag s' = stop_flag s" for q
    by (simp_all add: s'_def)
  show "sv_stream q s' = sv_stream q s" "sv_watched q s' = sv_watched q s"
    using u(5,6) by (simp_all add: sv_stream_def sv_watched_def r c)
  show "main_buf (slot r s) s' = m_data (h (recv_buffer (ref_conn r s)))" by (simp add: main_buf_def c)
  show "s_conn (slot q s) s' = s_conn (slot q s) s" if "q \<in> refs s" "q \<noteq> r"
    using slots(3) [OF assms(1,2) that(1)] that(2) by (auto simp: c)
qed

interpretation mfr: framed_reader "main_ok E r i" "main_buf i" "2 ^ 63" "parse_package E" "main_consume E i" "\<lambda>k. server_parse_loop k E i"
  for E r i
proof
  fix s d rest p
  assume ok: "main_ok E r i s" and b: "main_buf i s = frame d @ rest" and p: "parse_package E d = Some p"
  let ?s1 = "server_on_tunnel_process E p s"
  have s: "server_inv E s" "env_ok E" "r \<in> refs s" "slot r s = i" using ok by (simp_all add: main_ok_def)
  have "sv_sent E (relay_out E p) s ?s1" by (rule server_process_sent [OF s(1,2)])
  then have 1: "server_inv E ?s1" "r \<in> refs ?s1" "slot r ?s1 = i" "main_buf i ?s1 = main_buf i s"
    using s by (auto simp: sv_sent_def main_buf_def)
  note u = recv_upd [OF 1(1,2), where h = "move_read_ptr_n (8 + length d)", unfolded 1(3)]
  show "main_ok E r i (main_consume E i (8 + length d) p s) \<and> main_buf i (main_consume E i (8 + length d) p s) = rest"
    using u 1 s b by (simp add: main_ok_def main_consume_def) (simp add: main_buf_def)
next
  fix s d rest p k
  assume b: "main_buf i s = frame d @ rest" and d: "d \<noteq> []" and p: "parse_package E d = Some p" and len: "length (main_buf i s) < 2 ^ 63"
  note u = u64_frame [OF b len]
  have nz: "toh64_from_buffer (main_buf i s) \<noteq> 0" using u(1) d by auto
  have t: "take (length d) (drop 8 (main_buf i s)) = d" "main_buf i s \<noteq> []" using b by auto
  show "server_parse_loop (Suc k) E i s = server_parse_loop k E i (main_consume E i (8 + length d) p s)"
    using u nz p t by (simp add: Let_def main_buf_def main_consume_def)
next
  fix s k
  assume "incomplete (2 ^ 63) (main_buf i s)" "length (main_buf i s) < 2 ^ 63"
  then show "server_parse_loop (Suc k) E i s = s"
    using u64_waits [of "main_buf i s" "toh64_from_buffer (main_buf i s)"]
    by (auto simp: incomplete_def main_buf_def Let_def)
qed

end
