(* ===== verification/Server_Run.thy ===== *)
theory Server_Run
  imports Server_Props
begin

text \<open>
  The loop of the main thread: whatever arrives through the tunnels, from the listening socket
  and from the signal handlers, its tables stay consistent.
\<close>

section \<open>Events of the tunnels\<close>

lemma main_ok_move:
  "main_ok E r i s \<Longrightarrow> main_ok E r i (main_move i n s)"
  using recv_upd [of E s r, where h = "move_read_ptr_n n"] by (auto simp: main_ok_def)

lemma main_ok_process:
  assumes "main_ok E r i s"
  shows "main_ok E r i (server_on_tunnel_process E p s)"
  using server_process_sent [of E s p] assms by (auto simp: main_ok_def sv_sent_def)

lemma server_parse_loop_ok: "main_ok E r i s \<Longrightarrow> main_ok E r i (server_parse_loop k E i s)"
proof (induction k arbitrary: s)
  case (Suc k)
  have "main_ok E r i (server_parse_loop k E i (main_move i n (server_on_tunnel_process E p s)))" for n p
    by (rule Suc.IH [OF main_ok_move [OF main_ok_process [OF Suc.prems]]])
  then show ?case using Suc.prems main_ok_move [OF Suc.prems] by (auto simp: Let_def split: option.splits)
qed simp

declare server_parse_loop.simps [simp del]

lemma set_sock_ok:
  assumes "server_inv E s" "r \<in> refs s" "m_sockfd sock = ref_fd r s"
  shows "server_inv E (set_tunnel_sock r sock s)" "slot q (set_tunnel_sock r sock s) = slot q s"
proof -
  have f: "ref_fd q (set_tunnel_sock r sock s) = ref_fd q s" for q using assms(2,3) by (simp add: tunnel_sock_set)
  show "server_inv E (set_tunnel_sock r sock s)"
    by (rule server_inv_cong [OF assms(1)]) (use server_invD(1,2,5) [OF assms(1)] f in simp_all)
  show "slot q (set_tunnel_sock r sock s) = slot q s" by (simp add: slot_def f)
qed

lemma server_tunnel_event_ok:
  assumes "server_inv E s" "env_ok E" "r \<in> refs s"
  shows "server_inv E (server_on_tunnel_event E r ev s)"
proof -
  let ?sock = "tunnel_sock r s" and ?i = "slot r s"
  have g: "get_conn (ref_fd r s) (m_main_connection_mgr s) = Some ?i" by (rule server_invD(4) [OF assms(1,3)])
  obtain buffer broken sock' where rl: "tunnel_read_loop (Suc (rx_weight (k_rx ?sock))) [] ?sock = (buffer, broken, sock')"
    by (metis prod_cases3)
  have fd: "m_sockfd sock' = ref_fd r s" using tunnel_read_loop_bytes [OF rl] by simp
  define s2 where "s2 = set_tunnel_sock r sock' s"
  have 2: "server_inv E s2" "slot r s2 = ?i" "r \<in> refs s2" using set_sock_ok [OF assms(1,3) fd] assms(3) by (simp_all add: s2_def)
  define s3 where "s3 = (if broken then server_to_stop s2 else s2)"
  have 3: "server_inv E s3" "slot r s3 = ?i" "r \<in> refs s3"
    using 2 stop_upd [OF 2(1)] by (auto simp: s3_def sv_frame_def)
  define s4 where "s4 = (if length buffer > 0 then upd_sconn ?i (recv_buffer_update (vsb_append buffer)) s3 else s3)"
  have 4: "main_ok E r ?i s4"
    using 3 assms(2) recv_upd [OF 3(1,3), where h = "vsb_append buffer", unfolded 3(2)] by (simp add: s4_def main_ok_def)
  define s5 where "s5 = server_parse_loop (Suc (vsb_size (recv_buffer (s_conn ?i s4)))) E ?i s4"
  have 5: "server_inv E s5" "r \<in> refs s5" using server_parse_loop_ok [OF 4] by (auto simp: s5_def main_ok_def)
  define s6 where "s6 = (if ev AND READ \<noteq> 0 then s5 else s)"
  have 6: "server_inv E s6" "r \<in> refs s6" using 5 assms(1,3) by (simp_all add: s6_def)
  have "server_on_tunnel_event E r ev s = (if ev AND WRITE \<noteq> 0 then server_try_send_flush_tunnel r s6 else s6)"
    unfolding server_on_tunnel_event_def Let_def g option.case rl prod.case
    unfolding s2_def [symmetric] s3_def [symmetric] s4_def [symmetric] s5_def [symmetric] s6_def [symmetric] ..
  then show ?thesis using server_flush_ok(1) [OF 6] 6(1) by simp
qed

section \<open>New clients\<close>

lemma choose_worker_range:
  assumes "nums \<noteq> []"
  shows "unat (choose_worker nums) < length nums"
proof -
  define i where "i = fst (choose_worker_scan nums 0 (0, 0))"
  have "i < length nums" using choose_worker_least [OF assms] by (simp add: i_def)
  moreover have "unat (choose_worker nums) = unat (of_nat i :: u64) mod 512"
    unfolding choose_worker_def i_def [symmetric] by (rule unat_and_mask9)
  moreover have "unat (of_nat i :: u64) \<le> i" by (simp add: unsigned_of_nat take_bit_nat_def)
  ultimately show ?thesis using mod_less_eq_dividend [of "unat (of_nat i :: u64)" 512] by linarith
qed

definition new_client_package :: "params \<Rightarrow> int \<Rightarrow> u64 \<Rightarrow> proto_package" where
  "new_client_package E f g =
     pack_package_into (ser_new_client E) package_default \<lparr>nc_fd = f, nc_gid = g\<rparr> PROTO_CMD_TUNNEL_MAIN2WORKER_NEW_CLIENT"

lemma nums_upd_simps [simp]:
  "refs (s\<lparr>worker_nums := nums\<rparr>) = refs s" "tunnel_sock q (s\<lparr>worker_nums := nums\<rparr>) = tunnel_sock q s"
  "slot q (s\<lparr>worker_nums := nums\<rparr>) = slot q s" "sv_stream q (s\<lparr>worker_nums := nums\<rparr>) = sv_stream q s"
  "sv_watched q (s\<lparr>worker_nums := nums\<rparr>) = sv_watched q s"
  by (cases q; simp add: refs_def slot_def sv_stream_def sv_watched_def)+

lemma server_inv_nums:
  "length nums = length (worker_nums s) \<Longrightarrow> server_inv E s \<Longrightarrow> server_inv E (s\<lparr>worker_nums := nums\<rparr>)"
  by (rule server_inv_cong) (use server_invD(1,2,5) [of E s] in simp_all)

lemma announce_ok:
  assumes "server_inv E s"
  defines "k \<equiv> unat (choose_worker (worker_nums s))"
  defines "nums \<equiv> (worker_nums s)[k := worker_nums s ! k + 1]"
  shows "k < length (m_main_worker_tunnel s)"
    "sv_sent E (\<lambda>q. if q = Worker_tunnel k
        then relayed E PROTO_TUNNEL_ID_MAIN (int k) (new_client_package E f (real_gid g (choose_worker (worker_nums s)))) else [])
      (s\<lparr>worker_nums := nums\<rparr>) (announce_client E (f, g) s)"
proof -
  have l: "length (worker_nums s) = length (m_main_worker_tunnel s)" "worker_nums s \<noteq> []" using assms(1) by (auto simp: server_inv_def)
  show k: "k < length (m_main_worker_tunnel s)" using choose_worker_range [OF l(2)] l(1) by (simp add: k_def)
  let ?s = "s\<lparr>worker_nums := nums\<rparr>"
  have inv: "server_inv E ?s" by (rule server_inv_nums [OF _ assms(1)]) (simp add: nums_def)
  have w: "is_tunnel_id (p_tunnels E) (int k)" "int k \<noteq> PROTO_TUNNEL_ID_MAIN" "tref (int k) = Worker_tunnel k"
    using worker_ids(1,2) [OF assms(1), of "int k"] k by (auto simp: tref_def PROTO_TUNNEL_ID_MAIN_def PROTO_TUNNEL_ID_OTHER_def)
  have m: "is_tunnel_id (p_tunnels E) PROTO_TUNNEL_ID_MAIN" using worker_ids(2) [OF assms(1)] by simp
  obtain s' where f: "server_tunnel_forward E PROTO_TUNNEL_ID_MAIN (int k) (new_client_package E f (real_gid g (choose_worker (worker_nums s)))) True ?s = (0, s')"
      "sv_sent E (\<lambda>q. if q = tref (int k) then relayed E PROTO_TUNNEL_ID_MAIN (int k)
          (new_client_package E f (real_gid g (choose_worker (worker_nums s)))) else []) ?s s'"
    by (rule server_forward_ok [OF inv m w(1,2)])
  have "announce_client E (f, g) s = s'"
    unfolding announce_client_def Let_def prod.case new_client_package_def [symmetric] k_def [symmetric] nums_def [symmetric]
    using f(1) by (simp add: get_worker_tunnel_id_def PROTO_TUNNEL_WORKER_MIN_def)
  then show "sv_sent E (\<lambda>q. if q = Worker_tunnel k
        then relayed E PROTO_TUNNEL_ID_MAIN (int k) (new_client_package E f (real_gid g (choose_worker (worker_nums s)))) else [])
      (s\<lparr>worker_nums := nums\<rparr>) (announce_client E (f, g) s)"
    using f(2) w(3) by simp
qed

lemma announce_inv: "server_inv E s \<Longrightarrow> server_inv E (announce_client E c s)"
  using announce_ok(2) [of E s "fst c" "snd c"] by (simp add: sv_sent_def)

lemma listen_inv: "server_inv E s \<Longrightarrow> server_inv E (on_listen_event E fs gs s)"
proof -
  have "server_inv E s \<Longrightarrow> server_inv E (fold (announce_client E) cs s)" for cs
    by (induction cs arbitrary: s) (simp_all add: announce_inv)
  then show "server_inv E s \<Longrightarrow> server_inv E (on_listen_event E fs gs s)" by (simp add: on_listen_event_def)
qed

lemma tunnel_sock_upds [simp]:
  "tunnel_sock q (s\<lparr>k_accept := a\<rparr>) = tunnel_sock q s" "tunnel_sock q (s\<lparr>sv_closed := b\<rparr>) = tunnel_sock q s"
  "tunnel_sock q (s\<lparr>m_curr_connection_num := c\<rparr>) = tunnel_sock q s" "tunnel_sock q (s\<lparr>sv_gids := d\<rparr>) = tunnel_sock q s"
  "tunnel_sock q (s\<lparr>g_stop_request := e\<rparr>) = tunnel_sock q s" "tunnel_sock q (s\<lparr>g_reload_request := e\<rparr>) = tunnel_sock q s"
  "tunnel_sock q (s\<lparr>other_to_stop := e\<rparr>) = tunnel_sock q s" "tunnel_sock q (s\<lparr>sv_reloads := n\<rparr>) = tunnel_sock q s"
  "tunnel_sock q (s\<lparr>m_epoller := p\<rparr>) = tunnel_sock q s"
  by (cases q; simp)+

lemma server_inv_upds:
  assumes "server_inv E s"
  shows "server_inv E (s\<lparr>k_accept := a\<rparr>)" "server_inv E (s\<lparr>sv_closed := b\<rparr>)" "server_inv E (s\<lparr>m_curr_connection_num := c\<rparr>)"
    "server_inv E (s\<lparr>sv_gids := d\<rparr>)" "server_inv E (s\<lparr>g_stop_request := e\<rparr>)" "server_inv E (s\<lparr>g_reload_request := e\<rparr>)"
    "server_inv E (s\<lparr>other_to_stop := e\<rparr>)" "server_inv E (s\<lparr>sv_reloads := n\<rparr>)"
  by (rule server_inv_cong [OF assms]; use server_invD(1,2,5) [OF assms] in simp)+

lemma accept_loop_inv:
  "accept_loop n fs gs s = (fs', gs', s') \<Longrightarrow> server_inv E s \<Longrightarrow> server_inv E s'"
proof (induction n arbitrary: fs gs s)
  case (Suc n)
  show ?case
  proof (cases "k_accept s")
    case Nil
    then show ?thesis using Suc.prems by simp
  next
    case (Cons f rest)
    let ?s1 = "s\<lparr>k_accept := rest\<rparr>"
    have i1: "server_inv E ?s1" by (rule server_inv_upds(1) [OF Suc.prems(2)])
    obtain g src where gg: "server_gen_gid (sv_gids s) = (g, src)" by fastforce
    let ?s2 = "?s1\<lparr>m_curr_connection_num := m_curr_connection_num s + 1\<rparr>"
    have i2: "server_inv E (?s2\<lparr>sv_gids := src\<rparr>)" by (rule server_inv_upds(4) [OF server_inv_upds(3) [OF i1]])
    consider "f < 0" | "\<not> f < 0" "m_curr_connection_num s \<ge> max_client_cnt s" | "\<not> f < 0" "\<not> m_curr_connection_num s \<ge> max_client_cnt s"
      by blast
    then show ?thesis
    proof cases
      case 1
      then have "s' = ?s1" using Suc.prems(1) by (simp add: Cons)
      then show ?thesis using i1 by simp
    next
      case 2
      then have "s' = ?s1\<lparr>sv_closed := sv_closed s @ [f]\<rparr>" using Suc.prems(1) by (simp add: Cons)
      then show ?thesis using server_inv_upds(2) [OF i1] by simp
    next
      case 3
      then have "accept_loop n (fs @ [f]) (gs @ [g]) (?s2\<lparr>sv_gids := src\<rparr>) = (fs', gs', s')"
        using Suc.prems(1) gg by (simp add: Cons)
      then show ?thesis using Suc.IH [OF _ i2] by blast
    qed
  qed
qed simp

lemma server_accept_inv:
  assumes "server_inv E s"
  shows "server_inv E (server_accept E s)"
proof -
  obtain fs gs s1 where a: "accept_loop (accept_per_tick s) [] [] s = (fs, gs, s1)" by (metis prod_cases3)
  have "server_inv E s1" by (rule accept_loop_inv [OF a assms])
  then show ?thesis unfolding server_accept_def a Let_def prod.case using listen_inv by simp
qed

section \<open>The loop\<close>

lemma signals_inv:
  assumes "server_inv E s"
  shows "server_inv E (process_signal_requests s)"
proof -
  let ?s1 = "if g_stop_request s then server_to_stop s else s"
  have 1: "server_inv E ?s1" using assms stop_upd(1) by simp
  have 2: "server_inv E (?s1\<lparr>g_reload_request := False\<rparr>)" by (rule server_inv_upds(6) [OF 1])
  show ?thesis
    unfolding process_signal_requests_def Let_def using 1 2 server_inv_upds(8) [OF 2] by (cases "g_stop_request s") simp_all
qed

lemma close_unknown_inv:
  assumes "server_inv E s" "m_main_worker_tunnel_fd2index s f = None" "m_sockfd (m_main_other_tunnel s) \<noteq> f"
  shows "server_inv E (s\<lparr>m_epoller := k_close f (snd (poller_del f (m_epoller s))), sv_closed := c\<rparr>)"
proof -
  let ?p = "k_close f (snd (poller_del f (m_epoller s)))"
  note d = server_invD [OF assms(1)]
  have p: "poller_inv ?p" "m_epfd ?p = m_epfd (m_epoller s)" "\<And>g. g \<noteq> f \<Longrightarrow> k_interest ?p g = k_interest (m_epoller s) g"
    using d(2) by (auto simp: poller_inv_def poller_del_def poller_ctrl_def epoll_ctl_def k_close_def Let_def split: if_splits)
  have ne: "ref_fd q s \<noteq> f" if q: "q \<in> refs s" for q
  proof (cases q)
    case (Worker_tunnel k)
    then have "m_main_worker_tunnel_fd2index s (ref_fd q s) = Some k" using assms(1) q by (auto simp: server_inv_def refs_def)
    then show ?thesis using assms(2) by auto
  qed (use assms(3) in simp)
  have "server_inv E (s\<lparr>m_epoller := ?p\<rparr>)"
    by (rule server_inv_cong [OF assms(1)]) (use d(1,5) p ne in simp_all)
  from server_inv_upds(2) [OF this, of c] show ?thesis by simp
qed

lemma dispatch_inv:
  assumes "server_inv E s" "env_ok E"
  shows "server_inv E (server_dispatch E ev s)"
proof -
  obtain f code where e: "ev = (f, code)" by fastforce
  have w: "server_inv E (server_on_tunnel_event E (Worker_tunnel k) code s)" if "m_main_worker_tunnel_fd2index s f = Some k" for k
  proof -
    have "k < length (m_main_worker_tunnel s)" using assms(1) that unfolding server_inv_def by blast
    then show ?thesis by (intro server_tunnel_event_ok [OF assms]) (simp add: refs_def)
  qed
  have o: "server_inv E (server_on_tunnel_event E Other_tunnel code s)" by (rule server_tunnel_event_ok [OF assms]) (simp add: refs_def)
  show ?thesis
    unfolding server_dispatch_def e prod.case
    using assms(1) server_accept_inv [OF assms(1)] w o signals_inv [OF assms(1)] close_unknown_inv [OF assms(1), of f]
    by (auto split: option.splits)
qed

lemma iteration_inv:
  assumes "server_inv E s" "env_ok E"
  shows "server_inv E (fst (server_iteration E inp s))"
proof -
  let ?s0 = "s\<lparr>g_stop_request := g_stop_request s \<or> mi_stop inp, g_reload_request := g_reload_request s \<or> mi_reload inp\<rparr>"
  have 1: "server_inv E (process_signal_requests ?s0)" by (rule signals_inv [OF server_inv_upds(6) [OF server_inv_upds(5) [OF assms(1)]]])
  have f: "server_inv E t \<Longrightarrow> server_inv E (fold (server_dispatch E) evs t)" for evs t
    by (induction evs arbitrary: t) (simp_all add: dispatch_inv assms(2))
  show ?thesis
    unfolding server_iteration_def Let_def
    using 1 stop_upd(1) [OF 1] server_inv_upds(7) [OF 1] by (auto intro!: f server_inv_upds(4) split: wait_result.splits)
qed

lemma server_loop_inv:
  assumes "env_ok E"
  shows "server_inv E s \<Longrightarrow> server_inv E (server_loop E inps s)"
proof (induction inps arbitrary: s)
  case (Cons inp inps)
  have "server_inv E (fst (server_iteration E inp s))" by (rule iteration_inv [OF Cons.prems assms])
  then show ?case using Cons.IH by (auto split: prod.splits)
qed simp

end
