(* ===== verification/Main_Props.thy ===== *)
theory Main_Props
  imports Server_Run Codec
begin

text \<open>
  What the main thread guarantees, stated over the definitions, with a concrete main thread for
  each statement.
\<close>

section \<open>A concrete main thread\<close>

text \<open>One worker behind descriptor 5, the other thread behind descriptor 9.\<close>

definition one_params :: params where
  "one_params = codec_params\<lparr>p_tunnels := \<lparr>m_worker_cnt = 1\<rparr>\<rparr>"

lemma one_params_simps [simp]:
  "ser_package one_params = c_ser_package" "parse_package one_params = c_parse_package"
  "ser_tunnel one_params = c_ser_tunnel" "parse_tunnel one_params = c_parse_tunnel"
  "ser_forward one_params = c_ser_forward" "parse_forward one_params = c_parse_forward"
  "ser_new_client one_params = c_ser_new_client" "parse_new_client one_params = c_parse_new_client"
  "p_use_ssl one_params = False" "p_tunnels one_params = \<lparr>m_worker_cnt = 1\<rparr>" "p_pick one_params = Min"
  "p_int_order one_params = sorted_list_of_set"
  by (simp_all add: one_params_def)

lemma one_env_ok: "env_ok one_params"
  using codec_tunnel
  by (simp add: env_ok_def c_parse_tunnel_def package_default_def picks_def)

definition demo_server :: "bytes \<Rightarrow> server" where
  "demo_server received =
     \<lparr>sv_gids = \<lparr>m_gid_seq = 0, m_latest_tick_time = 100\<rparr>, worker_nums = [0], workers_to_stop = False, other_to_stop = False,
      m_main_worker_tunnel = [socket_new\<lparr>m_sockfd := 5\<rparr>], m_main_worker_tunnel_fd2index = [5 \<mapsto> 0],
      m_main_other_tunnel = socket_new\<lparr>m_sockfd := 9\<rparr>,
      m_epoller = poller_new\<lparr>m_epfd := 3, m_events_allocated := True,
                             fd_curr_reg_event := [5 \<mapsto> RE, 9 \<mapsto> RE], k_interest := [5 \<mapsto> RE, 9 \<mapsto> RE]\<rparr>,
      m_main_connection_mgr = demo_mgr None received [], stop_flag = False, m_curr_connection_num = 0, m_listen_fd = 7,
      m_signal_pipe_rd = 8, g_stop_request = False, g_reload_request = False, max_client_cnt = 10, accept_per_tick = 5,
      k_accept = [11, 12], sv_closed = [], sv_reloads = 0\<rparr>"

lemma demo_server_refs: "refs (demo_server received) = {Other_tunnel, Worker_tunnel 0}"
  by (auto simp: refs_def demo_server_def)

lemma demo_server_slots:
  "slot Other_tunnel (demo_server received) = 1" "slot (Worker_tunnel 0) (demo_server received) = 0"
  "main_buf 1 (demo_server received) = received"
  by (simp_all add: slot_def demo_server_def demo_mgr_def get_conn_def main_buf_def conn_at_def)

lemma demo_server_inv: "server_inv one_params (demo_server received)"
  unfolding server_inv_def demo_server_refs
  using demo_mgr_inv [of "None :: unit option" received "[]"]
  by (auto simp: demo_server_def poller_inv_def inj_on_def) (simp_all add: demo_mgr_def get_conn_def poller_new_def)

lemma demo_main_ok: "main_ok one_params Other_tunnel 1 (demo_server received)"
  using demo_server_inv one_env_ok demo_server_refs demo_server_slots by (simp add: main_ok_def)

section \<open>The loop\<close>

text \<open>
  C33. The loop of the main thread keeps its tables consistent, whatever it reads from the tunnels,
  whatever the kernel answers, whichever descriptors become ready and whenever signals arrive: every
  tunnel stays a registered connection of the pool and the poller's cache agrees with the kernel.
\<close>

theorem main_thread_safe:
  assumes "server_inv E s" "env_ok E"
  shows "server_inv E (server_loop E inps s)"
  by (rule server_loop_inv [OF assms(2,1)])

theorem main_thread_safe_witness:
  "server_inv one_params (server_loop one_params
     [\<lparr>mi_stop = False, mi_reload = True, mi_wait = Wait_events 101 [(7, READ), (9, RWE), (99, READ)], mi_workers_stoped = False, mi_other_stoped = False\<rparr>,
      \<lparr>mi_stop = True, mi_reload = False, mi_wait = Wait_error 4, mi_workers_stoped = True, mi_other_stoped = True\<rparr>]
     (demo_server [1, 2, 3]))"
  by (rule main_thread_safe [OF demo_server_inv one_env_ok])

section \<open>Relaying\<close>

abbreviation worker_tunnel :: "params \<Rightarrow> int \<Rightarrow> bool" where
  "worker_tunnel E d \<equiv> 0 \<le> d \<and> d < m_worker_cnt (p_tunnels E)"

text \<open>The targets by the numbers: -1 is the other thread, -2 the main thread, a worker is its index.\<close>

lemma relay_targets_spelled:
  assumes "worker_tunnel E d \<or> d = - 1"
  shows "(\<exists>D. relay_targets E t = Some D \<and> d \<in> D) \<longleftrightarrow>
    (sourcetunnelsid t = - 1 \<or> worker_tunnel E (sourcetunnelsid t)) \<and>
    (if targettunnelsid t = [] then worker_tunnel E d
     else d \<in> set (targettunnelsid t) \<and> (worker_tunnel E d \<or> worker_tunnel E (sourcetunnelsid t)))"
  using assms
  by (auto simp: relay_targets_def Let_def PROTO_TUNNEL_ID_OTHER_def PROTO_TUNNEL_ID_MAIN_def PROTO_TUNNEL_WORKER_MIN_def get_worker_tunnel_id_max_def)

lemma relay_out_spelled:
  assumes "server_inv E s" "env_ok E" "cmd p = PROTO_CMD_TUNNEL_PACKAGE" "parse_tunnel E (protocol p) = Some t"
    "worker_tunnel E d \<or> d = - 1"
  shows "relay_out E p (tref d) = (if \<exists>D. relay_targets E t = Some D \<and> d \<in> D then relayed E (sourcetunnelsid t) d (tp_inner t) else [])"
    "tref d \<in> refs s"
proof -
  have d: "is_tunnel_id (p_tunnels E) d" "d \<noteq> PROTO_TUNNEL_ID_MAIN"
    using assms(5) by (auto simp: is_tunnel_id_def PROTO_TUNNEL_ID_OTHER_def PROTO_TUNNEL_ID_MAIN_def PROTO_TUNNEL_WORKER_MIN_def
        get_worker_tunnel_id_max_def)
  then show "tref d \<in> refs s" using tref_refs [OF assms(1)] by auto
  show "relay_out E p (tref d) = (if \<exists>D. relay_targets E t = Some D \<and> d \<in> D then relayed E (sourcetunnelsid t) d (tp_inner t) else [])"
    using relay_out_target [OF assms(1-4) _ d] assms(3,4) by (cases "relay_targets E t") (auto simp: relay_out_def)
qed

text \<open>
  C34. Relaying a message. The tunnels are numbered: -1 is the other thread, a worker is its index.
  A message whose source is the other thread or a worker is written once into the tunnel of
  each of its targets and into no other tunnel, behind everything written before. Without a list of
  targets these are all workers; with a list, they are the workers on it, and the other
  thread when it is on it and the source is a worker. A message of any other source is
  written nowhere. Nothing stays queued unwatched.
\<close>

theorem main_relays_message:
  assumes "server_inv E s" "env_ok E" "cmd message = PROTO_CMD_TUNNEL_PACKAGE" "parse_tunnel E (protocol message) = Some t"
  shows "let s' = server_on_tunnel_process E message s; source = sourcetunnelsid t; targets = targettunnelsid t
    in server_inv E s' \<and>
      (\<forall>d. worker_tunnel E d \<or> d = - 1 \<longrightarrow>
         sv_stream (tref d) s' = sv_stream (tref d) s @
           (if (source = - 1 \<or> worker_tunnel E source) \<and>
               (if targets = [] then worker_tunnel E d
                else d \<in> set targets \<and> (worker_tunnel E d \<or> worker_tunnel E source))
            then relayed E source d (tp_inner t) else []) \<and>
         (sv_watched (tref d) s \<longrightarrow> sv_watched (tref d) s'))"
proof -
  have s: "sv_sent E (relay_out E message) s (server_on_tunnel_process E message s)" by (rule server_process_sent [OF assms(1,2)])
  show ?thesis
    unfolding Let_def
  proof (intro conjI allI impI)
    show "server_inv E (server_on_tunnel_process E message s)" using s by (simp add: sv_sent_def)
    fix d assume d: "worker_tunnel E d \<or> d = - 1"
    note o = relay_out_spelled [OF assms d] relay_targets_spelled [OF d, of t]
    show "sv_stream (tref d) (server_on_tunnel_process E message s) = sv_stream (tref d) s @
        (if (sourcetunnelsid t = - 1 \<or> worker_tunnel E (sourcetunnelsid t)) \<and>
            (if targettunnelsid t = [] then worker_tunnel E d
             else d \<in> set (targettunnelsid t) \<and> (worker_tunnel E d \<or> worker_tunnel E (sourcetunnelsid t)))
         then relayed E (sourcetunnelsid t) d (tp_inner t) else [])"
      using s o unfolding sv_sent_def o(3) [symmetric] by simp
    show "sv_watched (tref d) (server_on_tunnel_process E message s)" if "sv_watched (tref d) s"
      using s o(2) that by (simp add: sv_sent_def)
  qed
qed

definition demo_relay :: tunnel_package where
  "demo_relay = \<lparr>sourcetunnelsid = - 1, targettunnelsid = [0, - 2], targetallworker = False, tp_inner = \<lparr>cmd = 7, protocol = [42]\<rparr>\<rparr>"

lemma demo_relay_facts: "c_parse_tunnel (the (c_ser_tunnel demo_relay)) = Some demo_relay"
  by code_simp

theorem main_relays_message_witness:
  "let s' = server_on_tunnel_process one_params \<lparr>cmd = 3, protocol = the (c_ser_tunnel demo_relay)\<rparr> (demo_server [])
   in sv_stream (Worker_tunnel 0) s' = sv_stream (Worker_tunnel 0) (demo_server []) @ relayed one_params (- 1) 0 \<lparr>cmd = 7, protocol = [42]\<rparr> \<and>
      sv_stream Other_tunnel s' = sv_stream Other_tunnel (demo_server [])"
proof -
  let ?m = "\<lparr>cmd = 3, protocol = the (c_ser_tunnel demo_relay)\<rparr>"
  have p: "cmd ?m = PROTO_CMD_TUNNEL_PACKAGE" "parse_tunnel one_params (protocol ?m) = Some demo_relay"
    using demo_relay_facts by (simp_all add: proto_cmds)
  have d: "worker_tunnel one_params 0" "tref 0 = Worker_tunnel 0" "tref (- 1) = Other_tunnel"
    by (simp_all add: tref_def PROTO_TUNNEL_ID_OTHER_def)
  note r = main_relays_message [OF demo_server_inv one_env_ok p, unfolded Let_def]
  show ?thesis
    using spec [OF conjunct2 [OF r], of 0] spec [OF conjunct2 [OF r], of "- 1"] d by (simp add: Let_def demo_relay_def)
qed

lemma deliver_streams:
  assumes "main_ok E r i s"
  shows "main_ok E r i (fold (mfr.deliver E i) ds s) \<and> refs (fold (mfr.deliver E i) ds s) = refs s \<and>
    (\<forall>q \<in> refs s. sv_stream q (fold (mfr.deliver E i) ds s) =
       sv_stream q s @ concat (map (\<lambda>d. relay_out E (the (parse_package E d)) q) ds))"
  using assms
proof (induction ds arbitrary: s)
  case (Cons d ds)
  let ?p = "the (parse_package E d)"
  let ?s1 = "server_on_tunnel_process E ?p s"
  have ok: "server_inv E s" "env_ok E" "r \<in> refs s" "slot r s = i" using Cons.prems by (simp_all add: main_ok_def)
  have 1: "main_ok E r i ?s1" "sv_sent E (relay_out E ?p) s ?s1" by (rule main_ok_process [OF Cons.prems], rule server_process_sent [OF ok(1,2)])
  have m1: "server_inv E ?s1" "r \<in> refs ?s1" "slot r ?s1 = i" using 1(1) by (simp_all add: main_ok_def)
  let ?s2 = "mfr.deliver E i d s"
  have e: "?s2 = main_move i (8 + length d) ?s1" by (simp add: mfr.deliver_def main_consume_def)
  have 2: "main_ok E r i ?s2" "refs ?s2 = refs s" "\<And>q. q \<in> refs s \<Longrightarrow> sv_stream q ?s2 = sv_stream q s @ relay_out E ?p q"
    using main_ok_move [OF 1(1)] recv_upd [OF m1(1,2), where h = "move_read_ptr_n (8 + length d)", unfolded m1(3)] 1(2)
    unfolding e by (simp_all add: sv_sent_def)
  show ?case using Cons.IH [OF 2(1)] 2 by simp
qed simp

text \<open>
  C35. Whatever complete packages a thread has written into its tunnel, each non-empty and parsable,
  followed by an incomplete one, the main thread relays every one of them, in order and exactly once, and keeps the incomplete
  rest.
\<close>

theorem main_relays_packages:
  assumes "main_ok E r i s" "main_buf i s = concat (map frame ds) @ tail" "incomplete (2 ^ 63) tail"
    "\<forall>d \<in> set ds. d \<noteq> [] \<and> parse_package E d \<noteq> None" "length (main_buf i s) < 2 ^ 63"
  shows "let s' = server_parse_loop (Suc (length (main_buf i s))) E i s
    in server_inv E s' \<and> main_buf i s' = tail \<and>
       (\<forall>q \<in> refs s. sv_stream q s' = sv_stream q s @ concat (map (\<lambda>d. relay_out E (the (parse_package E d)) q) ds))"
proof -
  have len: "length (concat (map frame ds)) < 2 ^ 63" using assms(2,5) by simp
  have "length d \<le> length (concat (map frame ds))" if "d \<in> set ds" for d using that by (induction ds) auto
  then have wf: "mfr.well_formed E ds" unfolding mfr.well_formed_def using assms(4) len by fastforce
  have "length ds \<le> length (concat (map frame ds))" by (induction ds) auto
  then have "length ds < Suc (length (main_buf i s))" using assms(2) by simp
  from mfr.drains [OF assms(1,2) wf assms(3) this assms(5)] deliver_streams [OF assms(1), of ds]
  show ?thesis by (simp add: Let_def main_ok_def)
qed

theorem main_relays_packages_witness:
  "main_buf 1 (server_parse_loop (Suc (length (frame (3 # the (c_ser_tunnel demo_relay)) @ [0]))) one_params 1
     (demo_server (frame (3 # the (c_ser_tunnel demo_relay)) @ [0]))) = [0]"
proof -
  let ?d = "3 # the (c_ser_tunnel demo_relay)"
  have "length ?d < 100" by code_simp
  then show ?thesis
    using main_relays_packages [OF demo_main_ok, of "frame ?d @ [0]" "[?d]" "[0]", simplified Let_def]
    by (simp add: demo_server_slots incomplete_def c_parse_package_def del: One_nat_def)
qed

section \<open>New clients\<close>

text \<open>
  C36. A new client is announced to exactly one worker, one with the fewest connections, whose count
  goes up by one; the client's id routes back to that worker; no other tunnel is touched and the
  descriptor is not closed.
\<close>

theorem new_client_announced:
  assumes "server_inv E s" "length (worker_nums s) \<le> 512"
  shows "\<exists>k < length (worker_nums s). let g = real_gid (fst (server_gen_gid src)) (of_nat k);
      s' = announce_client E (f, fst (server_gen_gid src)) s
    in (\<forall>v \<in> set (worker_nums s). worker_nums s ! k \<le> v) \<and> hash_gid_2_worker_tunnel_id g = get_worker_tunnel_id (int k) \<and>
       server_inv E s' \<and> worker_nums s' = (worker_nums s)[k := worker_nums s ! k + 1] \<and> sv_closed s' = sv_closed s \<and>
       (\<forall>q \<in> refs s. sv_stream q s' = sv_stream q s @
          (if q = Worker_tunnel k then relayed E PROTO_TUNNEL_ID_MAIN (int k) (new_client_package E f g) else []))"
proof -
  have l: "worker_nums s \<noteq> []" "m_worker_cnt (p_tunnels E) = int (length (worker_nums s))" using assms(1) by (auto simp: server_inv_def)
  obtain k where k: "k < length (worker_nums s)" "choose_worker (worker_nums s) = of_nat k" "\<forall>v \<in> set (worker_nums s). worker_nums s ! k \<le> v"
      "hash_gid_2_worker_tunnel_id (real_gid (fst (server_gen_gid src)) (choose_worker (worker_nums s))) = get_worker_tunnel_id (int k)"
    using least_loaded_routes [OF l(1) assms(2) l(2)] by blast
  have u: "unat (of_nat k :: u64) = k" using k(1) assms(2) by (simp add: unat_of_nat)
  note a = announce_ok(2) [OF assms(1), of f "fst (server_gen_gid src)", unfolded k(2) u]
  show ?thesis
    using k(1,3,4) a unfolding k(2) by (intro exI [of _ k]) (simp add: Let_def sv_sent_def sv_rest_def)
qed

theorem new_client_announced_witness:
  "let s' = announce_client one_params (11, fst (server_gen_gid \<lparr>m_gid_seq = 0, m_latest_tick_time = 100\<rparr>)) (demo_server [])
   in server_inv one_params s' \<and> worker_nums s' = [1] \<and> sv_closed s' = []"
proof -
  have "length (worker_nums (demo_server [])) \<le> 512" "worker_nums (demo_server []) = [0]" "sv_closed (demo_server []) = []"
    by (simp_all add: demo_server_def)
  then show ?thesis
    using new_client_announced [OF demo_server_inv, of "[]" "\<lparr>m_gid_seq = 0, m_latest_tick_time = 100\<rparr>" 11] by (auto simp: Let_def)
qed

end
