(* ===== verification/Delivery.thy ===== *)
theory Delivery
  imports Worker_Props
begin

text \<open>
  Messages from the other threads reach the clients they are for: what a worker does with a
  forward message that names its targets.
\<close>

section \<open>One client\<close>

text \<open>A connection that takes messages: open, announced, its queue not over the limit.\<close>

definition accepting :: "nat \<Rightarrow> 'x ctx_worker \<Rightarrow> bool" where
  "accepting i w \<longleftrightarrow> \<not> closed_flag (w_conn i w) \<and> \<not> is_close (w_conn i w) \<and> is_ready (w_conn i w) \<and>
     vsb_size (send_buffer (w_conn i w)) \<le> 1024000"

lemma marked_stream:
  assumes "ctx_live i w"
  shows "client_stream i (ctx_event_mod i RWE (set_conn_is_close i True w)) = client_stream i w"
proof -
  have l: "ctx_live i (set_conn_is_close i True w)" by (rule ctx_live_set_close [OF assms])
  have c: "w_conn i (set_conn_is_close i True w) = is_close_update (\<lambda>_. True) (w_conn i w)"
    using ctx_live_upd_id(2) [OF assms, of "is_close_update (\<lambda>_. True)"] by (simp add: same_id_def set_conn_is_close_def)
  show ?thesis using ctx_event_mod_live [OF l, of RWE] c by (simp add: client_stream_def)
qed

lemma handle_forward_effect:
  fixes E :: params and m :: client_forward_message
  assumes "ctx_live i w" "w_type w = STREAM_TASK"
  defines "w' \<equiv> handle_tunnel_client_forward_message (stream_task E) i m w"
  shows "ctx_run i w w'"
    "client_stream i w' = client_stream i w @ (if accepting i w then pack_package (ser_package E) (cf_inner m) else [])"
proof -
  let ?d = "pack_package (ser_package E) (cf_inner m)"
  obtain x where x: "ctx_ptr (w_conn i w) = Some x" using ctx_live_Some [OF assms(1)] by blast
  have e: "w' = (if closed_flag (w_conn i w) \<or> is_close (w_conn i w) \<or> \<not> is_ready (w_conn i w) then w
      else stream_on_client_forward_message E i m w)"
    using x assms(2) by (simp add: w'_def handle_tunnel_client_forward_message_def stream_task_def)
  show "ctx_run i w w'" using ctx_run_refl [OF assms(1)] stream_run_forward_message [OF assms(1)] unfolding e by simp
  have q: "client_stream i (snd (ctx_send_data i ?d True w)) = client_stream i w @ ?d"
    if "\<not> closed_flag (w_conn i w)" "\<not> is_close (w_conn i w)" "is_ready (w_conn i w)"
    using ctx_send_data_live [OF assms(1), of ?d True] that by (auto split: prod.splits)
  show "client_stream i w' = client_stream i w @ (if accepting i w then ?d else [])"
    unfolding e using q marked_stream [OF assms(1)]
    by (auto simp: accepting_def stream_on_client_forward_message_def stream_send_sync_package_def)
qed

section \<open>Many clients\<close>

definition forward_step :: "params \<Rightarrow> client_forward_message \<Rightarrow> u64 \<Rightarrow> stream_worker \<Rightarrow> stream_worker" where
  "forward_step E m g w =
     (if get_worker_tunnel_id (worker_idx w) \<noteq> hash_gid_2_worker_tunnel_id g then w
      else case get_conn_by_gid g (worker_connection_mgr w) of
             None \<Rightarrow> w
           | Some i \<Rightarrow> handle_tunnel_client_forward_message (stream_task E) i m w)"

definition client_of :: "nat \<Rightarrow> 'x ctx_worker \<Rightarrow> bool" where
  "client_of j w \<longleftrightarrow> j \<in> using_set (worker_connection_mgr w) \<and> tunnel_slot w \<noteq> Some j"

lemma client_of_live: "worker_ok w \<Longrightarrow> client_of j w \<Longrightarrow> ctx_live j w"
  using clients_okD(4) [of "{}" w j] by (simp add: client_of_def)

text \<open>The worker behind a step: the same clients, every one but the target as before.\<close>

definition same_clients :: "u64 set \<Rightarrow> stream_worker \<Rightarrow> stream_worker \<Rightarrow> bool" where
  "same_clients G w w' \<longleftrightarrow> worker_ok w' \<and> worker_idx w' = worker_idx w \<and> w_type w' = w_type w \<and>
     (\<forall>j. client_of j w' = client_of j w) \<and>
     (\<forall>j. client_of j w \<longrightarrow> gid (w_conn j w') = gid (w_conn j w) \<and> (gid (w_conn j w) \<notin> G \<longrightarrow> w_conn j w' = w_conn j w))"

lemma gid_slot:
  assumes "worker_ok w" "client_of j w"
  shows "get_conn_by_gid (gid (w_conn j w)) (worker_connection_mgr w) = Some j"
  using get_conn_facts(4) [OF clients_okD(2) [OF assms(1)] using_get_conn [OF clients_okD(2) [OF assms(1)]]] assms(2)
  by (simp add: client_of_def)

lemma forward_step_same:
  assumes "worker_ok w" "w_type w = STREAM_TASK"
  shows "same_clients {g} w (forward_step E m g w)"
proof (cases "get_worker_tunnel_id (worker_idx w) = hash_gid_2_worker_tunnel_id g \<and>
    (\<exists>i. get_conn_by_gid g (worker_connection_mgr w) = Some i \<and> ctx_ptr (w_conn i w) \<noteq> None)")
  case False
  then have "forward_step E m g w = w"
    using assms(2) by (auto simp: forward_step_def handle_tunnel_client_forward_message_def split: option.splits)
  then show ?thesis using assms(1) by (simp add: same_clients_def)
next
  case True
  then obtain i where i: "get_conn_by_gid g (worker_connection_mgr w) = Some i" "ctx_ptr (w_conn i w) \<noteq> None" by blast
  have u: "i \<in> using_set (worker_connection_mgr w)" by (rule stask.gid_using [OF assms(1) i(1)])
  have ts: "tunnel_slot w \<noteq> Some i" using clients_okD(3) [OF assms(1), of i] i(2) by auto
  have l: "ctx_live i w" using clients_okD(4) [OF assms(1) u] ts by simp
  let ?w' = "handle_tunnel_client_forward_message (stream_task E) i m w"
  have r: "ctx_run i w ?w'" by (rule handle_forward_effect(1) [OF l assms(2)])
  then have s: "same_rest i w ?w'" by (simp add: ctx_run_def)
  have e: "forward_step E m g w = ?w'" using True i(1) by (simp add: forward_step_def)
  have ok: "worker_ok ?w'" using good_run [OF assms(1) l r] by (simp add: good_def)
  have gi: "gid (w_conn i w) = g" using clients_okD(2) [OF assms(1)] i(1) by (auto simp: mgr_inv_def get_conn_by_gid_def conn_at_def)
  have c: "gid (w_conn j ?w') = gid (w_conn j w) \<and> (gid (w_conn j w) \<notin> {g} \<longrightarrow> w_conn j ?w' = w_conn j w)" if "tunnel_slot w \<noteq> Some j" for j
    using same_rest_id(2) [OF s] same_rest_conn(1) [OF s _ that] gi by (cases "j = i") simp_all
  have k: "worker_idx ?w' = worker_idx w" "w_type ?w' = w_type w" "client_of j ?w' = client_of j w" for j
    using s same_rest_id(5) [OF s] by (simp_all add: same_rest_def client_of_def)
  show ?thesis unfolding e same_clients_def using ok k c by (simp add: client_of_def)
qed

lemma forward_step_stream:
  assumes "worker_ok w" "w_type w = STREAM_TASK" "client_of j w" "gid (w_conn j w) = g"
  shows "client_stream j (forward_step E m g w) = client_stream j w @
    (if hash_gid_2_worker_tunnel_id g = get_worker_tunnel_id (worker_idx w) \<and> accepting j w then pack_package (ser_package E) (cf_inner m) else [])"
  using handle_forward_effect(2) [OF client_of_live [OF assms(1,3)] assms(2), of E m] gid_slot [OF assms(1,3)] assms(4)
  by (auto simp: forward_step_def)

lemma same_clients_trans:
  assumes "same_clients G w w'" "same_clients G' w' w''"
  shows "same_clients (G \<union> G') w w''"
  using assms by (simp add: same_clients_def)

lemma same_clients_conn:
  "same_clients G w w' \<Longrightarrow> client_of j w \<Longrightarrow> gid (w_conn j w) \<notin> G \<Longrightarrow> w_conn j w' = w_conn j w"
  by (simp add: same_clients_def)

lemma forward_steps:
  assumes "worker_ok w" "w_type w = STREAM_TASK" "distinct gs"
  shows "same_clients (set gs) w (fold (forward_step E m) gs w) \<and>
    (\<forall>j. client_of j w \<longrightarrow> client_stream j (fold (forward_step E m) gs w) = client_stream j w @
      (if gid (w_conn j w) \<in> set gs \<and> hash_gid_2_worker_tunnel_id (gid (w_conn j w)) = get_worker_tunnel_id (worker_idx w) \<and> accepting j w
       then pack_package (ser_package E) (cf_inner m) else []))"
  using assms
proof (induction gs arbitrary: w)
  case Nil
  then show ?case by (simp add: same_clients_def)
next
  case (Cons g gs)
  let ?w1 = "forward_step E m g w"
  have s: "same_clients {g} w ?w1" by (rule forward_step_same [OF Cons.prems(1,2)])
  then have 1: "worker_ok ?w1" "w_type ?w1 = STREAM_TASK" "worker_idx ?w1 = worker_idx w" "\<And>j. client_of j ?w1 = client_of j w"
    using Cons.prems(2) by (simp_all add: same_clients_def)
  have d: "distinct gs" "g \<notin> set gs" using Cons.prems(3) by simp_all
  note IH = Cons.IH [OF 1(1,2) d(1)]
  have "client_stream j (fold (forward_step E m) gs ?w1) = client_stream j w @
      (if gid (w_conn j w) \<in> set (g # gs) \<and> hash_gid_2_worker_tunnel_id (gid (w_conn j w)) = get_worker_tunnel_id (worker_idx w) \<and> accepting j w
       then pack_package (ser_package E) (cf_inner m) else [])" if j: "client_of j w" for j
  proof (cases "gid (w_conn j w) = g")
    case True
    then have "gid (w_conn j ?w1) = g" using s j by (simp add: same_clients_def)
    then have "client_stream j (fold (forward_step E m) gs ?w1) = client_stream j ?w1" using IH 1(4) j d(2) by simp
    then show ?thesis using forward_step_stream [OF Cons.prems(1,2) j True] True by simp
  next
    case False
    then have "w_conn j ?w1 = w_conn j w" using same_clients_conn [OF s j] by simp
    then show ?thesis using IH 1(3,4) j False by (simp add: client_stream_def accepting_def)
  qed
  then show ?case using same_clients_trans [OF s conjunct1 [OF IH]] by simp
qed

text \<open>A forward message that names its targets is that fold.\<close>

lemma process_forward:
  assumes "cmd p = PROTO_CMD_TUNNEL_PACKAGE" "parse_tunnel E (protocol p) = Some t" "cmd (tp_inner t) = PROTO_CMD_TUNNEL_CLIENT_FORWARD_MESSAGE"
    "proto_parse (parse_forward E) (tp_inner t) = Some m" "targetgid m \<noteq> []"
  shows "on_tunnel_process (stream_task E) E Os p w = fold (forward_step E m) (targetgid m) w"
proof -
  have f: "fold (\<lambda>g w. if get_worker_tunnel_id (worker_idx w) \<noteq> hash_gid_2_worker_tunnel_id g then w
      else case get_conn_by_gid g (worker_connection_mgr w) of None \<Rightarrow> w
         | Some i \<Rightarrow> handle_tunnel_client_forward_message (stream_task E) i m w) gs w = fold (forward_step E m) gs w" for gs
    by (intro fold_cong) (auto simp: forward_step_def fun_eq_iff)
  show ?thesis
    using assms by (simp add: on_tunnel_process_def numeral_2_eq_2 on_tunnel_process_with_def proto_cmds f)
qed

text \<open>
  C37. A forward message that names distinct targets (the sender collects them in a set) is queued, once and as one package, for every client
  of this worker that it names, that hashes to this worker and that takes messages; the byte
  stream of every other client stays as it was.
\<close>

theorem multicast_reaches_targets:
  assumes "worker_ok w" "w_type w = STREAM_TASK" "cmd p = PROTO_CMD_TUNNEL_PACKAGE" "parse_tunnel E (protocol p) = Some t"
    "cmd (tp_inner t) = PROTO_CMD_TUNNEL_CLIENT_FORWARD_MESSAGE" "proto_parse (parse_forward E) (tp_inner t) = Some m"
    "targetgid m \<noteq> []" "distinct (targetgid m)"
  shows "let w' = on_tunnel_process (stream_task E) E Os p w in worker_ok w' \<and>
    (\<forall>j. client_of j w \<longrightarrow> client_stream j w' = client_stream j w @
      (if gid (w_conn j w) \<in> set (targetgid m) \<and> hash_gid_2_worker_tunnel_id (gid (w_conn j w)) = get_worker_tunnel_id (worker_idx w) \<and> accepting j w
       then pack_package (ser_package E) (cf_inner m) else []))"
  unfolding process_forward [OF assms(3-7)] Let_def
  using forward_steps [OF assms(1,2,8), of E m] by (simp add: same_clients_def)

definition demo_forward :: client_forward_message where
  "demo_forward = \<lparr>sourcegid = 4096, targetgid = [4096], cf_inner = \<lparr>cmd = 7, protocol = [1]\<rparr>\<rparr>"

definition demo_forward_tunnel :: tunnel_package where
  "demo_forward_tunnel = \<lparr>sourcetunnelsid = - 1, targettunnelsid = [0], targetallworker = False,
     tp_inner = \<lparr>cmd = 4, protocol = the (c_ser_forward demo_forward)\<rparr>\<rparr>"

lemma demo_forward_facts:
  "c_parse_tunnel (the (c_ser_tunnel demo_forward_tunnel)) = Some demo_forward_tunnel"
  "c_parse_forward (the (c_ser_forward demo_forward)) = Some demo_forward"
proof -
  have "c_ser_tunnel demo_forward_tunnel \<noteq> None" by (simp add: c_ser_tunnel_def demo_forward_tunnel_def id_ok_def byte_ok_def)
  then show "c_parse_tunnel (the (c_ser_tunnel demo_forward_tunnel)) = Some demo_forward_tunnel" using codec_tunnel by (auto simp: round_trips_def)
  have "c_ser_forward demo_forward \<noteq> None" by (simp add: c_ser_forward_def demo_forward_def byte_ok_def)
  then show "c_parse_forward (the (c_ser_forward demo_forward)) = Some demo_forward" using codec_forward by (auto simp: round_trips_def)
qed

lemma demo_tunnel_client:
  "w_conn 1 (demo_tunnel x received rx) = w_conn 1 (demo_worker (Some x) [] [] [])" "w_type (demo_tunnel x received rx) = STREAM_TASK"
  "worker_idx (demo_tunnel x received rx) = 0" "using_set (worker_connection_mgr (demo_tunnel x received rx)) = {0, 1}"
  using demo_slots(1) [of "Some x" "[]" "[]" "[]"]
  by (simp_all add: demo_tunnel_def demo_timed_def) (simp_all add: demo_worker_def demo_mgr_def conn_at_def upd_wconn_def upd_conn_def)

lemma demo_tunnel_receiver:
  "client_of 1 (demo_tunnel demo_ctx received rx)" "gid (w_conn 1 (demo_tunnel demo_ctx received rx)) = 4096"
  "accepting 1 (demo_tunnel demo_ctx received rx)" "client_stream 1 (demo_tunnel demo_ctx received rx) = []"
proof -
  have "tunnel_slot (demo_tunnel demo_ctx received rx) = Some 0" using demo_tunnel_ok(3) [of demo_ctx received rx] by simp
  then show "client_of 1 (demo_tunnel demo_ctx received rx)" "gid (w_conn 1 (demo_tunnel demo_ctx received rx)) = 4096"
    "accepting 1 (demo_tunnel demo_ctx received rx)" "client_stream 1 (demo_tunnel demo_ctx received rx) = []"
    unfolding client_of_def accepting_def client_stream_def demo_tunnel_client
    by (simp_all add: demo_worker_def demo_mgr_def conn_at_def on_alloc_def connection_new_def socket_new_def)
qed

theorem multicast_reaches_targets_witness:
  "client_stream 1 (on_tunnel_process (stream_task codec_params) codec_params demo_os
     \<lparr>cmd = 3, protocol = the (c_ser_tunnel demo_forward_tunnel)\<rparr> (demo_tunnel demo_ctx [] [])) = frame [7, 1]"
proof -
  let ?w = "demo_tunnel demo_ctx [] []"
  have ok: "worker_ok ?w" "tunnel_slot ?w = Some 0" using demo_tunnel_ok [of demo_ctx "[]" "[]"] by simp_all
  have c: "client_of 1 ?w" "gid (w_conn 1 ?w) = 4096" "accepting 1 ?w" "client_stream 1 ?w = []" by (rule demo_tunnel_receiver)+
  have h: "hash_gid_2_worker_tunnel_id 4096 = get_worker_tunnel_id (worker_idx ?w)"
    unfolding demo_tunnel_client by (simp add: hash_gid_2_worker_tunnel_id_def)
  have s: "c_ser_package \<lparr>cmd = 7, protocol = [1]\<rparr> = Some [7, 1]" by (simp add: c_ser_package_def byte_ok_def)
  note m = multicast_reaches_targets [OF ok(1) demo_tunnel_client(2), of "\<lparr>cmd = 3, protocol = the (c_ser_tunnel demo_forward_tunnel)\<rparr>" codec_params
      demo_forward_tunnel demo_forward demo_os, unfolded Let_def]
  have "client_stream 1 (on_tunnel_process (stream_task codec_params) codec_params demo_os
     \<lparr>cmd = 3, protocol = the (c_ser_tunnel demo_forward_tunnel)\<rparr> ?w) = client_stream 1 ?w @
       (if gid (w_conn 1 ?w) \<in> set (targetgid demo_forward) \<and> hash_gid_2_worker_tunnel_id (gid (w_conn 1 ?w)) = get_worker_tunnel_id (worker_idx ?w) \<and> accepting 1 ?w
        then pack_package (ser_package codec_params) (cf_inner demo_forward) else [])"
    by (rule mp [OF spec [OF conjunct2 [OF m]] c(1)])
      (simp_all add: demo_forward_facts proto_cmds proto_parse_def, simp_all add: demo_forward_tunnel_def demo_forward_facts [unfolded demo_forward_def] demo_forward_def)
  then show ?thesis
    using c h s pack_package_frame(1) [of c_ser_package "\<lparr>cmd = 7, protocol = [1]\<rparr>"] by (simp add: demo_forward_def del: One_nat_def)
qed

end
