(* ===== verification/Threads.thy ===== *)
theory Threads
  imports Main_Props Delivery
begin

text \<open>
  What one package does on its way from one thread to another: how it is encoded, and what the
  reader of a tunnel does when exactly this package has arrived.
\<close>

section \<open>Encoded messages\<close>

text \<open>The generated code accepts the message and the package around it has the body \<open>d\<close>.\<close>

definition packs :: "params \<Rightarrow> tunnel_package \<Rightarrow> bytes \<Rightarrow> bool" where
  "packs E t d \<longleftrightarrow> d \<noteq> [] \<and> length d < 2 ^ 62 \<and>
     (case ser_tunnel E t of None \<Rightarrow> False | Some b \<Rightarrow> ser_package E \<lparr>cmd = PROTO_CMD_TUNNEL_PACKAGE, protocol = b\<rparr> = Some d)"

lemma packs_bytes:
  assumes "packs E t d"
  shows "pack_package_msg (ser_package E) (ser_tunnel E) t PROTO_CMD_TUNNEL_PACKAGE = frame d"
  using assms by (auto simp: packs_def pack_package_msg_def frame_def split: option.splits)

lemma packs_parse:
  assumes "packs E t d" "env_ok E" "round_trips (ser_package E) (parse_package E)"
  obtains p where "parse_package E d = Some p" "cmd p = PROTO_CMD_TUNNEL_PACKAGE" "parse_tunnel E (protocol p) = Some t"
  using assms by (auto simp: packs_def env_ok_def round_trips_def split: option.splits)

lemma relayed_frame:
  "packs E \<lparr>sourcetunnelsid = src, targettunnelsid = [dest], targetallworker = False, tp_inner = msg\<rparr> d \<Longrightarrow> relayed E src dest msg = frame d"
  unfolding relayed_def by (rule packs_bytes)

lemma order_single: "env_ok E \<Longrightarrow> p_int_order E {b} = [b]"
proof -
  assume "env_ok E"
  then have "set (p_int_order E {b}) = {b}" "distinct (p_int_order E {b})" by (simp_all add: env_ok_def)
  then show "p_int_order E {b} = [b]" by (cases "p_int_order E {b}"; cases "tl (p_int_order E {b})") auto
qed

section \<open>A worker reads one package\<close>

declare tunnel_parse_loop.simps [simp del]

lemma worker_reads:
  fixes Os :: "u64 \<Rightarrow> os_client"
  assumes "tunnel_ok E tf i w" "tunnel_buf i w = frame d" "d \<noteq> []" "length d < 2 ^ 62" "parse_package E d = Some p" "announces E p \<noteq> Some tf"
  defines "w' \<equiv> tunnel_parse_loop (Suc (length (tunnel_buf i w))) (stream_task E) E Os i w"
  shows "w' = tunnel_move i (8 + length d) (on_tunnel_process (stream_task E) E Os p w)" "tunnel_ok E tf i w'" "tunnel_buf i w' = []"
    "tunnel_ok E tf i (on_tunnel_process (stream_task E) E Os p w)"
proof -
  have p: "tunnel_parse E tf d = Some p" using assms(5,6) by (simp add: tunnel_parse_def)
  have wf: "stask.tfr.well_formed E tf [d]" unfolding stask.tfr.well_formed_def using assms(3,4) p by auto
  have b: "tunnel_buf i w = concat (map frame [d]) @ []" "length (tunnel_buf i w) < 2 ^ 63" using assms(2,4) by simp_all
  note dr = stask.tfr.drains [OF assms(1) b(1) wf incomplete_Nil _ b(2), of "Suc (length (tunnel_buf i w))" E Os, folded w'_def]
  show "w' = tunnel_move i (8 + length d) (on_tunnel_process (stream_task E) E Os p w)" "tunnel_ok E tf i w'" "tunnel_buf i w' = []"
    using dr b(1) p by (simp_all add: stask.tfr.deliver_def tunnel_consume_def)
  have ok: "env_ok E" "worker_ok w" "tunnel_fd w = Some tf" "tunnel_slot w = Some i" using assms(1) by (simp_all add: tunnel_ok_def)
  have "good w (on_tunnel_process (stream_task E) E Os p w)" by (rule stask.good_process [OF ok(1,2)]) (use ok(3) assms(6) in simp)
  then show "tunnel_ok E tf i (on_tunnel_process (stream_task E) E Os p w)"
    using ok tunnel_in_fd [of "on_tunnel_process (stream_task E) E Os p w" w] by (simp add: tunnel_ok_def good_def tunnel_kept_def)
qed

text \<open>Taking bytes off the tunnel's queue leaves the clients alone.\<close>

lemma move_clients:
  assumes "tunnel_ok E tf i w" "j \<noteq> i"
  shows "w_conn j (tunnel_move i n w) = w_conn j w" "get_conn f (worker_connection_mgr (tunnel_move i n w)) = get_conn f (worker_connection_mgr w)"
    "get_conn_by_gid g (worker_connection_mgr (tunnel_move i n w)) = get_conn_by_gid g (worker_connection_mgr w)"
    "client_stream j (tunnel_move i n w) = client_stream j w"
proof -
  have i: "i \<in> using_set (worker_connection_mgr w)" "mgr_inv (worker_connection_mgr w)"
    using assms(1) clients_okD(2) [of "{}" w] get_conn_facts(1) [of "worker_connection_mgr w"] 
    by (auto simp: tunnel_ok_def tunnel_slot_def tunnel_fd_def split: option.splits)
  show c: "w_conn j (tunnel_move i n w) = w_conn j w" using conn_at_upd [OF i(2,1)] assms(2) by (simp add: upd_wconn_def)
  show "get_conn f (worker_connection_mgr (tunnel_move i n w)) = get_conn f (worker_connection_mgr w)"
    "get_conn_by_gid g (worker_connection_mgr (tunnel_move i n w)) = get_conn_by_gid g (worker_connection_mgr w)"
    by (simp_all add: upd_wconn_def get_conn_by_gid_def)
  show "client_stream j (tunnel_move i n w) = client_stream j w" using c by (simp add: client_stream_def)
qed

text \<open>When the pool and the poller take a new descriptor.\<close>

lemma pool_has_room:
  assumes "mgr_inv m" "get_conn f m = None" "get_conn_by_gid g m = None" "unused_set m \<noteq> {}"
  shows "fst (alloc_connection pick f g m) = 0"
proof -
  obtain pool where m: "connection_pool m = Some pool" "\<forall>f g. fd2gid m f = Some g \<longleftrightarrow> gid2fd m g = Some f" "dom (gid2index m) = dom (gid2fd m)"
    using assms(1) unfolding mgr_inv_def by blast
  have "gid2index m g = None" using assms(3) m(1) by (auto simp: get_conn_by_gid_def split: option.splits)
  moreover from this have "gid2fd m g = None" using m(3) by (metis domIff)
  moreover have "fd2gid m f = None"
  proof (rule ccontr)
    assume "fd2gid m f \<noteq> None"
    then obtain h where h: "fd2gid m f = Some h" by blast
    then have "gid2index m h \<noteq> None" using m(2,3) by (metis domIff option.discI)
    then show False using h m(1) assms(2) by (auto simp: get_conn_def split: option.splits)
  qed
  ultimately show ?thesis using m(1) assms(4) by (simp add: alloc_connection_def Let_def)
qed

lemma poller_has_room:
  assumes "worker_inv w" "get_conn f (worker_connection_mgr w) = None" "k_verdicts (epoller w) = [] \<or> hd (k_verdicts (epoller w))"
  shows "fst (poller_add f RWE False (epoller w)) = 0"
proof -
  have "k_interest (epoller w) f = None" "poller_inv (epoller w)" "m_epfd (epoller w) \<ge> 0" using assms(1,2) by (auto simp: worker_inv_def)
  then show ?thesis
    using assms(3) by (auto simp: poller_add_def poller_ctrl_def epoll_ctl_def poller_inv_def Let_def split: list.splits)
qed

text \<open>An announcement makes the client known under its descriptor and its id, and live.\<close>

lemma worker_serves:
  assumes "tunnel_ok E tf i w" "round_trips (ser_package E) (parse_package E)" "round_trips (ser_new_client E) (parse_new_client E)"
    "ser_new_client E \<lparr>nc_fd = f, nc_gid = g\<rparr> = Some c"
    "packs E t d" "tp_inner t = \<lparr>cmd = PROTO_CMD_TUNNEL_MAIN2WORKER_NEW_CLIENT, protocol = c\<rparr>" "tunnel_buf i w = frame d"
    "w_type w = STREAM_TASK" "0 \<le> f" "\<not> p_use_ssl E" "oc_memory (Os g)"
    "get_conn f (worker_connection_mgr w) = None" "get_conn_by_gid g (worker_connection_mgr w) = None"
    "unused_set (worker_connection_mgr w) \<noteq> {}" "k_verdicts (epoller w) = [] \<or> hd (k_verdicts (epoller w))"
  shows "\<exists>j. let w' = tunnel_parse_loop (Suc (length (tunnel_buf i w))) (stream_task E) E Os i w
    in tunnel_ok E tf i w' \<and> tunnel_buf i w' = [] \<and>
       get_conn f (worker_connection_mgr w') = Some j \<and> get_conn_by_gid g (worker_connection_mgr w') = Some j \<and> ctx_live j w'"
proof -
  let ?v = "on_new_client_fd (stream_task E) E Os f g w" and ?w' = "tunnel_parse_loop (Suc (length (tunnel_buf i w))) (stream_task E) E Os i w"
  have ok: "env_ok E" "worker_ok w" "tunnel_fd w = Some tf" "tunnel_slot w = Some i" using assms(1) by (simp_all add: tunnel_ok_def)
  obtain p where p: "parse_package E d = Some p" "cmd p = PROTO_CMD_TUNNEL_PACKAGE" "parse_tunnel E (protocol p) = Some t"
    by (rule packs_parse [OF assms(5) ok(1) assms(2)])
  have ntf: "f \<noteq> tf" using ok(3,4) assms(12) by (auto simp: tunnel_slot_def)
  have inv: "worker_inv w" by (rule clients_okD(1) [OF ok(2)])
  note room = pool_has_room [OF worker_invD(1) [OF inv] assms(12-14), of "p_pick E"] poller_has_room [OF inv assms(12,15)]
  have nc: "parse_new_client E c = Some \<lparr>nc_fd = f, nc_gid = g\<rparr>" using assms(3,4) by (simp add: round_trips_def)
  have a: "announces E p \<noteq> Some tf" using p nc assms(6) ntf by (simp add: announces_def proto_parse_def)
  have d: "d \<noteq> []" "length d < 2 ^ 62" using assms(5) by (simp_all add: packs_def)
  have e: "on_tunnel_process (stream_task E) E Os p w = ?v"
    unfolding on_tunnel_process_def numeral_2_eq_2 on_tunnel_process_depth.simps on_tunnel_process_with_def
    using p nc assms(6) by (simp add: proto_parse_def)
  note r = worker_reads [OF assms(1,7) d p(1) a, of Os, unfolded e]
  have pre: "picks (p_pick E)" "tunnel_fd w \<noteq> Some f" "w_type w \<noteq> NONE" using ok(1,3) assms(8) ntf by (auto simp: env_ok_def)
  obtain j where j: "get_conn f (worker_connection_mgr ?v) = Some j" "ctx_live j ?v" "gid (w_conn j ?v) = g"
    using stask.new_client_live [where E = E and Os = Os and f = f and g = g, OF ok(2) pre(1,2) assms(9,10) pre(3) assms(11) room] by blast
  have mv: "mgr_inv (worker_connection_mgr ?v)" by (rule worker_invD(1) [OF ctx_live_facts(1) [OF j(2)]])
  have gc: "get_conn f (worker_connection_mgr ?w') = Some j" "get_conn_by_gid g (worker_connection_mgr ?w') = Some j"
    unfolding r(1) using j(1) get_conn_facts(4) [OF mv j(1)] j(3) by (simp_all add: upd_wconn_def get_conn_by_gid_def)
  have ok': "worker_ok ?w'" "tunnel_fd ?w' = Some tf" "tunnel_slot ?w' = Some i" using r(2) by (simp_all add: tunnel_ok_def)
  have ts: "get_conn tf (worker_connection_mgr ?w') = Some i" using ok'(2,3) by (auto simp: tunnel_slot_def tunnel_fd_def split: option.splits)
  note m = clients_okD(2) [OF ok'(1)]
  have "j \<noteq> i" using get_conn_facts(2) [OF m gc(1)] get_conn_facts(2) [OF m ts] ntf by auto
  then have "ctx_live j ?w'" using clients_okD(4) [OF ok'(1) get_conn_facts(1) [OF m gc(1)]] ok'(3) by simp
  then show ?thesis using r(2,3) gc unfolding Let_def by blast
qed

section \<open>The main thread reads one package\<close>

lemma main_reads:
  assumes "main_ok E r i s" "main_buf i s = frame d" "d \<noteq> []" "length d < 2 ^ 62" "parse_package E d = Some p"
  defines "s' \<equiv> server_parse_loop (Suc (length (main_buf i s))) E i s"
  shows "server_inv E s'" "main_buf i s' = []" "q \<in> refs s \<Longrightarrow> sv_stream q s' = sv_stream q s @ relay_out E p q"
proof -
  have wf: "mfr.well_formed E [d]" unfolding mfr.well_formed_def using assms(3,4,5) by auto
  have b: "main_buf i s = concat (map frame [d]) @ []" "length (main_buf i s) < 2 ^ 63" using assms(2,4) by simp_all
  have k: "length [d] < Suc (length (main_buf i s))" using assms(2) by simp
  note dr = mfr.drains [OF assms(1) b(1) wf incomplete_Nil k b(2), folded s'_def] deliver_streams [OF assms(1), of "[d]"]
  then show "server_inv E s'" "main_buf i s' = []" "q \<in> refs s \<Longrightarrow> sv_stream q s' = sv_stream q s @ relay_out E p q"
    using assms(5) by (auto simp: main_ok_def)
qed

text \<open>A package from a worker for one worker goes into the tunnel of that worker and into no other.\<close>

lemma main_relays_one:
  assumes "main_ok E r i s" "round_trips (ser_package E) (parse_package E)" "main_buf i s = frame d"
    "packs E \<lparr>sourcetunnelsid = a, targettunnelsid = [b], targetallworker = False, tp_inner = msg\<rparr> d"
    "is_worker_tunnel_id (p_tunnels E) a" "is_worker_tunnel_id (p_tunnels E) b"
  defines "s' \<equiv> server_parse_loop (Suc (length (main_buf i s))) E i s"
  shows "server_inv E s'" "main_buf i s' = []" "\<forall>q \<in> refs s. sv_stream q s' = sv_stream q s @ (if q = Worker_tunnel (nat b) then frame d else [])"
proof -
  let ?t = "\<lparr>sourcetunnelsid = a, targettunnelsid = [b], targetallworker = False, tp_inner = msg\<rparr>"
  have ok: "env_ok E" "server_inv E s" using assms(1) by (simp_all add: main_ok_def)
  obtain p where p: "parse_package E d = Some p" "cmd p = PROTO_CMD_TUNNEL_PACKAGE" "parse_tunnel E (protocol p) = Some ?t"
    by (rule packs_parse [OF assms(4) ok(1) assms(2)])
  have d: "d \<noteq> []" "length d < 2 ^ 62" using assms(4) by (simp_all add: packs_def)
  note r = main_reads [OF assms(1,3) d p(1), folded s'_def]
  show "server_inv E s'" "main_buf i s' = []" by (rule r(1), rule r(2))
  have D: "relay_targets E ?t = Some {b}"
    using assms(5,6) by (auto simp: relay_targets_def is_worker_tunnel_id_def PROTO_TUNNEL_ID_OTHER_def PROTO_TUNNEL_ID_MAIN_def PROTO_TUNNEL_WORKER_MIN_def)
  have "p_int_order E {b} = [b]" by (rule order_single [OF ok(1)])
  then have "relay_out E p q = (if q = tref b then relayed E a b msg else [])" for q
    using p(2,3) D by (simp add: relay_out_def)
  moreover have "tref b = Worker_tunnel (nat b)" using worker_ids(3) [OF ok(2) assms(6)] by (simp add: tref_def)
  ultimately show "\<forall>q \<in> refs s. sv_stream q s' = sv_stream q s @ (if q = Worker_tunnel (nat b) then frame d else [])"
    using r(3) relayed_frame [OF assms(4)] by simp
qed

text \<open>What the announcement of a client adds to the tunnel.\<close>

lemma announce_bytes:
  assumes "server_inv E s" "k = unat (choose_worker (worker_nums s))" "g = real_gid h (choose_worker (worker_nums s))"
    "ser_new_client E \<lparr>nc_fd = f, nc_gid = g\<rparr> = Some c"
    "packs E \<lparr>sourcetunnelsid = PROTO_TUNNEL_ID_MAIN, targettunnelsid = [int k], targetallworker = False,
       tp_inner = \<lparr>cmd = PROTO_CMD_TUNNEL_MAIN2WORKER_NEW_CLIENT, protocol = c\<rparr>\<rparr> d"
  shows "sv_stream (Worker_tunnel k) (announce_client E (f, h) s) = sv_stream (Worker_tunnel k) s @ frame d"
proof -
  have n: "new_client_package E f g = \<lparr>cmd = PROTO_CMD_TUNNEL_MAIN2WORKER_NEW_CLIENT, protocol = c\<rparr>"
    using assms(4) by (simp add: new_client_package_def pack_package_into_def package_default_def)
  have "Worker_tunnel k \<in> refs s" using announce_ok(1) [OF assms(1)] assms(2) by (simp add: refs_def)
  then have "sv_stream (Worker_tunnel k) (announce_client E (f, h) s) =
      sv_stream (Worker_tunnel k) s @ relayed E PROTO_TUNNEL_ID_MAIN (int k) (new_client_package E f g)"
    using announce_ok(2) [OF assms(1), of f h] unfolding assms(2,3) by (simp add: sv_sent_def)
  then show ?thesis using relayed_frame [OF assms(5)] n by simp
qed

section \<open>A worker sends one package\<close>

lemma worker_sends_one:
  assumes "env_ok E" "worker_inv w" "is_worker_tunnel_id (p_tunnels E) b"
    "packs E \<lparr>sourcetunnelsid = get_worker_tunnel_id (worker_idx w), targettunnelsid = [b], targetallworker = False, tp_inner = msg\<rparr> d"
  shows "tunnel_stream (snd (tunnel_forward E [b] msg flush w)) = tunnel_stream w @ frame d"
proof -
  have f: "forward_filter E [b] = [b]"
    using assms(3) by (auto simp: forward_filter_def is_worker_tunnel_id_def is_tunnel_id_def PROTO_TUNNEL_WORKER_MIN_def PROTO_TUNNEL_ID_MAIN_def)
  show ?thesis using tunnel_forward_ok(4) [OF assms(2), of E "[b]" msg flush] f packs_bytes [OF assms(4)] order_single [OF assms(1)] by simp
qed

text \<open>A worker hands a message for one client to that client.\<close>

lemma worker_hands_over:
  assumes "tunnel_ok E tf i w" "round_trips (ser_package E) (parse_package E)" "round_trips (ser_forward E) (parse_forward E)"
    "ser_forward E m = Some fb" "targetgid m = [g]" "packs E t d" "tp_inner t = \<lparr>cmd = PROTO_CMD_TUNNEL_CLIENT_FORWARD_MESSAGE, protocol = fb\<rparr>"
    "tunnel_buf i w = frame d" "w_type w = STREAM_TASK"
  shows "let w' = tunnel_parse_loop (Suc (length (tunnel_buf i w))) (stream_task E) E Os i w in tunnel_ok E tf i w' \<and> tunnel_buf i w' = [] \<and>
    (\<forall>j. client_of j w \<longrightarrow> client_stream j w' = client_stream j w @
      (if gid (w_conn j w) = g \<and> hash_gid_2_worker_tunnel_id g = get_worker_tunnel_id (worker_idx w) \<and> accepting j w
       then pack_package (ser_package E) (cf_inner m) else []))"
proof -
  let ?v = "fold (forward_step E m) (targetgid m) w"
  have ok: "env_ok E" "worker_ok w" "tunnel_slot w = Some i" using assms(1) by (simp_all add: tunnel_ok_def)
  obtain p where p: "parse_package E d = Some p" "cmd p = PROTO_CMD_TUNNEL_PACKAGE" "parse_tunnel E (protocol p) = Some t"
    by (rule packs_parse [OF assms(6) ok(1) assms(2)])
  have m: "proto_parse (parse_forward E) (tp_inner t) = Some m" using assms(3,4,7) by (simp add: round_trips_def proto_parse_def)
  have c: "cmd (tp_inner t) = PROTO_CMD_TUNNEL_CLIENT_FORWARD_MESSAGE" "targetgid m \<noteq> []" "distinct (targetgid m)" using assms(5,7) by simp_all
  have a: "announces E p \<noteq> Some tf" using p c(1) by (simp add: announces_def proto_cmds)
  have d: "d \<noteq> []" "length d < 2 ^ 62" using assms(6) by (simp_all add: packs_def)
  note r = worker_reads [OF assms(1,8) d p(1) a, of Os, unfolded process_forward [OF p(2,3) c(1) m c(2)]]
  note st = forward_steps [OF ok(2) assms(9) c(3), of E m]
  have "client_stream j (tunnel_move i (8 + length d) ?v) = client_stream j ?v" if "client_of j w" for j
  proof -
    have "j \<noteq> i" using that ok(3) by (auto simp: client_of_def)
    then show ?thesis by (rule move_clients(4) [OF r(4)])
  qed
  then show ?thesis unfolding Let_def r(1) using r(2,3) [unfolded r(1)] st assms(5) by auto
qed

section \<open>A concrete package\<close>

definition demo_hop :: "int \<Rightarrow> int \<Rightarrow> proto_package \<Rightarrow> bytes" where
  "demo_hop a b msg = 3 # of_int a # 1 # of_int b # 0 # of_int (cmd msg) # protocol msg"

lemma demo_hop_packs:
  assumes "id_ok a" "id_ok b" "byte_ok (cmd msg)" "length (protocol msg) < 1000"
  shows "packs one_params \<lparr>sourcetunnelsid = a, targettunnelsid = [b], targetallworker = False, tp_inner = msg\<rparr> (demo_hop a b msg)"
  using assms by (simp add: packs_def demo_hop_def c_ser_tunnel_def c_ser_package_def proto_cmds byte_ok_def)

lemma one_round_trips:
  "round_trips (ser_package one_params) (parse_package one_params)" "round_trips (ser_new_client one_params) (parse_new_client one_params)"
  "round_trips (ser_forward one_params) (parse_forward one_params)"
  using codec_package codec_new_client codec_forward by simp_all

lemma one_tunnel_ok:
  "tunnel_ok one_params 5 0 (demo_tunnel demo_ctx received rx)" "tunnel_buf 0 (demo_tunnel demo_ctx received rx) = received"
  using demo_tunnel_ok [of demo_ctx received rx] one_env_ok by (simp_all add: tunnel_ok_def tunnel_buf_def)

text \<open>The pool and the poller of the worker take a client behind descriptor 11.\<close>

lemma demo_tunnel_free:
  assumes "g \<noteq> 1" "g \<noteq> 4096"
  shows "get_conn 11 (worker_connection_mgr (demo_tunnel demo_ctx received rx)) = None"
    "get_conn_by_gid g (worker_connection_mgr (demo_tunnel demo_ctx received rx)) = None"
    "unused_set (worker_connection_mgr (demo_tunnel demo_ctx received rx)) \<noteq> {}"
    "k_verdicts (epoller (demo_tunnel demo_ctx received rx)) = [] \<or> hd (k_verdicts (epoller (demo_tunnel demo_ctx received rx)))"
  using assms
  by (simp_all add: demo_tunnel_def demo_timed_def upd_wconn_def)
    (simp_all add: demo_worker_def demo_mgr_def upd_conn_def get_conn_def get_conn_by_gid_def poller_new_def)

lemma demo_choice: "choose_worker (worker_nums (demo_server received)) = 0" "length (worker_nums (demo_server received)) \<le> 512"
  by (simp_all add: demo_server_def choose_worker_def)

end
