(* ===== verification/Spec2Isabelle.thy ===== *)
theory Spec2Isabelle
  imports
    Prelude
    Timer
    Tunnel_Id
    Proto_Util
    Event_Poller
    Connection_Mgr
    Stream_Ctx
    Base64
    Sha1
    Ws_Frame
    Websocket_Ctx
    Worker_Props
    Threads
begin

text \<open>
  Verification of avant, a server that speaks length-prefixed protobuf packages or websockets to
  its clients. One main thread accepts clients and relays messages, some worker threads serve the
  clients, and one other thread runs the scripts. The threads exchange messages over socket pairs,
  the tunnels. Paths below are relative to the \<^verbatim>\<open>src\<close> directory of the
  repository; those that begin with \<^verbatim>\<open>external\<close> or \<^verbatim>\<open>protocol\<close> to its root.

  \<^bold>\<open>Parts and theories\<close>

  \<^item> \<open>Prelude\<close>: words, bytes, lists, maps and the collections of facts that all theories share.
  \<^item> \<open>Vec_Str_Buffer\<close> (\<^verbatim>\<open>utility/vec_str_buffer.cpp\<close>): the byte queue of a connection. The locale
    \<open>byte_fifo\<close> states the contract of a queue, which the buffer meets.
  \<^item> \<open>Proto_Util\<close>, \<open>Messages\<close>, \<open>Framing\<close> (\<^verbatim>\<open>proto/proto_util.cpp\<close>, \<^verbatim>\<open>protocol/*.proto\<close>): the
    eight-byte length prefix, the messages as records, and the locale \<open>framed_reader\<close>: what every
    loop that cuts a buffer into packages does. Three loops of the program interpret it: the stream
    clients, the tunnel of a worker, and the tunnels of the main thread.
  \<^item> \<open>Tunnel_Id\<close> (\<^verbatim>\<open>global/tunnel_id.cpp\<close>, \<^verbatim>\<open>server/server.cpp\<close>): tunnel numbers, the global
    ids of connections and the choice of a worker.
  \<^item> \<open>Timer\<close> (\<^verbatim>\<open>external/avant-timer\<close>): timers, the ordered queue with its index, one pass over the
    due timers. The locale \<open>timer_store\<close> is the contract of the store.
  \<^item> \<open>Event_Poller\<close> (\<^verbatim>\<open>event/event_poller.cpp\<close>): the cache of registrations over the table of the
    kernel.
  \<^item> \<open>Socket\<close>, \<open>Connection\<close>, \<open>Connection_Mgr\<close> (\<^verbatim>\<open>socket/socket.cpp\<close>, \<^verbatim>\<open>connection/connection.cpp\<close>,
    \<^verbatim>\<open>connection/connection_mgr.cpp\<close>): a socket and its TLS session, a pooled connection, the pool
    with its three maps. The locale \<open>conn_registry\<close> is a bounded one-to-one registry, which the
    pool refines.
  \<^item> \<open>Base64\<close>, \<open>Sha1\<close>, \<open>Ws_Frame\<close> (\<^verbatim>\<open>utility/base64.cpp\<close>, \<^verbatim>\<open>utility/sha1.h\<close>,
    \<^verbatim>\<open>app/websocket_app.cpp\<close>): coding, digest and the frames of RFC 6455, each against a reference
    definition of its standard.
  \<^item> \<open>Worker\<close>, \<open>Worker_Loop\<close> (\<^verbatim>\<open>workers/worker.cpp\<close>): the worker thread. \<open>Worker\<close> has its state,
    the writing side of its tunnel and the closing of clients; \<open>Worker_Loop\<close> has the messages it
    receives, new clients, timeouts and the event loop.
  \<^item> \<open>Client_Ctx\<close>, \<open>Client_Frame\<close>, \<open>Stream_Ctx\<close>, \<open>Websocket_Ctx\<close> (\<^verbatim>\<open>connection/stream_ctx.cpp\<close>,
    \<^verbatim>\<open>connection/websocket_ctx.cpp\<close>, \<^verbatim>\<open>app/stream_app.cpp\<close>, \<^verbatim>\<open>app/websocket_app.cpp\<close>): the two
    protocols of a client. What they share (sending, flushing, closing) is in \<open>Client_Ctx\<close>;
    \<open>Client_Frame\<close> says what an operation on one client leaves alone.
  \<^item> \<open>Worker_Inv\<close>, \<open>Worker_Safe\<close>, \<open>Worker_Timeouts\<close>, \<open>Worker_Run\<close>: the locale \<open>client_task\<close> states
    what the worker relies on from the protocol it serves, and the safety of the loop is proved once
    inside it. \<open>Tasks\<close> interprets it on both protocols and follows the life of a stream client;
    \<open>Worker_Props\<close> and \<open>Delivery\<close> state the results.
  \<^item> \<open>Server\<close>, \<open>Server_Props\<close>, \<open>Server_Run\<close>, \<open>Main_Props\<close> (\<^verbatim>\<open>server/server.cpp\<close>): the main thread,
    its invariant, and what it announces and relays.
  \<^item> \<open>Threads\<close>: what one package does on its way through the tunnels; the theorems of this theory
    compose it.
  \<^item> \<open>Codec\<close>: a concrete encoding of the messages. It stands for no code; it shows that the
    hypotheses on the generated protobuf code can hold, and the examples use it.

  \<^bold>\<open>How the state corresponds to the code\<close>

  Classes are records with the members of the source. A pointer to a pooled connection is the number
  of its slot in the pool. Sequences of bytes are lists of 8-bit words; lengths and ids that can wrap
  are 64- or 32-bit words. Errors are the return codes of the source, exceptions are values of a sum
  or option type. The kernel and OpenSSL are scripts in the socket and in the poller: what the next
  calls of \<^verbatim>\<open>recv\<close>, \<^verbatim>\<open>send\<close>, \<^verbatim>\<open>SSL_accept\<close>, \<^verbatim>\<open>accept\<close> and \<^verbatim>\<open>epoll_ctl\<close> answer. The theorems hold
  for every script. The generated protobuf code, the order in which a hash set is enumerated and the
  configuration are fields of the record \<open>params\<close>; the HTTP parser llhttp is an argument of the
  websocket definitions that only says which callbacks it makes. What the theorems need of the
  generated code is that parsing undoes serialising (\<open>round_trips\<close>) and that a message without a
  cmd field has cmd zero (\<open>env_ok\<close>).

  \<^bold>\<open>What is shown\<close>

  \<^item> Data structures: the connection pool, the timer manager and the poller refine simple tables, with
    their return codes; the byte queue is a queue; a timer pass ends and fires exactly the due timers.
  \<^item> Coding: base 64 and SHA-1 compute what their standards define, decoding undoes encoding, frames
    of RFC 6455 are read and written within bounds and never before they are complete.
  \<^item> Protocols: however the bytes of a client are split, every package or websocket message reaches
    the application once and in order; the websocket handshake answers with the accept key of the
    standard; an event leaves a client live or removes it from every table and closes it once; the
    scripts hear of a stream client's opening, its packages and its closing, in this order, and of
    the closing exactly when they heard of the opening.
  \<^item> Threads: the loops of the workers and of the main thread end for every list of poller answers
    and keep all tables consistent; overdue clients are closed; a message between threads reaches
    exactly its targets; a new client is announced to one least loaded worker.
  \<^item> Across threads, in this theory: a client the main thread announces becomes a live client of the
    worker that its id names when that worker has room for it, and a message from a worker to a client of another worker arrives
    there, and nowhere else.

  \<^bold>\<open>Bounds and fuel\<close>

  Loops that the source writes with \<^verbatim>\<open>while\<close> take fuel where their recursion is not structural. Each
  caller passes enough: one more than the number of buffered bytes for the loops that cut packages
  (each round takes at least eight bytes), one more than the weight of the script for the reading
  loops (each round uses up an answer). The locale \<open>framed_reader\<close> proves that this fuel is never
  exhausted. The loops of the threads run over the list of what the poller answers. The timer pass
  and the base 64 encoder use \<open>partial_function\<close>, so that not ending is a value; they are proved to
  end below a bound and not to end above it. Message handling and self-addressed messages call each
  other; two levels are proved to be enough. Buffers are assumed shorter than \<open>2 ^ 63\<close> bytes.

  \<^bold>\<open>Not modelled\<close>

  \<^item> The other thread (\<^verbatim>\<open>workers/other.cpp\<close>, \<^verbatim>\<open>app/other_app.cpp\<close>, \<^verbatim>\<open>connection/ipc_stream_ctx.cpp\<close>)
    and the scripts (\<^verbatim>\<open>app/lua_plugin.cpp\<close>): their behaviour is that of the Lua scripts they run,
    through the C interface of Lua, which is not part of the sources modelled here. For the main
    thread and the workers the other thread is the peer of a tunnel that may send any bytes.
  \<^item> HTTP (\<^verbatim>\<open>connection/http_ctx.cpp\<close>, \<^verbatim>\<open>app/http_app.cpp\<close>, with the URL and MIME helpers): the application serves files and
    directories; what it does is decided by the file system.
  \<^item> The start of the process (\<^verbatim>\<open>main.cpp\<close>, \<^verbatim>\<open>system\<close>, \<^verbatim>\<open>hooks\<close>, the part of \<^verbatim>\<open>server.cpp\<close> before
    the loop, \<^verbatim>\<open>socket_pair::init\<close>, the setters of \<^verbatim>\<open>socket.cpp\<close> that only call \<^verbatim>\<open>setsockopt\<close>):
    input and output without a result the rest depends on. The theorems on the loops start from a
    state in which it has succeeded.
  \<^item> Libraries: \<^verbatim>\<open>avant-json\<close> and \<^verbatim>\<open>avant-inifile\<close> read files for the start and the other thread,
    \<^verbatim>\<open>avant-log\<close> only writes, and \<^verbatim>\<open>avant-buffer\<close>, \<^verbatim>\<open>avant-xml\<close>, \<^verbatim>\<open>avant-sql\<close>, \<^verbatim>\<open>avant-redis\<close>,
    \<^verbatim>\<open>avant-ipc\<close> and \<^verbatim>\<open>avant-libengine\<close> are not used by the threads modelled. The example clients
    and the bundled third-party code (LuaJIT, Lua, llhttp, zlib) are not modelled either.
  \<^item> Narrowing of lengths to \<^verbatim>\<open>int\<close> in calls of protobuf and OpenSSL, which matters above \<open>2 ^ 31\<close> bytes;
    of the poller the Linux branch is modelled, over a kernel that refuses a second registration, a
    change of what is not registered, and otherwise only what its script says.
  \<^item> Data races: every thread is sequential, and the counters they share are plain integers.
\<close>

section \<open>A new client\<close>

text \<open>
  C38. A client that the main thread announces is served by a worker of the stream task without TLS.
  Let the bytes that the announcement adds to the tunnel have arrived in the worker they went
  to, let that worker know neither the descriptor nor the id and have a free connection
  in its pool, and let memory for the context be available and the kernel register the
  descriptor. Then the worker takes all the bytes, knows the client under its descriptor
  and under its id, and the client is live; the id names this worker.
\<close>

theorem announced_client_is_served:
  assumes "server_inv E s" "length (worker_nums s) \<le> 512" "env_ok E" "round_trips (ser_package E) (parse_package E)"
    "round_trips (ser_new_client E) (parse_new_client E)"
    "k = unat (choose_worker (worker_nums s))" "g = real_gid (fst (server_gen_gid src)) (choose_worker (worker_nums s))"
    "ser_new_client E \<lparr>nc_fd = f, nc_gid = g\<rparr> = Some c"
    "packs E \<lparr>sourcetunnelsid = PROTO_TUNNEL_ID_MAIN, targettunnelsid = [int k], targetallworker = False, tp_inner = \<lparr>cmd = PROTO_CMD_TUNNEL_MAIN2WORKER_NEW_CLIENT, protocol = c\<rparr>\<rparr> d"
    "s' = announce_client E (f, fst (server_gen_gid src)) s"
    "sv_stream (Worker_tunnel k) s' = sv_stream (Worker_tunnel k) s @ tunnel_buf i w"
    "tunnel_ok E tf i w" "worker_idx w = int k" "w_type w = STREAM_TASK" "0 \<le> f" "\<not> p_use_ssl E" "oc_memory (Os g)"
    "get_conn f (worker_connection_mgr w) = None" "get_conn_by_gid g (worker_connection_mgr w) = None"
    "unused_set (worker_connection_mgr w) \<noteq> {}" "k_verdicts (epoller w) = [] \<or> hd (k_verdicts (epoller w))"
  shows "let w' = tunnel_parse_loop (Suc (length (tunnel_buf i w))) (stream_task E) E Os i w
    in tunnel_ok E tf i w' \<and> tunnel_buf i w' = [] \<and> hash_gid_2_worker_tunnel_id g = get_worker_tunnel_id (worker_idx w) \<and>
       (\<exists>j. get_conn f (worker_connection_mgr w') = Some j \<and> get_conn_by_gid g (worker_connection_mgr w') = Some j \<and> ctx_live j w')"
proof -
  have l: "worker_nums s \<noteq> []" "m_worker_cnt (p_tunnels E) = int (length (worker_nums s))" using assms(1) by (auto simp: server_inv_def)
  have h: "hash_gid_2_worker_tunnel_id g = get_worker_tunnel_id (worker_idx w)"
  proof -
    obtain k' where k': "k' < length (worker_nums s)" "choose_worker (worker_nums s) = of_nat k'"
        "hash_gid_2_worker_tunnel_id (real_gid (fst (server_gen_gid src)) (choose_worker (worker_nums s))) = get_worker_tunnel_id (int k')"
      using least_loaded_routes [OF l(1) assms(2) l(2)] by blast
    have "k = k'" using k'(1,2) assms(2,6) by (simp add: unat_of_nat)
    then show ?thesis using k'(3) assms(7,13) by simp
  qed
  have b: "tunnel_buf i w = frame d" using announce_bytes [OF assms(1,6-9)] assms(10,11) by simp
  show ?thesis
    using worker_serves [where Os = Os and g = g, OF assms(12,4,5,8,9) _ b assms(14-21)] h unfolding Let_def by auto
qed

theorem announced_client_is_served_witness:
  "let g = real_gid (fst (server_gen_gid \<lparr>m_gid_seq = 0, m_latest_tick_time = 100\<rparr>)) 0;
       d = demo_hop (- 2) 0 \<lparr>cmd = 2, protocol = 11 # mem_of_u64 g\<rparr>;
       w = demo_tunnel demo_ctx (frame d) [];
       w' = tunnel_parse_loop (Suc (length (tunnel_buf 0 w))) (stream_task one_params) one_params demo_os 0 w
   in tunnel_buf 0 w' = [] \<and> (\<exists>j. get_conn 11 (worker_connection_mgr w') = Some j \<and> ctx_live j w')"
proof -
  let ?src = "\<lparr>m_gid_seq = 0, m_latest_tick_time = 100\<rparr>"
  define g where "g = real_gid (fst (server_gen_gid ?src)) 0"
  define c where "c = 11 # mem_of_u64 g"
  let ?msg = "\<lparr>cmd = 2, protocol = c\<rparr>"
  let ?d = "demo_hop (- 2) 0 ?msg"
  let ?w = "demo_tunnel demo_ctx (frame ?d) []"
  have g: "g \<noteq> 1" "g \<noteq> 4096" by (simp_all add: g_def real_gid_def server_gen_gid_def)
  have ch: "0 = unat (choose_worker (worker_nums (demo_server [])))"
      "g = real_gid (fst (server_gen_gid ?src)) (choose_worker (worker_nums (demo_server [])))" by (simp_all add: demo_choice g_def)
  have c: "ser_new_client one_params \<lparr>nc_fd = 11, nc_gid = g\<rparr> = Some c" by (simp add: c_ser_new_client_def byte_ok_def c_def)
  have p: "packs one_params \<lparr>sourcetunnelsid = PROTO_TUNNEL_ID_MAIN, targettunnelsid = [int 0], targetallworker = False,
      tp_inner = \<lparr>cmd = PROTO_CMD_TUNNEL_MAIN2WORKER_NEW_CLIENT, protocol = c\<rparr>\<rparr> ?d"
    using demo_hop_packs [of "- 2" 0 ?msg] by (simp add: id_ok_def byte_ok_def c_def proto_cmds PROTO_TUNNEL_ID_MAIN_def)
  have b: "sv_stream (Worker_tunnel 0) (announce_client one_params (11, fst (server_gen_gid ?src)) (demo_server [])) =
      sv_stream (Worker_tunnel 0) (demo_server []) @ tunnel_buf 0 ?w"
    unfolding one_tunnel_ok(2) by (rule announce_bytes [OF demo_server_inv ch c p])
  have w: "worker_idx ?w = int 0" "w_type ?w = STREAM_TASK" "oc_memory (demo_os g)" "(0 :: int) \<le> 11" "\<not> p_use_ssl one_params"
    by (simp_all add: demo_tunnel_client demo_os_def)
  note s = announced_client_is_served [where E = one_params and s = "demo_server []" and src = ?src and k = 0 and g = g and f = 11 and c = c and d = ?d
      and i = 0 and w = ?w and tf = 5 and Os = demo_os,
      OF demo_server_inv demo_choice(2) one_env_ok one_round_trips(1,2) ch c p refl b one_tunnel_ok(1) w(1,2,4,5,3) demo_tunnel_free [OF g]]
  show ?thesis
    using s unfolding Let_def g_def [symmetric] c_def [symmetric] by blast
qed

section \<open>A message between workers\<close>

text \<open>
  C39. A message that a worker sends to a client of another worker arrives: once the main thread has
  received what the worker wrote and the other worker what the main thread wrote, exactly the named
  client is sent the package, once, provided its connection takes messages; no other client and no
  other tunnel receives anything, and both readers have taken all the bytes.
\<close>

theorem message_crosses_threads:
  assumes "env_ok E" "round_trips (ser_package E) (parse_package E)" "round_trips (ser_forward E) (parse_forward E)"
    "ser_forward E m = Some fb" "targetgid m = [g]" "msg = \<lparr>cmd = PROTO_CMD_TUNNEL_CLIENT_FORWARD_MESSAGE, protocol = fb\<rparr>"
    "is_worker_tunnel_id (p_tunnels E) a" "is_worker_tunnel_id (p_tunnels E) b"
    "packs E \<lparr>sourcetunnelsid = a, targettunnelsid = [b], targetallworker = False, tp_inner = msg\<rparr> d"
    "worker_inv v" "get_worker_tunnel_id (worker_idx v) = a"
    "tunnel_stream (snd (tunnel_forward E [b] msg flush v)) = tunnel_stream v @ main_buf i s"
    "main_ok E (Worker_tunnel (nat a)) i s" "s' = server_parse_loop (Suc (length (main_buf i s))) E i s"
    "sv_stream (Worker_tunnel (nat b)) s' = sv_stream (Worker_tunnel (nat b)) s @ tunnel_buf k w"
    "tunnel_ok E tf k w" "get_worker_tunnel_id (worker_idx w) = b" "w_type w = STREAM_TASK" "hash_gid_2_worker_tunnel_id g = b"
  shows "let w' = tunnel_parse_loop (Suc (length (tunnel_buf k w))) (stream_task E) E Os k w
    in server_inv E s' \<and> main_buf i s' = [] \<and> (\<forall>q \<in> refs s. q \<noteq> Worker_tunnel (nat b) \<longrightarrow> sv_stream q s' = sv_stream q s) \<and>
       tunnel_ok E tf k w' \<and> tunnel_buf k w' = [] \<and>
       (\<forall>j. client_of j w \<longrightarrow> client_stream j w' = client_stream j w @
          (if gid (w_conn j w) = g \<and> accepting j w then pack_package (ser_package E) (cf_inner m) else []))"
proof -
  have b1: "main_buf i s = frame d" using worker_sends_one [OF assms(1,10,8), of msg d flush] assms(9,11,12) by simp
  note m = main_relays_one [OF assms(13,2) b1 assms(9,7,8), folded assms(14)]
  have "Worker_tunnel (nat b) \<in> refs s" using worker_ids(1) [of E s b] assms(8,13) by (simp add: main_ok_def refs_def)
  then have b2: "tunnel_buf k w = frame d" using m(3) assms(15) by simp
  show ?thesis
    using worker_hands_over [OF assms(16,2,3,4,5,9) _ b2 assms(18), of Os] m assms(6,17,19) by (simp add: Let_def)
qed

definition demo_receiving :: "bytes \<Rightarrow> server" where
  "demo_receiving received = upd_sconn 0 (recv_buffer_update (\<lambda>_. \<lparr>m_data = received, m_capacity = 20480\<rparr>)) (demo_server [])"

lemma demo_receiving_ok:
  "main_ok one_params (Worker_tunnel 0) 0 (demo_receiving received)" "main_buf 0 (demo_receiving received) = received"
  using recv_upd [OF demo_server_inv, where r = "Worker_tunnel 0" and received1 = "[]" and h = "\<lambda>_. \<lparr>m_data = received, m_capacity = 20480\<rparr>", unfolded demo_server_slots demo_server_refs]
    one_env_ok
  by (simp_all add: demo_receiving_def main_ok_def demo_server_refs demo_server_slots)

theorem message_crosses_threads_witness:
  "let d = demo_hop 0 0 \<lparr>cmd = 4, protocol = the (c_ser_forward demo_forward)\<rparr>;
       w = demo_tunnel demo_ctx (frame d) [];
       w' = tunnel_parse_loop (Suc (length (tunnel_buf 0 w))) (stream_task one_params) one_params demo_os 0 w
   in client_stream 1 w' = frame [7, 1]"
proof -
  define msg where "msg = \<lparr>cmd = 4, protocol = the (c_ser_forward demo_forward)\<rparr>"
  define d where "d = demo_hop 0 0 msg"
  let ?w = "demo_tunnel demo_ctx (frame d) []" and ?s = "demo_receiving (frame d)"
  have fb: "c_ser_forward demo_forward = Some (the (c_ser_forward demo_forward))" "length (the (c_ser_forward demo_forward)) < 1000"
    by (simp_all add: c_ser_forward_def demo_forward_def byte_ok_def)
  have id: "is_worker_tunnel_id (p_tunnels one_params) 0" "get_worker_tunnel_id 0 = 0"
    by (simp_all add: is_worker_tunnel_id_def PROTO_TUNNEL_WORKER_MIN_def get_worker_tunnel_id_max_def get_worker_tunnel_id_def)
  have p: "packs one_params \<lparr>sourcetunnelsid = 0, targettunnelsid = [0], targetallworker = False, tp_inner = msg\<rparr> d"
    unfolding d_def using demo_hop_packs [of 0 0 msg] fb(2) by (simp add: id_ok_def byte_ok_def msg_def)
  have v: "worker_inv (demo_tunnel demo_ctx [] [])" "get_worker_tunnel_id (worker_idx (demo_tunnel demo_ctx [] [])) = 0"
    using clients_okD(1) [OF demo_tunnel_ok(1) [of demo_ctx "[]" "[]"]] id(2) by (simp_all add: demo_tunnel_client)
  have fwd: "ser_forward one_params demo_forward = Some (the (c_ser_forward demo_forward))" "targetgid demo_forward = [4096]"
      "msg = \<lparr>cmd = PROTO_CMD_TUNNEL_CLIENT_FORWARD_MESSAGE, protocol = the (c_ser_forward demo_forward)\<rparr>"
    using fb(1) by (simp_all add: msg_def proto_cmds) (simp add: demo_forward_def)
  have m: "main_ok one_params (Worker_tunnel (nat 0)) 0 ?s" using demo_receiving_ok(1) by simp
  have b1: "tunnel_stream (snd (tunnel_forward one_params [0] msg True (demo_tunnel demo_ctx [] []))) = tunnel_stream (demo_tunnel demo_ctx [] []) @ main_buf 0 ?s"
    unfolding demo_receiving_ok(2) by (rule worker_sends_one [OF one_env_ok v(1) id(1)]) (use p v(2) in simp)
  have "Worker_tunnel (nat 0) \<in> refs ?s" using m by (simp add: main_ok_def)
  then have b2: "sv_stream (Worker_tunnel (nat 0)) (server_parse_loop (Suc (length (main_buf 0 ?s))) one_params 0 ?s) =
      sv_stream (Worker_tunnel (nat 0)) ?s @ tunnel_buf 0 ?w"
    using main_relays_one(3) [OF m one_round_trips(1) demo_receiving_ok(2) p id(1) id(1)] unfolding one_tunnel_ok(2) by simp
  have w: "get_worker_tunnel_id (worker_idx ?w) = 0" "w_type ?w = STREAM_TASK" "hash_gid_2_worker_tunnel_id 4096 = 0"
    using id(2) by (simp_all add: demo_tunnel_client hash_gid_2_worker_tunnel_id_def)
  have cl: "client_of 1 ?w" "gid (w_conn 1 ?w) = 4096" "accepting 1 ?w" "client_stream 1 ?w = []"
    by (rule demo_tunnel_receiver)+
  have s: "pack_package (ser_package one_params) (cf_inner demo_forward) = frame [7, 1]"
    by (rule pack_package_frame(1)) (simp add: demo_forward_def c_ser_package_def byte_ok_def)
  note x = message_crosses_threads [where E = one_params and m = demo_forward and g = 4096 and a = 0 and b = 0 and d = d and v = "demo_tunnel demo_ctx [] []"
      and flush = True and i = 0 and s = ?s and k = 0 and w = ?w and tf = 5 and Os = demo_os,
      OF one_env_ok one_round_trips(1,3) fwd id(1) id(1) p v b1 m refl b2 one_tunnel_ok(1) w]
  show ?thesis
    using x cl s unfolding Let_def msg_def [symmetric] d_def [symmetric] by simp
qed

end
